(* ===== verification/Prelude.thy ===== *)
theory Prelude
  imports Main "HOL-Library.AList"
begin

text \<open>
  Shared vocabulary of the development: JavaScript strings, the JavaScript values that
  reach the modelled code as \<open>unknown\<close>, insertion-ordered maps, and the simplification
  rules the component theories rely on.

  A JavaScript string is a sequence of UTF-16 code units.  The model takes the sequences
  whose units lie below 256, which is Isabelle's type \<open>string\<close>; every operation below is
  the JavaScript one on that range (so \<open>js_ws\<close> holds of the no-break space and
  \<open>toLowerCase\<close> maps the Latin-1 capitals).
\<close>

named_theorems js_defs \<open>unfolding rules of the string operations\<close>
named_theorems perm_defs \<open>unfolding rules of the permission data model\<close>
named_theorems scan_defs \<open>unfolding rules of the shell scanners\<close>

section \<open>Characters\<close>

abbreviation SQ :: char where "SQ \<equiv> CHR 0x27"
abbreviation DQ :: char where "DQ \<equiv> CHR 0x22"
abbreviation BS :: char where "BS \<equiv> CHR 0x5C"
abbreviation BT :: char where "BT \<equiv> CHR 0x60"
abbreviation LF :: char where "LF \<equiv> CHR 0x0A"
abbreviation CR :: char where "CR \<equiv> CHR 0x0D"
abbreviation TAB :: char where "TAB \<equiv> CHR 0x09"
abbreviation SP :: char where "SP \<equiv> CHR 0x20"

definition code :: "char \<Rightarrow> nat" where
  "code c = of_char c"

text \<open>The class \<open>\s\<close> of a regular expression, which is also what \<open>trim\<close> removes.\<close>

definition js_ws :: "char \<Rightarrow> bool" where
  "js_ws c \<longleftrightarrow> c = SP \<or> c = TAB \<or> c = LF \<or> c = CHR 0x0B \<or> c = CHR 0x0C \<or> c = CR \<or> c = CHR 0xA0"

definition is_digit :: "char \<Rightarrow> bool" where
  "is_digit c \<longleftrightarrow> 48 \<le> code c \<and> code c \<le> 57"

definition is_upper :: "char \<Rightarrow> bool" where
  "is_upper c \<longleftrightarrow> 65 \<le> code c \<and> code c \<le> 90"

definition is_lower :: "char \<Rightarrow> bool" where
  "is_lower c \<longleftrightarrow> 97 \<le> code c \<and> code c \<le> 122"

definition is_alpha :: "char \<Rightarrow> bool" where
  "is_alpha c \<longleftrightarrow> is_upper c \<or> is_lower c"

definition is_alnum :: "char \<Rightarrow> bool" where
  "is_alnum c \<longleftrightarrow> is_alpha c \<or> is_digit c"

definition char_lower :: "char \<Rightarrow> char" where
  "char_lower c =
     (if is_upper c \<or> (192 \<le> code c \<and> code c \<le> 222 \<and> code c \<noteq> 215)
      then char_of (code c + 32) else c)"

lemma js_ws_simps [simp]:
  "js_ws SP" "js_ws TAB" "js_ws LF" "js_ws CR"
  "\<not> js_ws SQ" "\<not> js_ws DQ" "\<not> js_ws BS" "\<not> js_ws BT"
  by (simp_all add: js_ws_def)

section \<open>Strings\<close>

definition starts_with :: "string \<Rightarrow> string \<Rightarrow> bool" where
  "starts_with p s \<longleftrightarrow> take (length p) s = p"

definition ends_with :: "string \<Rightarrow> string \<Rightarrow> bool" where
  "ends_with p s \<longleftrightarrow> length p \<le> length s \<and> drop (length s - length p) s = p"

fun str_includes :: "string \<Rightarrow> string \<Rightarrow> bool" where
  "str_includes t [] = (t = [])"
| "str_includes t (c # s) = (starts_with t (c # s) \<or> str_includes t s)"

text \<open>\<open>s.indexOf(t, from)\<close>, with \<open>None\<close> for the result \<open>-1\<close>; \<open>index_at\<close> counts from \<open>i\<close>.\<close>

fun index_at :: "string \<Rightarrow> nat \<Rightarrow> string \<Rightarrow> nat option" where
  "index_at t i [] = (if t = [] then Some i else None)"
| "index_at t i (c # s) = (if starts_with t (c # s) then Some i else index_at t (Suc i) s)"

definition index_of :: "string \<Rightarrow> string \<Rightarrow> nat \<Rightarrow> nat option" where
  "index_of s t from = index_at t (min from (length s)) (drop from s)"

text \<open>\<open>s[i]\<close>: \<open>undefined\<close> outside the string.\<close>

definition char_at :: "string \<Rightarrow> nat \<Rightarrow> char option" where
  "char_at s i = (if i < length s then Some (s ! i) else None)"

definition slice :: "nat \<Rightarrow> nat \<Rightarrow> string \<Rightarrow> string" where
  "slice a b s = take (b - a) (drop a s)"

definition js_trim :: "string \<Rightarrow> string" where
  "js_trim s = rev (dropWhile js_ws (rev (dropWhile js_ws s)))"

definition to_lower :: "string \<Rightarrow> string" where
  "to_lower s = map char_lower s"

text \<open>\<open>s.split(sep)\<close> for a non-empty separator.\<close>

fun split_acc :: "string \<Rightarrow> string \<Rightarrow> string \<Rightarrow> string list" where
  "split_acc sep cur [] = [cur]"
| "split_acc sep cur (c # s) =
     (if starts_with sep (c # s) then cur # split_acc sep [] (drop (length sep - 1) s)
      else split_acc sep (cur @ [c]) s)"

definition js_split :: "string \<Rightarrow> string \<Rightarrow> string list" where
  "js_split sep s = split_acc sep [] s"

fun js_join :: "string \<Rightarrow> string list \<Rightarrow> string" where
  "js_join sep [] = []"
| "js_join sep [x] = x"
| "js_join sep (x # y # zs) = x @ sep @ js_join sep (y # zs)"

text \<open>The truth value of a string in a condition.\<close>

definition truthy :: "string \<Rightarrow> bool" where
  "truthy s \<longleftrightarrow> s \<noteq> []"

definition truthy_opt :: "string option \<Rightarrow> bool" where
  "truthy_opt so \<longleftrightarrow> (case so of None \<Rightarrow> False | Some s \<Rightarrow> s \<noteq> [])"

lemmas [js_defs] = starts_with_def ends_with_def index_of_def char_at_def slice_def js_trim_def
  to_lower_def js_split_def truthy_def truthy_opt_def

lemma truthy_opt_simps [simp]:
  "truthy_opt None = False" "truthy_opt (Some s) = (s \<noteq> [])"
  by (simp_all add: truthy_opt_def)

lemma starts_with_Nil [simp]: "starts_with [] s"
  by (simp add: starts_with_def)

lemma starts_with_self [simp]: "starts_with s s"
  by (simp add: starts_with_def)

lemma starts_with_append [simp]: "starts_with p (p @ s)"
  by (simp add: starts_with_def)

lemma starts_with_Cons [simp]:
  "starts_with (p # ps) (c # s) = (p = c \<and> starts_with ps s)"
  "starts_with (p # ps) [] = False"
  by (auto simp: starts_with_def)

lemma starts_with_iff: "starts_with p s \<longleftrightarrow> (\<exists>t. s = p @ t)"
proof
  assume "starts_with p s"
  then have "s = p @ drop (length p) s"
    by (metis append_take_drop_id starts_with_def)
  then show "\<exists>t. s = p @ t" ..
qed auto

lemma str_includes_iff: "str_includes t s \<longleftrightarrow> (\<exists>u v. s = u @ t @ v)"
proof (induction s)
  case Nil
  then show ?case by simp
next
  case (Cons c s)
  have "(\<exists>u v. c # s = u @ t @ v) \<longleftrightarrow> (\<exists>v. c # s = t @ v) \<or> (\<exists>u v. s = u @ t @ v)"
    (is "?l \<longleftrightarrow> ?r")
  proof
    assume ?l
    then obtain u v where uv: "c # s = u @ t @ v" by blast
    then show ?r by (cases u) auto
  next
    assume ?r
    then show ?l
    proof
      assume "\<exists>v. c # s = t @ v"
      then obtain v where "c # s = [] @ t @ v" by auto
      then show ?l by blast
    next
      assume "\<exists>u v. s = u @ t @ v"
      then obtain u v where "c # s = (c # u) @ t @ v" by auto
      then show ?l by blast
    qed
  qed
  with Cons.IH show ?case by (simp add: starts_with_iff)
qed

lemma char_at_simps [simp]:
  "char_at [] i = None"
  "char_at (c # s) 0 = Some c"
  "char_at (c # s) (Suc i) = char_at s i"
  by (simp_all add: char_at_def)

lemma js_join_Cons: "ws \<noteq> [] \<Longrightarrow> js_join sep (w # ws) = w @ sep @ js_join sep ws"
  by (cases ws) simp_all

subsection \<open>Splitting\<close>

lemma split_acc_none: "\<not> str_includes sep s \<Longrightarrow> split_acc sep cur s = [cur @ s]"
  by (induction s arbitrary: cur) auto

lemma split_acc_some:
  assumes "sep \<noteq> []" "\<not> str_includes sep (w @ butlast sep)"
  shows "split_acc sep cur (w @ sep @ rest) = (cur @ w) # split_acc sep [] rest"
  using assms(2)
proof (induction w arbitrary: cur)
  case Nil
  obtain c sep' where "sep = c # sep'" using assms(1) by (cases sep) auto
  then show ?case by simp
next
  case (Cons x w)
  have "\<not> starts_with sep (x # w @ sep @ rest)"
  proof
    assume "starts_with sep (x # w @ sep @ rest)"
    then have "take (length sep) (x # w @ sep @ rest) = sep" by (simp add: starts_with_def)
    moreover have "length sep \<le> length (x # w @ butlast sep)"
      using assms(1) by simp
    moreover have "x # w @ sep @ rest = (x # w @ butlast sep) @ last sep # rest"
      using assms(1) by simp
    ultimately have "starts_with sep (x # w @ butlast sep)"
      by (metis starts_with_def take_append append_self_conv diff_is_0_eq' take0)
    with Cons.prems show False by simp
  qed
  with Cons show ?case by simp
qed

lemma split_acc_cases:
  assumes "sep \<noteq> []"
  obtains "\<not> str_includes sep s" "split_acc sep cur s = [cur @ s]"
  | w rest where "s = w @ sep @ rest" "\<not> str_includes sep (w @ butlast sep)"
      "split_acc sep cur s = (cur @ w) # split_acc sep [] rest"
proof (cases "str_includes sep s")
  case False
  with that(1) show ?thesis by (simp add: split_acc_none)
next
  case True
  have "\<exists>w rest. s = w @ sep @ rest \<and> \<not> str_includes sep (w @ butlast sep)"
    using True
  proof (induction s)
    case Nil
    with assms show ?case by simp
  next
    case (Cons c s)
    show ?case
    proof (cases "starts_with sep (c # s)")
      case True
      then obtain t where "c # s = [] @ sep @ t" by (auto simp: starts_with_iff)
      moreover have "\<not> str_includes sep ([] @ butlast sep)"
      proof
        assume "str_includes sep ([] @ butlast sep)"
        then obtain u v where "butlast sep = u @ sep @ v" by (auto simp: str_includes_iff)
        then have "length sep \<le> length (butlast sep)" by simp
        with assms show False by (cases sep rule: rev_cases) auto
      qed
      ultimately show ?thesis by blast
    next
      case False
      with Cons obtain w rest where wr: "s = w @ sep @ rest" "\<not> str_includes sep (w @ butlast sep)"
        by auto
      have "\<not> starts_with sep (c # w @ butlast sep)"
      proof
        assume "starts_with sep (c # w @ butlast sep)"
        then obtain t where t: "c # w @ butlast sep = sep @ t" by (auto simp: starts_with_iff)
        have "c # s = (c # w @ butlast sep) @ last sep # rest" using wr assms by simp
        then have "c # s = sep @ t @ last sep # rest" using t by simp
        with False show False by (auto simp: starts_with_iff)
      qed
      with wr have "c # s = (c # w) @ sep @ rest \<and> \<not> str_includes sep ((c # w) @ butlast sep)" by simp
      then show ?thesis by blast
    qed
  qed
  then obtain w rest where "s = w @ sep @ rest" "\<not> str_includes sep (w @ butlast sep)" by blast
  with that(2) split_acc_some [OF assms] show ?thesis by metis
qed

lemma split_acc_not_Nil [simp]: "split_acc sep cur s \<noteq> []" "[] \<noteq> split_acc sep cur s"
  by (induction sep cur s rule: split_acc.induct) auto

section \<open>Values of type \<open>unknown\<close>\<close>

text \<open>
  Numbers are the integers among the JavaScript numbers; \<open>JNonFinite\<close> stands for NaN and
  the infinities.  An object is its own enumerable properties in order.
\<close>

datatype jsval =
    JUndefined
  | JNull
  | JBool bool
  | JNumber int
  | JNonFinite
  | JString string
  | JArray "jsval list"
  | JObject "(string \<times> jsval) list"

type_synonym jsobj = "(string \<times> jsval) list"

definition prop_of :: "jsobj \<Rightarrow> string \<Rightarrow> jsval" where
  "prop_of obj k = (case map_of obj k of None \<Rightarrow> JUndefined | Some v \<Rightarrow> v)"

fun as_string :: "jsval \<Rightarrow> string option" where
  "as_string (JString s) = Some s"
| "as_string _ = None"

definition string_prop :: "jsobj \<Rightarrow> string \<Rightarrow> string option" where
  "string_prop obj k = as_string (prop_of obj k)"

text \<open>The operator \<open>??\<close>: the left operand unless it is \<open>undefined\<close>.\<close>

definition or_else :: "'a option \<Rightarrow> 'a option \<Rightarrow> 'a option" where
  "or_else a b = (case a of None \<Rightarrow> b | Some x \<Rightarrow> Some x)"

definition or_default :: "'a option \<Rightarrow> 'a \<Rightarrow> 'a" where
  "or_default a d = (case a of None \<Rightarrow> d | Some x \<Rightarrow> x)"

lemma or_else_simps [simp]: "or_else None b = b" "or_else (Some x) b = Some x"
  by (simp_all add: or_else_def)

lemma or_default_simps [simp]: "or_default None d = d" "or_default (Some x) d = x"
  by (simp_all add: or_default_def)

lemma or_else_eq_None [simp]: "or_else a b = None \<longleftrightarrow> a = None \<and> b = None"
  by (cases a) simp_all

section \<open>Searching a list\<close>

lemma find_filter_weaker: "(\<And>x. P x \<Longrightarrow> Q x) \<Longrightarrow> find P (filter Q xs) = find P xs"
  by (induction xs) auto

lemma find_neq_None: "find P xs \<noteq> None \<longleftrightarrow> list_ex P xs"
  by (induction xs) auto

section \<open>Insertion-ordered maps\<close>

text \<open>
  A JavaScript \<open>Map\<close> iterates in insertion order: setting a present key keeps its place, a
  new key goes last.  \<open>AList.update\<close> and \<open>AList.delete\<close> behave exactly so.  The locale states
  what a client of such a store relies on.
\<close>

locale keyed_store =
  fixes lookup :: "'m \<Rightarrow> 'k \<Rightarrow> 'v option"
    and store :: "'k \<Rightarrow> 'v \<Rightarrow> 'm \<Rightarrow> 'm"
    and remove :: "'k \<Rightarrow> 'm \<Rightarrow> 'm"
  assumes lookup_store: "lookup (store k v m) k' = (if k' = k then Some v else lookup m k')"
    and lookup_remove: "lookup (remove k m) k' = (if k' = k then None else lookup m k')"
begin

lemma store_frame: "k' \<noteq> k \<Longrightarrow> lookup (store k v m) k' = lookup m k'"
  by (simp add: lookup_store)

lemma remove_frame: "k' \<noteq> k \<Longrightarrow> lookup (remove k m) k' = lookup m k'"
  by (simp add: lookup_remove)

lemma store_store: "lookup (store k v (store k w m)) = lookup (store k v m)"
  by (auto simp: lookup_store fun_eq_iff)

lemma all_store:
  "(\<And>k' v'. lookup m k' = Some v' \<Longrightarrow> P k' v') \<Longrightarrow> P k v \<Longrightarrow>
   lookup (store k v m) k'' = Some v'' \<Longrightarrow> P k'' v''"
  by (auto simp: lookup_store split: if_splits)

lemma all_remove:
  "(\<And>k' v'. lookup m k' = Some v' \<Longrightarrow> P k' v') \<Longrightarrow>
   lookup (remove k m) k'' = Some v'' \<Longrightarrow> P k'' v''"
  by (auto simp: lookup_remove split: if_splits)

end

interpretation omap: keyed_store map_of AList.update AList.delete
proof unfold_locales
  fix k :: 'a and v :: 'b and m k'
  show "map_of (AList.update k v m) k' = (if k' = k then Some v else map_of m k')"
    by (simp add: update_conv')
  show "map_of (AList.delete k m) k' = (if k' = k then None else map_of m k')"
    by (simp add: delete_conv')
qed

section \<open>Scanning loops\<close>

text \<open>
  A loop \<open>for (let i = 0; i < s.length; i++)\<close> over the characters of a string whose body may
  advance the index: \<open>scan body i s st\<close> is the state after the loop started at index \<open>i\<close>, with
  \<open>s\<close> the part of the string from there on.  The body sees the index, the character, the
  characters after it (for lookahead) and the state; it returns how many further characters it
  consumed, and the new state.
\<close>

type_synonym 's scan_body = "nat \<Rightarrow> char \<Rightarrow> string \<Rightarrow> 's \<Rightarrow> nat \<times> 's"

fun scan :: "'s scan_body \<Rightarrow> nat \<Rightarrow> string \<Rightarrow> 's \<Rightarrow> 's" where
  "scan body i [] st = st"
| "scan body i (c # rest) st =
     (case body i c rest st of (k, st') \<Rightarrow> scan body (Suc i + k) (drop k rest) st')"

text \<open>An invariant of the index, the text left and the state, kept by the body.\<close>

lemma scan_invariant:
  assumes "\<And>i c rest st k st'. P i (c # rest) st \<Longrightarrow> body i c rest st = (k, st') \<Longrightarrow>
             P (Suc i + k) (drop k rest) st'"
    and "P i s st"
  shows "\<exists>j. P j [] (scan body i s st)"
  using assms(2)
proof (induction "length s" arbitrary: i s st rule: less_induct)
  case less
  show ?case
  proof (cases s)
    case Nil
    with less.prems show ?thesis by auto
  next
    case (Cons c rest)
    obtain k st' where b: "body i c rest st = (k, st')" by (cases "body i c rest st")
    have "P (Suc i + k) (drop k rest) st'"
      using assms(1) [OF _ b] less.prems Cons by simp
    then have "\<exists>j. P j [] (scan body (Suc i + k) (drop k rest) st')"
      using less.hyps [of "drop k rest"] Cons by simp
    with Cons b show ?thesis by simp
  qed
qed

text \<open>The outcome of one round of a loop that may leave early with a result.\<close>

datatype ('s, 'r) round = Continue 's | Return 'r

lemma char_at_length: "char_at s i = Some x \<Longrightarrow> i < length s"
  by (simp add: char_at_def split: if_splits)

text \<open>Cutting a scan in two, when the body does not look across the cut.\<close>

lemma scan_append:
  assumes "\<And>p i c rest st. a = p @ c # rest \<Longrightarrow> body i c (rest @ b) st = body i c rest st"
    and "\<And>p i c rest st. a = p @ c # rest \<Longrightarrow> fst (body i c rest st) \<le> length rest"
  shows "scan body i (a @ b) st = scan body (i + length a) b (scan body i a st)"
  using assms
proof (induction "length a" arbitrary: a i st rule: less_induct)
  case less
  show ?case
  proof (cases a)
    case Nil
    then show ?thesis by simp
  next
    case (Cons c rest)
    obtain k st' where b: "body i c rest st = (k, st')" by (cases "body i c rest st")
    have k: "k \<le> length rest" using less.prems(2) [of "[]" c rest i st] Cons b by simp
    have b': "body i c (rest @ b) st = (k, st')" using less.prems(1) [of "[]" c rest i st] Cons b by simp
    have sub: "drop k rest = p @ d # r \<Longrightarrow> a = (c # take k rest @ p) @ d # r" for p d r
      using Cons by (metis append_Cons append_assoc append_take_drop_id)
    have "scan body (Suc i + k) (drop k rest @ b) st'
        = scan body (Suc i + k + length (drop k rest)) b (scan body (Suc i + k) (drop k rest) st')"
      using less.hyps [of "drop k rest" "Suc i + k" st'] Cons less.prems(1) [OF sub] less.prems(2) [OF sub]
      by auto
    then show ?thesis using Cons b b' k by simp
  qed
qed

lemma scan_related:
  assumes "\<And>i j c rest s t. R s t \<Longrightarrow> fst (b1 i c rest s) = fst (b2 j c rest t)
             \<and> R (snd (b1 i c rest s)) (snd (b2 j c rest t))"
    and "R s t"
  shows "R (scan b1 i str s) (scan b2 j str t)"
  using assms(2)
proof (induction "length str" arbitrary: str i j s t rule: less_induct)
  case less
  show ?case
  proof (cases str)
    case Nil
    with less.prems show ?thesis by simp
  next
    case (Cons c rest)
    have "fst (b1 i c rest s) = fst (b2 j c rest t) \<and> R (snd (b1 i c rest s)) (snd (b2 j c rest t))"
      by (rule assms(1)) (rule less.prems)
    then show ?thesis
      using less.hyps [of "drop (fst (b1 i c rest s)) rest"] Cons
      by (simp add: case_prod_beta)
  qed
qed

lemma char_at_append: "char_at (s @ t) i = (if i < length s then char_at s i else char_at t (i - length s))"
  by (auto simp: char_at_def nth_append)

lemma char_at_0: "char_at s 0 = Some x \<Longrightarrow> \<exists>t. s = x # t"
  by (cases s) auto

lemma char_at_01: "char_at s 0 = Some x \<Longrightarrow> char_at s 1 = Some y \<Longrightarrow> \<exists>t. s = x # y # t"
  by (cases s; cases "tl s") auto

section \<open>Parts of a string and trimming\<close>

text \<open>\<open>s.replace (/\s+/g, ' ')\<close>, where the flag says that the character before was white space.\<close>

fun collapse_ws :: "bool \<Rightarrow> string \<Rightarrow> string" where
  "collapse_ws prev [] = []"
| "collapse_ws prev (c # s) =
     (if js_ws c then (if prev then collapse_ws True s else SP # collapse_ws True s)
      else c # collapse_ws False s)"

lemma str_includes_trans: "str_includes a b \<Longrightarrow> str_includes b c \<Longrightarrow> str_includes a c"
  unfolding str_includes_iff by (metis append.assoc)

lemma str_includes_self [simp]: "str_includes s s"
  unfolding str_includes_iff by (metis append.left_neutral append.right_neutral)

lemma str_includes_drop: "str_includes (drop n s) s"
  unfolding str_includes_iff by (metis append_take_drop_id append.right_neutral)

lemma str_includes_dropWhile: "str_includes (dropWhile P s) s"
  by (metis dropWhile_eq_drop str_includes_drop)

lemma str_includes_trim: "str_includes (js_trim s) s"
proof -
  have "dropWhile js_ws s = js_trim s @ rev (takeWhile js_ws (rev (dropWhile js_ws s)))"
    unfolding js_trim_def by (metis rev_append rev_rev_ident takeWhile_dropWhile_id)
  then have "str_includes (js_trim s) (dropWhile js_ws s)"
    unfolding str_includes_iff by (metis append.left_neutral)
  then show ?thesis by (rule str_includes_trans) (rule str_includes_dropWhile)
qed

definition trimmed :: "string \<Rightarrow> bool" where
  "trimmed s \<longleftrightarrow> s = [] \<or> (\<not> js_ws (hd s) \<and> \<not> js_ws (last s))"

lemma hd_dropWhile': "dropWhile P s \<noteq> [] \<Longrightarrow> \<not> P (hd (dropWhile P s))"
  by (induction s) auto

lemma trimmed_trim: "trimmed (js_trim s)"
proof (cases "js_trim s = []")
  case False
  let ?d = "dropWhile js_ws s" and ?r = "dropWhile js_ws (rev (dropWhile js_ws s))"
  have r: "js_trim s = rev ?r" by (simp add: js_trim_def)
  with False have ne: "?r \<noteq> []" by auto
  then have l: "\<not> js_ws (last (js_trim s))" using hd_dropWhile' [of js_ws "rev ?d"] r by (simp add: last_rev)
  have "last ?r = last (rev ?d)" using ne by (metis last_appendR takeWhile_dropWhile_id)
  moreover have dne: "?d \<noteq> []"
  proof
    assume "?d = []"
    with ne show False by simp
  qed
  ultimately have "hd (js_trim s) = hd ?d" using r ne by (simp add: hd_rev last_rev)
  then show ?thesis using l hd_dropWhile' [OF dne] by (simp add: trimmed_def)
qed (simp add: trimmed_def)

lemma dropWhile_none: "xs \<noteq> [] \<Longrightarrow> \<not> P (hd xs) \<Longrightarrow> dropWhile P xs = xs"
  by (cases xs) auto

lemma trim_trimmed: "trimmed s \<Longrightarrow> js_trim s = s"
  using dropWhile_none [of s js_ws] dropWhile_none [of "rev s" js_ws]
  by (cases "s = []") (auto simp: js_trim_def trimmed_def hd_rev)

section \<open>Marks\<close>

text \<open>A string is cut at the first occurrence of a mark.\<close>

lemma first_mark_eq:
  "c \<notin> set xs \<Longrightarrow> c \<notin> set xs' \<Longrightarrow> xs @ c # ys = xs' @ c # ys' \<longleftrightarrow> xs = xs' \<and> ys = ys'"
proof (induction xs arbitrary: xs')
  case Nil
  then show ?case by (cases xs') auto
next
  case (Cons x xs)
  then show ?case by (cases xs') auto
qed

section \<open>List updates\<close>

lemma update_member:
  assumes "x \<in> set (xs[k := y])" "x \<noteq> y"
  obtains j where "j \<noteq> k" "j < length xs" "x = xs ! j"
proof -
  from assms(1) obtain j where j: "j < length xs" "(xs[k := y]) ! j = x"
    unfolding in_set_conv_nth by auto
  with assms(2) have "j \<noteq> k" by (auto simp: nth_list_update)
  with j show ?thesis using that by auto
qed

section \<open>Systems of events\<close>

text \<open>
  A component that keeps state and is driven by calls is a step function over events, some of which
  may not be possible in a state (a handle that was not given out cannot be used).  A state is
  reached if a sequence of possible events leads to it.
\<close>

inductive reached :: "'s \<Rightarrow> ('s \<Rightarrow> 'e \<Rightarrow> bool) \<Rightarrow> ('e \<Rightarrow> 's \<Rightarrow> 's) \<Rightarrow> 's \<Rightarrow> bool"
  for init :: 's and possible :: "'s \<Rightarrow> 'e \<Rightarrow> bool" and step :: "'e \<Rightarrow> 's \<Rightarrow> 's" where
  start: "reached init possible step init"
| event: "reached init possible step s \<Longrightarrow> possible s e \<Longrightarrow> reached init possible step (step e s)"

primrec run_events :: "('e \<Rightarrow> 's \<Rightarrow> 's) \<Rightarrow> 'e list \<Rightarrow> 's \<Rightarrow> 's" where
  "run_events step [] s = s"
| "run_events step (e # es) s = run_events step es (step e s)"

primrec all_possible :: "('s \<Rightarrow> 'e \<Rightarrow> bool) \<Rightarrow> ('e \<Rightarrow> 's \<Rightarrow> 's) \<Rightarrow> 'e list \<Rightarrow> 's \<Rightarrow> bool" where
  "all_possible possible step [] s = True"
| "all_possible possible step (e # es) s \<longleftrightarrow> possible s e \<and> all_possible possible step es (step e s)"

lemma run_events_append: "run_events step (es @ fs) s = run_events step fs (run_events step es s)"
  by (induction es arbitrary: s) simp_all

lemma all_possible_append:
  "all_possible possible step (es @ fs) s \<longleftrightarrow>
     all_possible possible step es s \<and> all_possible possible step fs (run_events step es s)"
  by (induction es arbitrary: s) simp_all

lemma reached_run:
  "reached init possible step s \<Longrightarrow> all_possible possible step es s \<Longrightarrow>
   reached init possible step (run_events step es s)"
  by (induction es arbitrary: s) (auto intro: reached.event)

locale event_system =
  fixes init :: 's and possible :: "'s \<Rightarrow> 'e \<Rightarrow> bool" and step :: "'e \<Rightarrow> 's \<Rightarrow> 's"
    and ok :: "'s \<Rightarrow> bool"
  assumes ok_init: "ok init"
    and ok_step: "ok s \<Longrightarrow> possible s e \<Longrightarrow> ok (step e s)"
begin

lemma reached_ok: "reached init possible step s \<Longrightarrow> ok s"
  by (induction rule: reached.induct) (auto intro: ok_init ok_step)

lemma run_ok: "ok s \<Longrightarrow> all_possible possible step es s \<Longrightarrow> ok (run_events step es s)"
  by (induction es arbitrary: s) (auto intro: ok_step)

text \<open>A second predicate that the steps of interest keep, as long as the invariant holds.\<close>

lemma run_keeps:
  assumes "\<And>s e. ok s \<Longrightarrow> possible s e \<Longrightarrow> E e \<Longrightarrow> Q s \<Longrightarrow> Q (step e s)"
  shows "ok s \<Longrightarrow> all_possible possible step es s \<Longrightarrow> list_all E es \<Longrightarrow> Q s \<Longrightarrow>
    Q (run_events step es s)"
  by (induction es arbitrary: s) (auto intro: ok_step assms)

end

end
