(* ===== verification/PermissionTypes.thy ===== *)
theory PermissionTypes
  imports Prelude
begin

text \<open>
  The data model of the permission module:
  \<open>packages/agent-modules/permission/src/types.ts\<close>, and the three-way ask policy of
  \<open>ask-policy.ts\<close>.  Optional fields are \<open>option\<close> values; a tool input
  (\<open>Record<string, unknown>\<close>) is a \<open>jsobj\<close>.
\<close>

section \<open>Behaviours, modes and rules\<close>

datatype permission_behavior = Allow | Deny | Ask

datatype permission_mode =
  ModeDefault | ModeAcceptEdits | ModeBypassPermissions | ModeAuto | ModeDontAsk | ModeOff

datatype permission_rule_action = ActRead | ActWrite | ActDelete | ActExecute | ActNetwork

datatype permission_rule_matcher =
    MatchTool
  | MatchCommand string
  | MatchPath string "permission_rule_action list option"

record permission_rule_value =
  toolName :: string
  ruleContent :: "string option"
  matcher :: "permission_rule_matcher option"

datatype permission_rule_source = SourceGlobal | SourceAgent | SourceSession

record permission_rule =
  source :: permission_rule_source
  ruleBehavior :: permission_behavior
  ruleValue :: permission_rule_value

datatype shell_permission_rule =
    ShellExact string
  | ShellPrefix string
  | ShellWildcard string
  | ShellArgvPrefix "string list"

section \<open>Decisions\<close>

datatype decision_reason =
    ReasonRule permission_rule
  | ReasonSafetyCheck string "bool option" "string option"
  | ReasonWorkingDirectory string
  | ReasonInternalWhitelist string
  | ReasonTrustedExactWrite string
  | ReasonTempDirectory string
  | ReasonSandbox
  | ReasonMode permission_mode
  | ReasonPathValidation string
  | ReasonDangerousRemoval string
  | ReasonSubcommandResults "(string \<times> subcommand_result) list"
  | ReasonRmRewrite string
  | ReasonRecoverableDeleteRewrite "string list"
and subcommand_result = SubcommandResult permission_behavior decision_reason

datatype scope_kind = Narrow | ByFirstWord | ByArgvPrefix2 | ByDomain | WholeTool

record candidate_scope =
  scopeKind :: scope_kind
  scopeRuleContent :: string
  labelKey :: string
  labelParams :: "(string \<times> string) list option"

record candidate_scope_group =
  subjectDisplay :: string
  candidates :: "candidate_scope list"

record permission_decision =
  behavior :: permission_behavior
  reason :: decision_reason
  ruleContents :: "string list option"
  ruleMatchers :: "permission_rule_matcher list option"
  candidateScopes :: "candidate_scope_group list option"
  rewrittenInput :: "jsobj option"
  bypassImmune :: "bool option"
  skipAutoClassifier :: "bool option"

datatype checker_behavior = CheckAllow | CheckDeny | CheckAsk | CheckPassthrough

record tool_check_result =
  tcBehavior :: checker_behavior
  tcReason :: decision_reason
  tcBypassImmune :: "bool option"
  tcSkipAutoClassifier :: "bool option"
  tcRuleContents :: "string list option"
  tcRuleMatchers :: "permission_rule_matcher list option"
  tcCandidateScopes :: "candidate_scope_group list option"
  tcRewrittenInput :: "jsobj option"

text \<open>
  The object literals of the policies: every field in the order of the type, \<open>None\<close> for a field
  the literal leaves out; \<open>plain_decision\<close> leaves all the optional ones out.
\<close>

definition decision ::
    "permission_behavior \<Rightarrow> decision_reason \<Rightarrow> string list option
     \<Rightarrow> permission_rule_matcher list option \<Rightarrow> candidate_scope_group list option
     \<Rightarrow> jsobj option \<Rightarrow> bool option \<Rightarrow> bool option \<Rightarrow> permission_decision" where
  "decision b r contents matchers scopes rw immune skip =
     \<lparr>behavior = b, reason = r, ruleContents = contents, ruleMatchers = matchers,
      candidateScopes = scopes, rewrittenInput = rw, bypassImmune = immune,
      skipAutoClassifier = skip\<rparr>"

abbreviation plain_decision :: "permission_behavior \<Rightarrow> decision_reason \<Rightarrow> permission_decision" where
  "plain_decision b r \<equiv> decision b r None None None None None None"

lemma decision_simps [simp]:
  "behavior (decision b r contents matchers scopes rw immune skip) = b"
  "reason (decision b r contents matchers scopes rw immune skip) = r"
  "ruleContents (decision b r contents matchers scopes rw immune skip) = contents"
  "ruleMatchers (decision b r contents matchers scopes rw immune skip) = matchers"
  "candidateScopes (decision b r contents matchers scopes rw immune skip) = scopes"
  "rewrittenInput (decision b r contents matchers scopes rw immune skip) = rw"
  "bypassImmune (decision b r contents matchers scopes rw immune skip) = immune"
  "skipAutoClassifier (decision b r contents matchers scopes rw immune skip) = skip"
  by (simp_all add: decision_def)

section \<open>Updates\<close>

datatype permission_update =
    AddRules permission_rule_source string "permission_rule_value list" permission_behavior
  | ReplaceRules permission_rule_source string "permission_rule_value list" permission_behavior
  | RemoveRules permission_rule_source string "permission_rule_value list" permission_behavior

section \<open>Ask policy\<close>

datatype ask_for_approval = OnRequest | OnRequestLlm | Never | DenyUnlessAllowed

fun modeToAskPolicy :: "permission_mode \<Rightarrow> ask_for_approval" where
  "modeToAskPolicy ModeBypassPermissions = Never"
| "modeToAskPolicy ModeOff = Never"
| "modeToAskPolicy ModeAuto = OnRequestLlm"
| "modeToAskPolicy ModeDontAsk = DenyUnlessAllowed"
| "modeToAskPolicy ModeDefault = OnRequest"
| "modeToAskPolicy ModeAcceptEdits = OnRequest"

end
