(* ===== verification/PermissionContext.thy ===== *)
theory PermissionContext
  imports PermissionTypes
begin

text \<open>
  The immutable permission context of
  \<open>packages/agent-modules/permission/src/context.ts\<close>: its record, the factory
  \<open>createToolPermissionContext\<close>, the three updates behind \<open>applyPermissionUpdate\<close> and the
  queries the policies ask.  Freezing and logging have no effect on the value and are left out.
  \<open>process.platform\<close>, read by the factory, is an argument.
\<close>

section \<open>The context\<close>

datatype shell_family = Posix | Cmd | Powershell | UnknownShell

record tool_permission_context =
  mode :: permission_mode
  rules :: "permission_rule list"
  sandboxEnabled :: bool
  autoAllowBashIfSandboxed :: bool
  platform :: string
  shellFamily :: shell_family
  workingDirectory :: string
  allowedWorkingPaths :: "string list"
  sandboxAllowPaths :: "string list"
  trustedExactWritePaths :: "string list"
  dataDir :: string
  homeDir :: string
  isFile :: "(string \<Rightarrow> bool) option"
  agentName :: "string option"
  sessionId :: "string option"
  allowManagedPermissionRulesOnly :: bool
  interactiveTools :: "string set"

record tool_permission_context_config =
  cfgMode :: "permission_mode option"
  cfgRules :: "permission_rule list option"
  cfgSandboxEnabled :: "bool option"
  cfgAutoAllowBashIfSandboxed :: "bool option"
  cfgPlatform :: "string option"
  cfgShellFamily :: "shell_family option"
  cfgWorkingDirectory :: string
  cfgAllowedWorkingPaths :: "string list option"
  cfgSandboxAllowPaths :: "string list option"
  cfgTrustedExactWritePaths :: "string list option"
  cfgDataDir :: string
  cfgHomeDir :: string
  cfgIsFile :: "(string \<Rightarrow> bool) option"
  cfgAgentName :: "string option"
  cfgSessionId :: "string option"
  cfgAllowManagedPermissionRulesOnly :: "bool option"
  cfgInteractiveTools :: "string set option"

definition createToolPermissionContext ::
    "string \<Rightarrow> tool_permission_context_config \<Rightarrow> tool_permission_context" where
  "createToolPermissionContext process_platform config =
     \<lparr>mode = or_default (cfgMode config) ModeDefault,
      rules = or_default (cfgRules config) [],
      sandboxEnabled = or_default (cfgSandboxEnabled config) False,
      autoAllowBashIfSandboxed = or_default (cfgAutoAllowBashIfSandboxed config) False,
      platform = or_default (cfgPlatform config) process_platform,
      shellFamily = or_default (cfgShellFamily config) UnknownShell,
      workingDirectory = cfgWorkingDirectory config,
      allowedWorkingPaths = or_default (cfgAllowedWorkingPaths config) [],
      sandboxAllowPaths = or_default (cfgSandboxAllowPaths config) [],
      trustedExactWritePaths = or_default (cfgTrustedExactWritePaths config) [],
      dataDir = cfgDataDir config,
      homeDir = cfgHomeDir config,
      isFile = cfgIsFile config,
      agentName = cfgAgentName config,
      sessionId = cfgSessionId config,
      allowManagedPermissionRulesOnly =
        or_default (cfgAllowManagedPermissionRulesOnly config) False,
      interactiveTools = or_default (cfgInteractiveTools config) {''question''}\<rparr>"

section \<open>Updates\<close>

definition ruleValueEquals :: "permission_rule_value \<Rightarrow> permission_rule_value \<Rightarrow> bool" where
  "ruleValueEquals a b =
     (if toolName a \<noteq> toolName b
         \<or> or_default (ruleContent a) [] \<noteq> or_default (ruleContent b) [] then False
      else (case (matcher a, matcher b) of
          (None, None) \<Rightarrow> True
        | (Some MatchTool, Some MatchTool) \<Rightarrow> True
        | (Some (MatchCommand p), Some (MatchCommand q)) \<Rightarrow> p = q
        | (Some (MatchPath p aActions), Some (MatchPath q bActions)) \<Rightarrow>
            (if p \<noteq> q then False
             else (case (aActions, bActions) of
                 (None, None) \<Rightarrow> True
               | (Some as, Some bs) \<Rightarrow>
                   length as = length bs \<and> list_all (\<lambda>action. action \<in> set bs) as
               | _ \<Rightarrow> False))
        | _ \<Rightarrow> False))"

fun cloneContextWith ::
    "tool_permission_context \<Rightarrow> permission_mode option \<Rightarrow> permission_rule list option
     \<Rightarrow> tool_permission_context" where
  "cloneContextWith ctx patchMode patchRules =
     ctx\<lparr>mode := or_default patchMode (mode ctx), rules := or_default patchRules (rules ctx)\<rparr>"

text \<open>The loop body of \<open>addRules\<close>: append one value unless an equal rule is already there.\<close>

definition addRule ::
    "permission_rule_source \<Rightarrow> permission_behavior \<Rightarrow> permission_rule_value
     \<Rightarrow> permission_rule list \<Rightarrow> permission_rule list" where
  "addRule src bhv value existing =
     (if list_ex (\<lambda>r. source r = src \<and> ruleBehavior r = bhv \<and> ruleValueEquals (ruleValue r) value)
           existing
      then existing
      else existing @ [\<lparr>source = src, ruleBehavior = bhv, ruleValue = value\<rparr>])"

definition addRules ::
    "tool_permission_context \<Rightarrow> permission_rule_source \<Rightarrow> permission_rule_value list
     \<Rightarrow> permission_behavior \<Rightarrow> tool_permission_context" where
  "addRules ctx src values bhv =
     cloneContextWith ctx None (Some (fold (addRule src bhv) values (rules ctx)))"

definition replaceRules ::
    "tool_permission_context \<Rightarrow> permission_rule_source \<Rightarrow> permission_rule_value list
     \<Rightarrow> permission_behavior \<Rightarrow> tool_permission_context" where
  "replaceRules ctx src values bhv =
     (let kept = filter (\<lambda>r. \<not> (source r = src \<and> ruleBehavior r = bhv)) (rules ctx);
          newRules = map (\<lambda>value. \<lparr>source = src, ruleBehavior = bhv, ruleValue = value\<rparr>) values
      in cloneContextWith ctx None (Some (kept @ newRules)))"

definition removeRules ::
    "tool_permission_context \<Rightarrow> permission_rule_source \<Rightarrow> permission_rule_value list
     \<Rightarrow> permission_behavior \<Rightarrow> tool_permission_context" where
  "removeRules ctx src values bhv =
     cloneContextWith ctx None (Some (filter
       (\<lambda>r. if source r \<noteq> src \<or> ruleBehavior r \<noteq> bhv then True
            else \<not> list_ex (\<lambda>v. ruleValueEquals (ruleValue r) v) values) (rules ctx)))"

fun applyPermissionUpdate ::
    "tool_permission_context \<Rightarrow> permission_update \<Rightarrow> tool_permission_context" where
  "applyPermissionUpdate ctx (AddRules src dest values bhv) = addRules ctx src values bhv"
| "applyPermissionUpdate ctx (ReplaceRules src dest values bhv) = replaceRules ctx src values bhv"
| "applyPermissionUpdate ctx (RemoveRules src dest values bhv) = removeRules ctx src values bhv"

section \<open>Queries\<close>

definition hasWholeToolRule ::
    "tool_permission_context \<Rightarrow> string \<Rightarrow> permission_behavior \<Rightarrow> permission_rule option" where
  "hasWholeToolRule ctx tool bhv =
     find (\<lambda>r. toolName (ruleValue r) = tool \<and> ruleBehavior r = bhv
             \<and> \<not> truthy_opt (ruleContent (ruleValue r))) (rules ctx)"

definition getContentRulesForTool ::
    "tool_permission_context \<Rightarrow> string \<Rightarrow> permission_behavior \<Rightarrow> permission_rule list" where
  "getContentRulesForTool ctx tool bhv =
     filter (\<lambda>r. toolName (ruleValue r) = tool \<and> ruleBehavior r = bhv
               \<and> ruleContent (ruleValue r) \<noteq> None) (rules ctx)"

definition isBypassMode :: "tool_permission_context \<Rightarrow> bool" where
  "isBypassMode ctx \<longleftrightarrow> mode ctx = ModeBypassPermissions"

definition isInteractiveTool :: "tool_permission_context \<Rightarrow> string \<Rightarrow> bool" where
  "isInteractiveTool ctx tool \<longleftrightarrow> tool \<in> interactiveTools ctx"

section \<open>Equality of rule values\<close>

lemmas [perm_defs] = hasWholeToolRule_def getContentRulesForTool_def isBypassMode_def
  isInteractiveTool_def

lemma ruleValueEquals_refl [simp]: "ruleValueEquals v v"
  by (auto simp: ruleValueEquals_def list_all_iff split: option.split permission_rule_matcher.split)

text \<open>Where no path rule repeats an action, the relation is symmetric.\<close>

definition distinct_actions :: "permission_rule_value \<Rightarrow> bool" where
  "distinct_actions v \<longleftrightarrow>
     (case matcher v of Some (MatchPath p (Some as)) \<Rightarrow> distinct as | _ \<Rightarrow> True)"

lemma distinct_same_length_subset:
  assumes "distinct as" "distinct bs" "length as = length bs"
    and "\<forall>t \<in> set as. t \<in> set bs" and "x \<in> set bs"
  shows "x \<in> set as"
proof -
  from assms(4) have "set as \<subseteq> set bs" by blast
  moreover have "card (set as) = card (set bs)"
    using assms(1-3) by (simp add: distinct_card)
  ultimately have "set as = set bs" by (metis List.finite_set card_subset_eq)
  with assms(5) show ?thesis by simp
qed

lemma ruleValueEquals_sym_distinct:
  assumes "distinct_actions a" "distinct_actions b" "ruleValueEquals a b"
  shows "ruleValueEquals b a"
  using assms
  by (auto simp: ruleValueEquals_def distinct_actions_def list_all_iff
      split: if_splits option.splits permission_rule_matcher.splits
      intro: distinct_same_length_subset)

section \<open>Effect of the updates\<close>

definition addressed :: "permission_rule_source \<Rightarrow> permission_behavior \<Rightarrow> permission_rule \<Rightarrow> bool" where
  "addressed src bhv r \<longleftrightarrow> source r = src \<and> ruleBehavior r = bhv"

fun update_source :: "permission_update \<Rightarrow> permission_rule_source" where
  "update_source (AddRules src dest values bhv) = src"
| "update_source (ReplaceRules src dest values bhv) = src"
| "update_source (RemoveRules src dest values bhv) = src"

fun update_behavior :: "permission_update \<Rightarrow> permission_behavior" where
  "update_behavior (AddRules src dest values bhv) = bhv"
| "update_behavior (ReplaceRules src dest values bhv) = bhv"
| "update_behavior (RemoveRules src dest values bhv) = bhv"

definition present ::
    "permission_rule_source \<Rightarrow> permission_behavior \<Rightarrow> permission_rule list
     \<Rightarrow> permission_rule_value \<Rightarrow> bool" where
  "present src bhv rs v \<longleftrightarrow> list_ex (\<lambda>r. addressed src bhv r \<and> ruleValueEquals (ruleValue r) v) rs"

lemma addRule_present:
  "addRule src bhv v rs =
     (if present src bhv rs v then rs else rs @ [\<lparr>source = src, ruleBehavior = bhv, ruleValue = v\<rparr>])"
  by (simp add: addRule_def present_def addressed_def conj_assoc)

lemma addRule_extends: "\<exists>new. addRule src bhv v rs = rs @ new"
  by (simp add: addRule_present)

lemma addRules_prefix: "\<exists>new. fold (addRule src bhv) vs rs = rs @ new"
proof (induction vs arbitrary: rs)
  case (Cons v vs)
  obtain new where "addRule src bhv v rs = rs @ new" using addRule_extends by blast
  moreover obtain new' where "fold (addRule src bhv) vs (rs @ new) = (rs @ new) @ new'"
    using Cons.IH by blast
  ultimately show ?case by simp
qed simp

lemma present_append [simp]:
  "present src bhv (rs @ rs') v \<longleftrightarrow> present src bhv rs v \<or> present src bhv rs' v"
  by (simp add: present_def)

lemma present_addRules:
  "v \<in> set vs \<Longrightarrow> present src bhv (fold (addRule src bhv) vs rs) v"
proof (induction vs arbitrary: rs)
  case (Cons w vs)
  show ?case
  proof (cases "v \<in> set vs")
    case True
    then show ?thesis by (simp add: Cons.IH)
  next
    case False
    with Cons.prems have "present src bhv (addRule src bhv w rs) v"
      by (auto simp: addRule_present present_def addressed_def)
    moreover obtain new where
      "fold (addRule src bhv) vs (addRule src bhv w rs) = addRule src bhv w rs @ new"
      using addRules_prefix by blast
    ultimately show ?thesis by simp
  qed
qed simp

lemma addRules_all_present:
  "\<forall>v \<in> set vs. present src bhv rs v \<Longrightarrow> fold (addRule src bhv) vs rs = rs"
  by (induction vs) (simp_all add: addRule_present)

lemma filter_addRules:
  "(\<And>v. \<not> P \<lparr>source = src, ruleBehavior = bhv, ruleValue = v\<rparr>) \<Longrightarrow>
   filter P (fold (addRule src bhv) vs rs) = filter P rs"
  by (induction vs arbitrary: rs) (simp_all add: addRule_present)

lemma removeRules_filter:
  "removeRules ctx src vs bhv = ctx\<lparr>rules := filter
     (\<lambda>r. \<not> (addressed src bhv r \<and> list_ex (ruleValueEquals (ruleValue r)) vs)) (rules ctx)\<rparr>"
proof -
  have "(\<lambda>r. if source r \<noteq> src \<or> ruleBehavior r \<noteq> bhv then True
             else \<not> list_ex (\<lambda>v. ruleValueEquals (ruleValue r) v) vs)
      = (\<lambda>r. \<not> (addressed src bhv r \<and> list_ex (ruleValueEquals (ruleValue r)) vs))"
    by (auto simp: addressed_def fun_eq_iff)
  then show ?thesis by (simp add: removeRules_def)
qed

lemma update_unaddressed:
  "filter (\<lambda>r. \<not> addressed (update_source u) (update_behavior u) r) (rules (applyPermissionUpdate ctx u))
     = filter (\<lambda>r. \<not> addressed (update_source u) (update_behavior u) r) (rules ctx)"
proof (cases u)
  case (AddRules src dest vs bhv)
  then show ?thesis
    by (simp add: addRules_def filter_addRules addressed_def)
next
  case (ReplaceRules src dest vs bhv)
  then show ?thesis
    by (simp add: replaceRules_def Let_def addressed_def filter_map o_def)
next
  case (RemoveRules src dest vs bhv)
  then show ?thesis
    by (auto simp: removeRules_filter intro: filter_cong)
qed

lemma update_other_fields: "(applyPermissionUpdate ctx u)\<lparr>rules := rules ctx\<rparr> = ctx"
  by (cases u) (simp_all add: addRules_def replaceRules_def removeRules_def Let_def)

lemma update_fields [simp]:
  "mode (applyPermissionUpdate ctx u) = mode ctx"
  "sandboxEnabled (applyPermissionUpdate ctx u) = sandboxEnabled ctx"
  "autoAllowBashIfSandboxed (applyPermissionUpdate ctx u) = autoAllowBashIfSandboxed ctx"
  "interactiveTools (applyPermissionUpdate ctx u) = interactiveTools ctx"
  by (cases u; simp add: addRules_def replaceRules_def removeRules_def Let_def)+

text \<open>A search for rules of another behaviour does not see the update.\<close>

lemma update_find:
  assumes "\<And>r. P r \<Longrightarrow> ruleBehavior r \<noteq> update_behavior u"
  shows "find P (rules (applyPermissionUpdate ctx u)) = find P (rules ctx)"
proof -
  let ?Q = "\<lambda>r. \<not> addressed (update_source u) (update_behavior u) r"
  have "P r \<Longrightarrow> ?Q r" for r using assms by (auto simp: addressed_def)
  then have "find P (filter ?Q rs) = find P rs" for rs by (intro find_filter_weaker)
  then show ?thesis by (metis update_unaddressed)
qed

lemma whole_tool_rule_update:
  "b \<noteq> update_behavior u \<Longrightarrow>
   hasWholeToolRule (applyPermissionUpdate ctx u) tool b = hasWholeToolRule ctx tool b"
  unfolding hasWholeToolRule_def by (rule update_find) auto

lemma ruleValueEquals_whole:
  "ruleValueEquals a b \<Longrightarrow> toolName a = toolName b \<and>
     (truthy_opt (ruleContent a) \<longleftrightarrow> truthy_opt (ruleContent b))"
  by (cases "ruleContent a"; cases "ruleContent b")
     (auto simp: ruleValueEquals_def split: if_splits)

lemma whole_tool_rule_added:
  assumes "v \<in> set vs" "\<not> truthy_opt (ruleContent v)"
  shows "hasWholeToolRule (applyPermissionUpdate ctx (AddRules src dest vs b)) (toolName v) b \<noteq> None"
proof -
  have "present src b (rules (addRules ctx src vs b)) v"
    using assms(1) by (simp add: addRules_def present_addRules)
  then show ?thesis
    using assms(2) unfolding hasWholeToolRule_def find_neq_None present_def
    by (auto simp: list_ex_iff addressed_def dest: ruleValueEquals_whole)
qed

text \<open>
  An update of one source and one behaviour leaves every other rule in place and in order,
  and leaves every other field of the context unchanged.
\<close>

theorem update_frame:
  "filter (\<lambda>r. \<not> addressed (update_source u) (update_behavior u) r) (rules (applyPermissionUpdate ctx u))
     = filter (\<lambda>r. \<not> addressed (update_source u) (update_behavior u) r) (rules ctx)
   \<and> (applyPermissionUpdate ctx u)\<lparr>rules := rules ctx\<rparr> = ctx"
  by (simp add: update_unaddressed update_other_fields)

text \<open>
  After \<open>addRules\<close> every value of the request has an equal rule in the context, adding the
  same values again changes nothing, and \<open>removeRules\<close> leaves no rule equal to a removed value.
\<close>

theorem add_remove_rules:
  "list_all (present src bhv (rules (addRules ctx src vs bhv))) vs
   \<and> addRules (addRules ctx src vs bhv) src vs bhv = addRules ctx src vs bhv
   \<and> \<not> list_ex (present src bhv (rules (removeRules ctx src vs bhv))) vs"
proof (intro conjI)
  show "\<not> list_ex (present src bhv (rules (removeRules ctx src vs bhv))) vs"
    by (auto simp: removeRules_filter present_def list_ex_iff)
qed (simp_all add: addRules_def present_addRules addRules_all_present list_all_iff)

text \<open>
  Equality of rule values is not symmetric when a path rule repeats an action, so a wider rule
  can be taken for a duplicate: with \<open>[read, read]\<close> stored, \<open>[read, write]\<close> is not added.
\<close>

definition path_rule :: "permission_rule_action list \<Rightarrow> permission_rule_value" where
  "path_rule actions =
     \<lparr>toolName = ''write'', ruleContent = None, matcher = Some (MatchPath ''/p'' (Some actions))\<rparr>"

lemma duplicate_actions_asymmetric:
  "ruleValueEquals (path_rule [ActRead, ActRead]) (path_rule [ActRead, ActWrite])
   \<and> \<not> ruleValueEquals (path_rule [ActRead, ActWrite]) (path_rule [ActRead, ActRead])
   \<and> addRule SourceSession Allow (path_rule [ActRead, ActWrite])
       [\<lparr>source = SourceSession, ruleBehavior = Allow, ruleValue = path_rule [ActRead, ActRead]\<rparr>]
     = [\<lparr>source = SourceSession, ruleBehavior = Allow, ruleValue = path_rule [ActRead, ActRead]\<rparr>]"
  by (simp add: path_rule_def ruleValueEquals_def addRule_def)

end
