(* ===== verification/PermissionCore.thy ===== *)
theory PermissionCore
  imports PermissionContext
begin

text \<open>
  The policy reducer of \<open>packages/agent-modules/permission/src/permission-core.ts\<close> and the
  MCP server-name test of \<open>mcp-runtime-name.ts\<close>.  \<open>reducePermissionDecision\<close> owns the
  precedence between rules, mode, interactive tools and the local checker;
  \<open>reducePermissionEvaluation\<close> does the same for a list of evidence.
\<close>

section \<open>MCP runtime names\<close>

definition MCP_SEGMENT_SEPARATOR :: string where
  "MCP_SEGMENT_SEPARATOR = ''__''"

definition matchesMcpServerRuntimeName :: "string \<Rightarrow> string \<Rightarrow> bool" where
  "matchesMcpServerRuntimeName toolRuntimeName serverRuntimeName =
     (let toolParts = js_split MCP_SEGMENT_SEPARATOR toolRuntimeName;
          serverParts = js_split MCP_SEGMENT_SEPARATOR serverRuntimeName
      in length toolParts = 3 \<and> length serverParts = 2
         \<and> toolParts ! 0 = ''mcp'' \<and> serverParts ! 0 = ''mcp''
         \<and> truthy (toolParts ! 1) \<and> truthy (toolParts ! 2)
         \<and> toolParts ! 1 = serverParts ! 1)"

section \<open>Types of the core\<close>

datatype policy_owner = OwnerEngine | OwnerCore

datatype checker_trace_behavior = TraceChecker checker_behavior | TraceNone | TraceError

record checker_decision_trace =
  traceCheckerRegistered :: bool
  traceCheckerBehavior :: checker_trace_behavior
  traceReason :: "decision_reason option"
  traceRewriteApplied :: bool
  traceRuleCount :: nat
  traceSkipAutoClassifier :: bool

record permission_core_decision_input =
  coreToolName :: string
  coreInput :: jsobj
  coreContext :: tool_permission_context
  checkerRegistered :: bool
  checkerResult :: "tool_check_result option"
  checkerError :: "string option"

datatype path_resolution =
  ResAbsolute | ResRelative | ResHome | ResEnvironment | ResGlob | ResUnknown

record path_value =
  pvRaw :: string
  pvResolved :: "string option"
  pvDynamic :: bool
  pvResolution :: "path_resolution option"

datatype command_intent =
    IntentFilesystem permission_rule_action "path_value list" "bool option" "bool option" shell_family
  | IntentExecute "string option" "string list" shell_family bool
  | IntentNetwork "string list" "string option" shell_family bool
  | IntentScript "string option" "path_value option" shell_family bool
  | IntentOpaque shell_family string string

datatype permission_evidence =
    HostDeny string
  | UserRule permission_behavior "string option"
  | PathCapability permission_rule_action string bool
  | BuiltInAllow string
  | ClassifierEligible string
  | ClassifierIneligible string
  | ClassifierResult permission_behavior string
  | LegacyReason jsval
  | LegacyDeny string

datatype execution_transform = RecoverableDelete "string list"

record execution_plan =
  originalInput :: jsobj
  effectiveInput :: jsobj
  intents :: "command_intent list"
  transforms :: "execution_transform list"

datatype interaction = InteractAsk | InteractNeverAsk | InteractHeadlessFailClosed

record permission_mode_profile =
  interactionOf :: interaction
  classifierAllowed :: bool
  enforcementStrict :: bool
  bypassAllowed :: bool

record evaluation_context =
  evWorkingDirectory :: string
  evHomeDir :: string
  evDataDir :: string
  evSessionId :: "string option"
  evAgentName :: "string option"

record permission_evaluation_input =
  evToolName :: string
  evInput :: jsobj
  evidence :: "permission_evidence list"
  executionPlan :: "execution_plan option"
  evMode :: permission_mode_profile
  evContext :: evaluation_context

record permission_approval_request =
  requestId :: string
  arSessionId :: string
  arAgentName :: "string option"
  arToolName :: string
  arToolInput :: "string option"
  arReason :: string
  arRuleContents :: "string list"
  allowAlwaysSupported :: bool

datatype permission_evaluation =
    EvalAllow string "execution_plan option"
  | EvalAsk permission_approval_request "execution_plan option"
  | EvalDeny string

section \<open>Helpers of the reducer\<close>

definition findMcpServerRule ::
    "string \<Rightarrow> tool_permission_context \<Rightarrow> permission_behavior \<Rightarrow> permission_rule option" where
  "findMcpServerRule tool ctx bhv =
     (if \<not> starts_with ''mcp__'' tool then None
      else find (\<lambda>rule. ruleBehavior rule = bhv \<and> \<not> truthy_opt (ruleContent (ruleValue rule))
             \<and> matchesMcpServerRuntimeName tool (toolName (ruleValue rule))) (rules ctx))"

definition extractToolInputContent :: "string \<Rightarrow> jsobj \<Rightarrow> string option" where
  "extractToolInputContent tool input =
     (if tool = ''bash'' then string_prop input ''command''
      else if tool \<in> set [''edit'', ''write'', ''read'', ''glob''] then
        (case string_prop input ''filePath'' of
           Some p \<Rightarrow> Some p
         | None \<Rightarrow> (case string_prop input ''path'' of
             Some p \<Rightarrow> Some p
           | None \<Rightarrow> string_prop input ''pattern''))
      else (case string_prop input ''command'' of
          Some c \<Rightarrow> Some c
        | None \<Rightarrow> string_prop input ''url''))"

definition matchesContentAskRule ::
    "string \<Rightarrow> jsobj \<Rightarrow> tool_permission_context \<Rightarrow> permission_rule option" where
  "matchesContentAskRule tool input ctx =
     (case extractToolInputContent tool input of
        None \<Rightarrow> None
      | Some inputContent \<Rightarrow>
          if \<not> truthy inputContent then None
          else find (\<lambda>rule. case ruleContent (ruleValue rule) of
                       None \<Rightarrow> False
                     | Some content \<Rightarrow> truthy content \<and> str_includes content inputContent)
                 (getContentRulesForTool ctx tool Ask))"

text \<open>\<open>checkerResult?.ruleContents?.length\<close> as a condition.\<close>

definition has_rule_contents :: "tool_check_result option \<Rightarrow> bool" where
  "has_rule_contents cr =
     (case Option.bind cr tcRuleContents of None \<Rightarrow> False | Some contents \<Rightarrow> contents \<noteq> [])"

definition resolveRuleContents ::
    "string \<Rightarrow> jsobj \<Rightarrow> tool_check_result option \<Rightarrow> string list option" where
  "resolveRuleContents tool input cr =
     (if has_rule_contents cr then Option.bind cr tcRuleContents
      else (case extractToolInputContent tool input of
          None \<Rightarrow> None
        | Some content \<Rightarrow> if truthy content then Some [content] else None))"

definition resolveCandidateScopes ::
    "tool_check_result option \<Rightarrow> candidate_scope_group list option" where
  "resolveCandidateScopes cr =
     (if \<not> has_rule_contents cr then None
      else (case Option.bind cr tcCandidateScopes of
          None \<Rightarrow> None
        | Some groups \<Rightarrow> if groups = [] then None else Some groups))"

definition resolveRuleMatchers ::
    "tool_check_result option \<Rightarrow> permission_rule_matcher list option" where
  "resolveRuleMatchers cr =
     (if \<not> has_rule_contents cr then None
      else (case (Option.bind cr tcRuleMatchers, Option.bind cr tcRuleContents) of
          (Some ms, Some cs) \<Rightarrow> if length ms = length cs then Some ms else None
        | _ \<Rightarrow> None))"

definition checked_as :: "checker_behavior \<Rightarrow> tool_check_result option \<Rightarrow> bool" where
  "checked_as b cr = (case cr of None \<Rightarrow> False | Some r \<Rightarrow> tcBehavior r = b)"

definition rewritten :: "tool_check_result option \<Rightarrow> jsobj option" where
  "rewritten cr = Option.bind cr tcRewrittenInput"

section \<open>The reducer\<close>

definition reducePermissionDecision :: "permission_core_decision_input \<Rightarrow> permission_decision" where
  "reducePermissionDecision inp =
    (let tool = coreToolName inp; ctx = coreContext inp; cr = checkerResult inp;
         contents = resolveRuleContents tool (coreInput inp) cr;
         matchers = resolveRuleMatchers cr;
         scopes = resolveCandidateScopes cr;
         denyRule = or_else (hasWholeToolRule ctx tool Deny) (findMcpServerRule tool ctx Deny)
     in case denyRule of Some r \<Rightarrow> plain_decision Deny (ReasonRule r) | None \<Rightarrow>
     if checked_as CheckDeny cr then plain_decision Deny (tcReason (the cr)) else
     let askRule = hasWholeToolRule ctx tool Ask;
         sandboxBypassesAsk = (tool = ''bash'' \<and> sandboxEnabled ctx \<and> autoAllowBashIfSandboxed ctx)
     in if askRule \<noteq> None \<and> \<not> sandboxBypassesAsk then
       decision Ask (ReasonRule (the askRule)) contents matchers scopes (rewritten cr) None None
     else case findMcpServerRule tool ctx Ask of Some r \<Rightarrow>
       decision Ask (ReasonRule r) (resolveRuleContents tool (coreInput inp) None)
         None None None None None
     | None \<Rightarrow>
     if truthy_opt (checkerError inp) then
       decision Ask (ReasonSafetyCheck (''Tool checker error: '' @ the (checkerError inp)) None None)
         (resolveRuleContents tool (coreInput inp) None) None None None None None
     else if isInteractiveTool ctx tool then
       decision Ask
         (ReasonSafetyCheck (''Tool '' @ [DQ] @ tool @ [DQ] @ '' requires user interaction'') None None)
         contents matchers scopes None None None
     else if checked_as CheckAsk cr \<and> tcBypassImmune (the cr) = Some True then
       decision Ask (tcReason (the cr)) contents matchers scopes None (Some True)
         (tcSkipAutoClassifier (the cr))
     else case matchesContentAskRule tool (coreInput inp) ctx of Some r \<Rightarrow>
       decision Ask (ReasonRule r) contents matchers scopes (rewritten cr) None None
     | None \<Rightarrow>
     if checked_as CheckAsk cr \<and> \<not> isBypassMode ctx then
       decision Ask (tcReason (the cr)) contents matchers scopes (rewritten cr) None
         (tcSkipAutoClassifier (the cr))
     else if isBypassMode ctx then
       decision Allow (ReasonMode ModeBypassPermissions) None None None (rewritten cr) None None
     else case or_else (hasWholeToolRule ctx tool Allow) (findMcpServerRule tool ctx Allow) of
       Some r \<Rightarrow> decision Allow (ReasonRule r) None None None (rewritten cr) None None
     | None \<Rightarrow>
     if checked_as CheckAllow cr then
       decision Allow (tcReason (the cr)) None None None (rewritten cr) None None
     else if \<not> checkerRegistered inp then
       plain_decision Allow (ReasonSafetyCheck
         (''No permission checker registered for tool '' @ [DQ] @ tool @ [DQ]
          @ '', allowing by default'') None None)
     else
       decision Ask
         (ReasonSafetyCheck (''No permission rule matched for tool '' @ [DQ] @ tool @ [DQ]) None None)
         contents matchers scopes (rewritten cr) None None)"

definition reducePermissionClassifierDecision ::
    "permission_decision \<Rightarrow> permission_behavior \<Rightarrow> decision_reason \<Rightarrow> permission_decision" where
  "reducePermissionClassifierDecision dec recBehavior recReason =
     (if behavior dec \<noteq> Ask then dec
      else if recBehavior = Deny then plain_decision Deny recReason
      else if recBehavior = Allow then
        decision Allow recReason None None None (rewrittenInput dec) None None
      else dec\<lparr>reason := recReason\<rparr>)"

section \<open>Evidence evaluation\<close>

fun is_host_deny :: "permission_evidence \<Rightarrow> bool" where
  "is_host_deny (HostDeny r) = True"
| "is_host_deny _ = False"

fun is_legacy_deny :: "permission_evidence \<Rightarrow> bool" where
  "is_legacy_deny (LegacyDeny r) = True"
| "is_legacy_deny _ = False"

fun is_user_rule :: "permission_behavior \<Rightarrow> permission_evidence \<Rightarrow> bool" where
  "is_user_rule b (UserRule b' c) = (b' = b)"
| "is_user_rule b _ = False"

fun is_classifier_result :: "permission_behavior \<Rightarrow> permission_evidence \<Rightarrow> bool" where
  "is_classifier_result b (ClassifierResult b' r) = (b' = b)"
| "is_classifier_result b _ = False"

fun is_classifier_ineligible :: "permission_evidence \<Rightarrow> bool" where
  "is_classifier_ineligible (ClassifierIneligible r) = True"
| "is_classifier_ineligible _ = False"

fun is_built_in_allow :: "permission_evidence \<Rightarrow> bool" where
  "is_built_in_allow (BuiltInAllow r) = True"
| "is_built_in_allow _ = False"

definition is_allow :: "permission_evidence \<Rightarrow> bool" where
  "is_allow item \<longleftrightarrow> is_user_rule Allow item \<or> is_built_in_allow item \<or> is_classifier_result Allow item"

definition hasAllow :: "permission_evidence list \<Rightarrow> bool" where
  "hasAllow evs = list_ex is_allow evs"

text \<open>The \<open>reason\<close> field, or the \<open>ruleContent\<close> of a user rule, with the caller's default.\<close>

fun evidence_reason :: "string \<Rightarrow> permission_evidence \<Rightarrow> string" where
  "evidence_reason d (HostDeny r) = r"
| "evidence_reason d (UserRule b c) = or_default c d"
| "evidence_reason d (BuiltInAllow r) = r"
| "evidence_reason d (ClassifierEligible r) = r"
| "evidence_reason d (ClassifierIneligible r) = r"
| "evidence_reason d (ClassifierResult b r) = r"
| "evidence_reason d (LegacyDeny r) = r"
| "evidence_reason d _ = d"

fun user_rule_content :: "permission_evidence \<Rightarrow> string option" where
  "user_rule_content (UserRule b c) = c"
| "user_rule_content _ = None"

definition formatToolInput :: "jsobj \<Rightarrow> string option" where
  "formatToolInput input =
     or_else (string_prop input ''command'')
       (or_else (string_prop input ''filePath'')
         (or_else (string_prop input ''file_path'') (string_prop input ''path'')))"

definition buildApprovalRequest ::
    "permission_evaluation_input \<Rightarrow> string option \<Rightarrow> permission_approval_request" where
  "buildApprovalRequest inp preferredRuleContent =
     (let contents = filter truthy (List.map_filter user_rule_content (evidence inp));
          contents' = (case preferredRuleContent of
              None \<Rightarrow> contents
            | Some c \<Rightarrow> if truthy c \<and> c \<notin> set contents then c # contents else contents);
          sid = evSessionId (evContext inp)
      in \<lparr>requestId = or_default sid ''session'' @ '':'' @ evToolName inp,
          arSessionId = or_default sid ''unknown'',
          arAgentName = (if truthy_opt (evAgentName (evContext inp))
                         then evAgentName (evContext inp) else None),
          arToolName = evToolName inp,
          arToolInput = formatToolInput (evInput inp),
          arReason = ''permission requires approval'',
          arRuleContents = contents',
          allowAlwaysSupported = True\<rparr>)"

definition reducePermissionEvaluation :: "permission_evaluation_input \<Rightarrow> permission_evaluation" where
  "reducePermissionEvaluation inp =
    (let evs = evidence inp in
     case find is_host_deny evs of Some item \<Rightarrow> EvalDeny (evidence_reason [] item) | None \<Rightarrow>
     case find (is_user_rule Deny) evs of
       Some item \<Rightarrow> EvalDeny (evidence_reason ''explicit user deny'' item) | None \<Rightarrow>
     case find is_legacy_deny evs of Some item \<Rightarrow> EvalDeny (evidence_reason [] item) | None \<Rightarrow>
     case find (is_classifier_result Deny) evs of
       Some item \<Rightarrow> EvalDeny (evidence_reason [] item) | None \<Rightarrow>
     let classifierIneligible = find is_classifier_ineligible evs;
         immuneAsk = find (is_user_rule Ask) evs;
         classifierAsk = find (is_classifier_result Ask) evs;
         explicitAsk = or_else immuneAsk classifierAsk;
         classifierAllow = list_ex (is_classifier_result Allow) evs;
         inter = interactionOf (evMode inp)
     in if inter = InteractHeadlessFailClosed
           \<and> (explicitAsk \<noteq> None \<or> classifierIneligible \<noteq> None \<or> (\<not> classifierAllow \<and> \<not> hasAllow evs))
        then EvalDeny
          ''permission requires user confirmation but no approval channel is available''
        else if explicitAsk \<noteq> None \<or> classifierIneligible \<noteq> None
           \<or> (inter \<noteq> InteractNeverAsk \<and> \<not> classifierAllow \<and> \<not> hasAllow evs)
        then EvalAsk (buildApprovalRequest inp (Option.bind explicitAsk user_rule_content))
               (executionPlan inp)
        else (case find is_allow evs of
            Some item \<Rightarrow> EvalAllow (evidence_reason ''explicit user allow'' item) (executionPlan inp)
          | None \<Rightarrow>
              if inter = InteractNeverAsk \<and> enforcementStrict (evMode inp)
              then EvalDeny ''permission interaction is disabled''
              else EvalAsk (buildApprovalRequest inp None) (executionPlan inp)))"

fun permissionModeToProfile :: "permission_mode \<Rightarrow> permission_mode_profile" where
  "permissionModeToProfile ModeBypassPermissions =
     \<lparr>interactionOf = InteractNeverAsk, classifierAllowed = False, enforcementStrict = True,
      bypassAllowed = True\<rparr>"
| "permissionModeToProfile ModeOff =
     \<lparr>interactionOf = InteractNeverAsk, classifierAllowed = False, enforcementStrict = False,
      bypassAllowed = True\<rparr>"
| "permissionModeToProfile ModeAuto =
     \<lparr>interactionOf = InteractAsk, classifierAllowed = True, enforcementStrict = True,
      bypassAllowed = True\<rparr>"
| "permissionModeToProfile m =
     \<lparr>interactionOf = InteractAsk, classifierAllowed = False, enforcementStrict = True,
      bypassAllowed = False\<rparr>"

section \<open>The verdict: an abstract specification of the precedence\<close>

text \<open>
  Three questions in order: is the call denied outright, is there a reason to ask that bypass
  mode does not override, is the call granted.  Both policy owners implement this table.
\<close>

definition hard_deny :: "permission_core_decision_input \<Rightarrow> bool" where
  "hard_deny inp \<longleftrightarrow>
     hasWholeToolRule (coreContext inp) (coreToolName inp) Deny \<noteq> None
   \<or> findMcpServerRule (coreToolName inp) (coreContext inp) Deny \<noteq> None
   \<or> checked_as CheckDeny (checkerResult inp)"

definition must_ask :: "permission_core_decision_input \<Rightarrow> bool" where
  "must_ask inp \<longleftrightarrow>
     (hasWholeToolRule (coreContext inp) (coreToolName inp) Ask \<noteq> None
        \<and> \<not> (coreToolName inp = ''bash'' \<and> sandboxEnabled (coreContext inp)
              \<and> autoAllowBashIfSandboxed (coreContext inp)))
   \<or> findMcpServerRule (coreToolName inp) (coreContext inp) Ask \<noteq> None
   \<or> truthy_opt (checkerError inp)
   \<or> isInteractiveTool (coreContext inp) (coreToolName inp)
   \<or> (checked_as CheckAsk (checkerResult inp)
        \<and> tcBypassImmune (the (checkerResult inp)) = Some True)
   \<or> matchesContentAskRule (coreToolName inp) (coreInput inp) (coreContext inp) \<noteq> None"

definition granted :: "permission_core_decision_input \<Rightarrow> bool" where
  "granted inp \<longleftrightarrow>
     isBypassMode (coreContext inp)
   \<or> (\<not> checked_as CheckAsk (checkerResult inp)
       \<and> (hasWholeToolRule (coreContext inp) (coreToolName inp) Allow \<noteq> None
          \<or> findMcpServerRule (coreToolName inp) (coreContext inp) Allow \<noteq> None
          \<or> checked_as CheckAllow (checkerResult inp) \<or> \<not> checkerRegistered inp))"

definition verdict :: "permission_core_decision_input \<Rightarrow> permission_behavior" where
  "verdict inp =
     (if hard_deny inp then Deny else if must_ask inp then Ask
      else if granted inp then Allow else Ask)"

text \<open>Reading off the behaviour of a nested decision without splitting its data.\<close>

lemma case_option_const: "(case x of None \<Rightarrow> a | Some _ \<Rightarrow> b) = (if x = None then a else b)"
  by (cases x) simp_all

lemmas behavior_distrib = if_distrib [of behavior] option.case_distrib [of behavior]

text \<open>The order of the tests, over the bare conditions.\<close>

lemma precedence_table:
  "(if d1 \<and> d2 then if c then D else if a1 \<and> \<not> s then K else if a2 then
      if e then K else if i then K else if q \<and> im then K else if ca then
        if q \<and> \<not> byp then K else if byp then L else if l1 \<and> l2 then
          if ck then L else if \<not> reg then L else K
        else L
      else K else K else D)
   = (if \<not> d1 \<or> \<not> d2 \<or> c then D
      else if (a1 \<and> \<not> s) \<or> \<not> a2 \<or> e \<or> i \<or> (q \<and> im) \<or> \<not> ca then K
      else if byp \<or> (\<not> q \<and> (\<not> l1 \<or> \<not> l2 \<or> ck \<or> \<not> reg)) then L else K)"
  by (cases d1; cases d2; cases c; cases a1; cases s; cases a2; cases q; simp)

lemma core_implements_verdict: "behavior (reducePermissionDecision inp) = verdict inp"
  unfolding reducePermissionDecision_def Let_def verdict_def hard_deny_def must_ask_def granted_def
  by (simp only: behavior_distrib decision_simps case_option_const or_else_eq_None precedence_table)

section \<open>What the verdict promises\<close>

text \<open>
  The contract of a policy owner: a decision function whose behaviour is the verdict.  The
  consequences a user of the permission system relies on follow from the contract alone, for the
  core reducer here and for the engine reducer in its own theory.
\<close>

definition with_update ::
    "permission_core_decision_input \<Rightarrow> permission_update \<Rightarrow> permission_core_decision_input" where
  "with_update inp u = inp\<lparr>coreContext := applyPermissionUpdate (coreContext inp) u\<rparr>"

lemma with_update_simps [simp]:
  "coreToolName (with_update inp u) = coreToolName inp"
  "checkerResult (with_update inp u) = checkerResult inp"
  "coreContext (with_update inp u) = applyPermissionUpdate (coreContext inp) u"
  by (simp_all add: with_update_def)

lemma mcp_rule_update:
  "b \<noteq> update_behavior u \<Longrightarrow>
   findMcpServerRule tool (applyPermissionUpdate ctx u) b = findMcpServerRule tool ctx b"
  unfolding findMcpServerRule_def by (auto intro!: update_find)

lemma hard_deny_update:
  "update_behavior u \<noteq> Deny \<Longrightarrow> hard_deny (with_update inp u) \<longleftrightarrow> hard_deny inp"
  by (simp add: hard_deny_def whole_tool_rule_update mcp_rule_update)

lemma hard_deny_added:
  "v \<in> set vs \<Longrightarrow> toolName v = coreToolName inp \<Longrightarrow> \<not> truthy_opt (ruleContent v) \<Longrightarrow>
   hard_deny (with_update inp (AddRules src dest vs Deny))"
  using whole_tool_rule_added [of v vs "coreContext inp" src dest Deny]
  by (simp add: hard_deny_def)

locale permission_policy =
  fixes decide :: "permission_core_decision_input \<Rightarrow> permission_decision"
  assumes implements: "behavior (decide inp) = verdict inp"
begin

lemma deny_iff: "behavior (decide inp) = Deny \<longleftrightarrow> hard_deny inp"
  by (simp add: implements verdict_def)

lemma allow_iff: "behavior (decide inp) = Allow \<longleftrightarrow> \<not> hard_deny inp \<and> \<not> must_ask inp \<and> granted inp"
  by (simp add: implements verdict_def)

lemma bypass_iff:
  "isBypassMode (coreContext inp) \<Longrightarrow>
   behavior (decide inp) = Allow \<longleftrightarrow> \<not> hard_deny inp \<and> \<not> must_ask inp"
  by (simp add: allow_iff granted_def)

lemma update_keeps_deny:
  "update_behavior u \<noteq> Deny \<Longrightarrow>
   behavior (decide (with_update inp u)) = Deny \<longleftrightarrow> behavior (decide inp) = Deny"
  by (simp add: deny_iff hard_deny_update)

lemma added_deny:
  "v \<in> set vs \<Longrightarrow> toolName v = coreToolName inp \<Longrightarrow> \<not> truthy_opt (ruleContent v) \<Longrightarrow>
   behavior (decide (with_update inp (AddRules src dest vs Deny))) = Deny"
  by (simp add: deny_iff hard_deny_added)

lemma never_asks_below_deny: "hard_deny inp \<Longrightarrow> behavior (decide inp) \<noteq> Ask"
  by (simp add: implements verdict_def)

end

interpretation core_policy: permission_policy reducePermissionDecision
  by unfold_locales (rule core_implements_verdict)

lemma mcp_parts:
  assumes "\<not> str_includes ''__'' (srv @ ''_'')" "\<not> str_includes ''__'' tool"
  shows "js_split ''__'' (''mcp__'' @ srv @ ''__'' @ tool) = [''mcp'', srv, tool]"
    and "js_split ''__'' (''mcp__'' @ srv) = [''mcp'', srv]"
proof -
  have pre: "js_split ''__'' (''mcp__'' @ s) = ''mcp'' # split_acc ''__'' [] s" for s
    using split_acc_some [of "''__''" "''mcp''" "[]" s] by (simp add: js_split_def)
  show "js_split ''__'' (''mcp__'' @ srv @ ''__'' @ tool) = [''mcp'', srv, tool]"
    using split_acc_some [of "''__''" srv "[]" tool] assms unfolding pre by (simp add: split_acc_none)
  have "\<not> str_includes ''__'' srv"
    using assms(1) unfolding str_includes_iff by (metis append.assoc)
  then show "js_split ''__'' (''mcp__'' @ srv) = [''mcp'', srv]"
    unfolding pre by (simp add: split_acc_none)
qed

lemma split_acc_len1:
  assumes "split_acc ''__'' [] s = [p]"
  shows "s = p \<and> \<not> str_includes ''__'' p"
proof (rule split_acc_cases [of "''__''" s "[]"])
  show "\<And>w rest. split_acc ''__'' [] s = ([] @ w) # split_acc ''__'' [] rest \<Longrightarrow> ?thesis"
    using assms by simp
qed (use assms in auto)

lemma split_acc_step:
  assumes "split_acc ''__'' [] s = p # q # ps"
  obtains rest where "s = p @ ''__'' @ rest" "\<not> str_includes ''__'' (p @ ''_'')"
    "split_acc ''__'' [] rest = q # ps"
proof (rule split_acc_cases [of "''__''" s "[]"])
  fix w rest
  assume "s = w @ ''__'' @ rest" "\<not> str_includes ''__'' (w @ butlast ''__'')"
    "split_acc ''__'' [] s = ([] @ w) # split_acc ''__'' [] rest"
  with assms that show ?thesis by auto
qed (use assms in auto)

section \<open>Properties\<close>

text \<open>
  C1: the core reducer decides by the verdict: deny when a whole-tool rule, an MCP server rule or
  the checker denies; otherwise ask for a non-overridable reason; otherwise allow in bypass mode or
  on an allow; otherwise ask.
\<close>

theorem core_decides_verdict: "behavior (reducePermissionDecision inp) = verdict inp"
  by (rule core_policy.implements)

text \<open>
  C4: no rule update that is not addressed to deny rules (approving, asking or removing such
  rules, in any scope) turns a denied call into another outcome, or another outcome into a denial.
\<close>

theorem core_update_keeps_deny:
  "update_behavior u \<noteq> Deny \<Longrightarrow>
   behavior (reducePermissionDecision (with_update inp u)) = Deny
     \<longleftrightarrow> behavior (reducePermissionDecision inp) = Deny"
  by (rule core_policy.update_keeps_deny)

text \<open>
  C5: once a whole-tool deny rule for the tool is added, the call is denied, whatever the mode, the
  other rules and the checker say.
\<close>

theorem core_added_deny:
  "v \<in> set vs \<Longrightarrow> toolName v = coreToolName inp \<Longrightarrow> \<not> truthy_opt (ruleContent v) \<Longrightarrow>
   behavior (reducePermissionDecision (with_update inp (AddRules src dest vs Deny))) = Deny"
  by (rule core_policy.added_deny)

text \<open>
  Bypass mode allows exactly the calls that are neither denied nor held back by a
  bypass-immune reason to ask.
\<close>

theorem core_bypass_allows:
  "isBypassMode (coreContext inp) \<Longrightarrow>
   behavior (reducePermissionDecision inp) = Allow \<longleftrightarrow> \<not> hard_deny inp \<and> \<not> must_ask inp"
  by (rule core_policy.bypass_iff)

definition sample_context :: "permission_mode \<Rightarrow> permission_rule list \<Rightarrow> tool_permission_context" where
  "sample_context m rs = createToolPermissionContext ''linux''
     \<lparr>cfgMode = Some m, cfgRules = Some rs, cfgSandboxEnabled = None,
      cfgAutoAllowBashIfSandboxed = None, cfgPlatform = None, cfgShellFamily = Some Posix,
      cfgWorkingDirectory = ''/w'', cfgAllowedWorkingPaths = None, cfgSandboxAllowPaths = None,
      cfgTrustedExactWritePaths = None, cfgDataDir = ''/d'', cfgHomeDir = ''/h'', cfgIsFile = None,
      cfgAgentName = None, cfgSessionId = None, cfgAllowManagedPermissionRulesOnly = None,
      cfgInteractiveTools = None\<rparr>"

definition whole_tool :: "string \<Rightarrow> permission_rule_value" where
  "whole_tool t = \<lparr>toolName = t, ruleContent = None, matcher = None\<rparr>"

definition sample_call ::
    "string \<Rightarrow> string \<Rightarrow> permission_mode \<Rightarrow> permission_rule list \<Rightarrow> permission_core_decision_input" where
  "sample_call t command m rs =
     \<lparr>coreToolName = t, coreInput = [(''command'', JString command)],
      coreContext = sample_context m rs, checkerRegistered = True, checkerResult = None,
      checkerError = None\<rparr>"

lemma core_update_keeps_deny_witness:
  "behavior (reducePermissionDecision (with_update
      (sample_call ''bash'' ''rm x'' ModeDefault
        [\<lparr>source = SourceGlobal, ruleBehavior = Deny, ruleValue = whole_tool ''bash''\<rparr>])
      (AddRules SourceSession ''session'' [whole_tool ''bash''] Allow))) = Deny"
proof -
  let ?inp = "sample_call ''bash'' ''rm x'' ModeDefault
        [\<lparr>source = SourceGlobal, ruleBehavior = Deny, ruleValue = whole_tool ''bash''\<rparr>]"
  have "behavior (reducePermissionDecision ?inp) = Deny"
    by (simp add: core_policy.deny_iff hard_deny_def hasWholeToolRule_def sample_call_def
        sample_context_def createToolPermissionContext_def whole_tool_def)
  then show ?thesis
    using core_update_keeps_deny
      [of "AddRules SourceSession ''session'' [whole_tool ''bash''] Allow" ?inp] by simp
qed

lemma core_added_deny_witness:
  "behavior (reducePermissionDecision (with_update
      (sample_call ''bash'' ''ls'' ModeBypassPermissions [])
      (AddRules SourceSession ''session'' [whole_tool ''bash''] Deny))) = Deny"
  by (rule core_added_deny [of "whole_tool ''bash''"])
     (simp_all add: whole_tool_def sample_call_def)

lemma core_bypass_allows_witness:
  "behavior (reducePermissionDecision (sample_call ''bash'' ''ls'' ModeBypassPermissions [])) = Allow"
proof -
  let ?inp = "sample_call ''bash'' ''ls'' ModeBypassPermissions []"
  have "isBypassMode (coreContext ?inp)" "\<not> hard_deny ?inp" "\<not> must_ask ?inp"
    by (simp_all add: sample_call_def sample_context_def createToolPermissionContext_def perm_defs
        hard_deny_def must_ask_def findMcpServerRule_def checked_as_def matchesContentAskRule_def
        extractToolInputContent_def string_prop_def prop_of_def)
  then show ?thesis using core_bypass_allows [of ?inp] by simp
qed

text \<open>
  An MCP server rule covers exactly the runtime tools \<open>mcp__server__tool\<close> of that server:
  both segments are non-empty, and a name whose segments could be split in another way matches
  no rule.
\<close>

theorem mcp_server_match:
  "matchesMcpServerRuntimeName t s \<longleftrightarrow>
     (\<exists>srv tool. t = ''mcp__'' @ srv @ ''__'' @ tool \<and> s = ''mcp__'' @ srv
        \<and> srv \<noteq> [] \<and> tool \<noteq> []
        \<and> \<not> str_includes ''__'' (srv @ ''_'') \<and> \<not> str_includes ''__'' tool)"
    (is "_ \<longleftrightarrow> ?r")
proof
  assume "matchesMcpServerRuntimeName t s"
  then have lens: "length (js_split ''__'' t) = 3" "length (js_split ''__'' s) = 2"
    and eqs: "js_split ''__'' t ! 0 = ''mcp''" "js_split ''__'' s ! 0 = ''mcp''"
      "js_split ''__'' t ! 1 \<noteq> []" "js_split ''__'' t ! 2 \<noteq> []"
      "js_split ''__'' t ! 1 = js_split ''__'' s ! 1"
    by (auto simp: matchesMcpServerRuntimeName_def Let_def MCP_SEGMENT_SEPARATOR_def truthy_def)
  then obtain srv tool where
    st: "js_split ''__'' t = [''mcp'', srv, tool]" "js_split ''__'' s = [''mcp'', srv]"
    "srv \<noteq> []" "tool \<noteq> []"
    by (auto simp: length_Suc_conv numeral_3_eq_3 numeral_2_eq_2)
  from st(1) obtain r1 where r1: "t = ''mcp'' @ ''__'' @ r1" "split_acc ''__'' [] r1 = [srv, tool]"
    unfolding js_split_def by (rule split_acc_step)
  from r1(2) obtain r2 where r2: "r1 = srv @ ''__'' @ r2" "\<not> str_includes ''__'' (srv @ ''_'')"
    "split_acc ''__'' [] r2 = [tool]"
    by (rule split_acc_step)
  from st(2) obtain r3 where r3: "s = ''mcp'' @ ''__'' @ r3" "split_acc ''__'' [] r3 = [srv]"
    unfolding js_split_def by (rule split_acc_step)
  show ?r
    using st r1 r2 r3 split_acc_len1 [OF r2(3)] split_acc_len1 [OF r3(2)] by auto
next
  assume ?r
  then show "matchesMcpServerRuntimeName t s"
    by (auto simp: matchesMcpServerRuntimeName_def Let_def MCP_SEGMENT_SEPARATOR_def truthy_def
        mcp_parts [unfolded append.simps] mcp_parts [simplified append.simps append_Cons])
qed

text \<open>The outcome of an evaluation, from which kinds of evidence are present.\<close>

datatype outcome = OutAllow | OutAsk | OutDeny

fun outcome_of :: "permission_evaluation \<Rightarrow> outcome" where
  "outcome_of (EvalAllow r p) = OutAllow"
| "outcome_of (EvalAsk q p) = OutAsk"
| "outcome_of (EvalDeny r) = OutDeny"

definition denies :: "permission_evidence \<Rightarrow> bool" where
  "denies item \<longleftrightarrow> is_host_deny item \<or> is_user_rule Deny item \<or> is_legacy_deny item
     \<or> is_classifier_result Deny item"

definition asks :: "permission_evidence \<Rightarrow> bool" where
  "asks item \<longleftrightarrow> is_user_rule Ask item \<or> is_classifier_result Ask item
     \<or> is_classifier_ineligible item"

definition outcome_spec :: "permission_evidence set \<Rightarrow> interaction \<Rightarrow> outcome" where
  "outcome_spec evs interaction =
     (let refuse = (if interaction = InteractHeadlessFailClosed then OutDeny else OutAsk)
      in if \<exists>item \<in> evs. denies item then OutDeny
         else if \<exists>item \<in> evs. asks item then refuse
         else if \<exists>item \<in> evs. is_allow item then OutAllow
         else if interaction = InteractNeverAsk then OutDeny
         else refuse)"

lemma find_None_ex: "find P xs = None \<longleftrightarrow> \<not> list_ex P xs"
  by (induction xs) auto

lemma outcome_of_deny_case:
  "outcome_of (case x of None \<Rightarrow> r | Some item \<Rightarrow> EvalDeny (f item))
     = (if x = None then outcome_of r else OutDeny)"
  by (cases x) simp_all

lemma outcome_of_allow_case:
  "outcome_of (case x of None \<Rightarrow> r | Some item \<Rightarrow> EvalAllow (f item) p)
     = (if x = None then outcome_of r else OutAllow)"
  by (cases x) simp_all

lemma list_ex_or: "list_ex (\<lambda>x. P x \<or> Q x) xs \<longleftrightarrow> list_ex P xs \<or> list_ex Q xs"
  by (induction xs) auto

lemma list_ex_kinds:
  "list_ex denies evs \<longleftrightarrow> list_ex is_host_deny evs \<or> list_ex (is_user_rule Deny) evs
     \<or> list_ex is_legacy_deny evs \<or> list_ex (is_classifier_result Deny) evs"
  "list_ex asks evs \<longleftrightarrow> list_ex (is_user_rule Ask) evs \<or> list_ex (is_classifier_result Ask) evs
     \<or> list_ex is_classifier_ineligible evs"
  by (simp_all add: denies_def [abs_def] asks_def [abs_def] list_ex_or)

lemma classifier_allow_is_allow: "list_ex (is_classifier_result Allow) evs \<Longrightarrow> list_ex is_allow evs"
  by (induction evs) (auto simp: is_allow_def)

text \<open>
  C7: under strict enforcement the outcome of an evaluation is a function of the kinds of evidence
  present, not of their order: any denial denies; else any reason to ask asks, or denies when no
  approval channel exists; else any allowance allows; else a profile that never asks, or has no
  channel, denies, and the others ask.  Results of a classifier are among the evidence only when the
  profile allows one.
\<close>

theorem evaluation_outcome:
  assumes strict: "enforcementStrict (evMode inp)"
    and classifier: "classifierAllowed (evMode inp) \<or> \<not> list_ex (\<lambda>item. \<exists>b. is_classifier_result b item) (evidence inp)"
  shows "outcome_of (reducePermissionEvaluation inp) = outcome_spec (set (evidence inp)) (interactionOf (evMode inp))"
proof -
  let ?evs = "evidence inp"
  show ?thesis
    unfolding reducePermissionEvaluation_def outcome_spec_def Let_def outcome_of_deny_case
      list_ex_iff [symmetric] list_ex_kinds hasAllow_def
    using strict classifier_allow_is_allow [of ?evs]
    by (simp add: outcome_of_allow_case find_None_ex if_distrib [of outcome_of])
qed

definition sample_evaluation :: "permission_mode \<Rightarrow> permission_evidence list \<Rightarrow> permission_evaluation_input" where
  "sample_evaluation m evs = \<lparr>evToolName = ''bash'', evInput = [], evidence = evs, executionPlan = None,
     evMode = permissionModeToProfile m, evContext = \<lparr>evWorkingDirectory = ''/w'', evHomeDir = ''/h'',
       evDataDir = ''/d'', evSessionId = None, evAgentName = None\<rparr>\<rparr>"

lemma evaluation_outcome_witness:
  "outcome_of (reducePermissionEvaluation (sample_evaluation ModeAuto
      [ClassifierResult Allow ''harmless'', UserRule Ask None])) = OutAsk"
  using evaluation_outcome [of "sample_evaluation ModeAuto [ClassifierResult Allow ''harmless'', UserRule Ask None]"]
  by (simp add: sample_evaluation_def outcome_spec_def Let_def denies_def asks_def)

text \<open>
  Mode off is described as not blocking execution, yet a denial denies in it, and a call without any
  evidence asks.  A forbidden classifier is not excluded either: its result still allows.
\<close>

lemma off_blocks:
  "outcome_of (reducePermissionEvaluation (sample_evaluation ModeOff [])) = OutAsk"
  "outcome_of (reducePermissionEvaluation (sample_evaluation ModeOff [UserRule Deny None])) = OutDeny"
  by (simp_all add: sample_evaluation_def reducePermissionEvaluation_def Let_def hasAllow_def)

lemma forbidden_classifier_allows:
  "outcome_of (reducePermissionEvaluation (sample_evaluation ModeDefault [ClassifierResult Allow ''harmless''])) = OutAllow"
  by (simp add: sample_evaluation_def reducePermissionEvaluation_def Let_def hasAllow_def is_allow_def or_else_def)

text \<open>
  A classifier recommendation refines only a pending ask: a decision that is already allow or deny
  passes through unchanged.
\<close>

lemma classifier_refines_ask:
  "behavior (reducePermissionClassifierDecision d b r) = (if behavior d = Ask then b else behavior d)"
  "behavior d \<noteq> Ask \<Longrightarrow> reducePermissionClassifierDecision d b r = d"
  "behavior d = Ask \<Longrightarrow> reason (reducePermissionClassifierDecision d b r) = r"
  by (cases b; simp add: reducePermissionClassifierDecision_def)+

end
