(* ===== verification/PermissionEngine.thy ===== *)
theory PermissionEngine
  imports PermissionCore
begin

text \<open>
  The checker registry and the legacy reducer of
  \<open>packages/agent-modules/permission/src/engine.ts\<close>.  The registry is a \<open>Map\<close> from tool names
  to checkers.  A checker returns a result, nothing, or throws an \<open>Error\<close> (\<open>Inl\<close> its message); the
  generic fallback \<open>decideUnknownToolPathCapabilities\<close> has the same type and is an argument.
  The engine reducer is written out step by step as the method has it.  The decision comes with
  the list of traces handed to \<open>onCheckerDecision\<close>.
\<close>

section \<open>Registry\<close>

type_synonym tool_permission_checker =
  "string \<Rightarrow> jsobj \<Rightarrow> tool_permission_context \<Rightarrow> string + tool_check_result option"

type_synonym checker_registry = "(string \<times> tool_permission_checker) list"

definition registerToolPermissionChecker ::
    "string \<Rightarrow> tool_permission_checker \<Rightarrow> checker_registry \<Rightarrow> checker_registry" where
  "registerToolPermissionChecker tool checker checkers = AList.update tool checker checkers"

definition unregisterToolPermissionChecker :: "string \<Rightarrow> checker_registry \<Rightarrow> checker_registry" where
  "unregisterToolPermissionChecker tool checkers = AList.delete tool checkers"

section \<open>Helpers of the engine\<close>

definition matchesMcpServerRule :: "string \<Rightarrow> permission_rule \<Rightarrow> bool" where
  "matchesMcpServerRule tool rule =
     (\<not> truthy_opt (ruleContent (ruleValue rule))
      \<and> matchesMcpServerRuntimeName tool (toolName (ruleValue rule)))"

definition extractToolInputContent_engine :: "string \<Rightarrow> jsobj \<Rightarrow> string option" where
  "extractToolInputContent_engine tool input =
     (if tool = ''bash'' then string_prop input ''command''
      else if tool = ''edit'' \<or> tool = ''write'' \<or> tool = ''read'' \<or> tool = ''glob'' then
        or_else (string_prop input ''filePath'')
          (or_else (string_prop input ''path'') (string_prop input ''pattern''))
      else or_else (string_prop input ''command'') (string_prop input ''url''))"

text \<open>The loop over the content rules, with its early return.\<close>

fun contentAskLoop :: "string \<Rightarrow> jsobj \<Rightarrow> permission_rule list \<Rightarrow> permission_rule option" where
  "contentAskLoop tool input [] = None"
| "contentAskLoop tool input (rule # rest) =
     (case ruleContent (ruleValue rule) of
        None \<Rightarrow> contentAskLoop tool input rest
      | Some content \<Rightarrow>
          if \<not> truthy content then contentAskLoop tool input rest
          else (case extractToolInputContent_engine tool input of
              None \<Rightarrow> contentAskLoop tool input rest
            | Some inputContent \<Rightarrow>
                if truthy inputContent \<and> str_includes content inputContent then Some rule
                else contentAskLoop tool input rest))"

definition matchesContentAskRule_engine ::
    "string \<Rightarrow> jsobj \<Rightarrow> tool_permission_context \<Rightarrow> permission_rule option" where
  "matchesContentAskRule_engine tool input ctx =
     contentAskLoop tool input (getContentRulesForTool ctx tool Ask)"

definition findMcpServerRule_engine ::
    "string \<Rightarrow> tool_permission_context \<Rightarrow> permission_behavior \<Rightarrow> permission_rule option" where
  "findMcpServerRule_engine tool ctx bhv =
     (if \<not> starts_with ''mcp__'' tool then None
      else find (\<lambda>r. ruleBehavior r = bhv \<and> \<not> truthy_opt (ruleContent (ruleValue r))
                   \<and> matchesMcpServerRule tool r) (rules ctx))"

definition resolveRuleContents_engine ::
    "string \<Rightarrow> jsobj \<Rightarrow> tool_check_result option \<Rightarrow> string list option" where
  "resolveRuleContents_engine tool input cr =
     (if has_rule_contents cr then Option.bind cr tcRuleContents
      else (case extractToolInputContent_engine tool input of
          None \<Rightarrow> None
        | Some content \<Rightarrow> if truthy content then Some [content] else None))"

definition resolveCandidateScopes_engine ::
    "tool_check_result option \<Rightarrow> candidate_scope_group list option" where
  "resolveCandidateScopes_engine cr =
     (if \<not> has_rule_contents cr then None
      else if Option.bind cr tcCandidateScopes = None
              \<or> Option.bind cr tcCandidateScopes = Some [] then None
      else Option.bind cr tcCandidateScopes)"

definition resolveRuleMatchers_engine ::
    "tool_check_result option \<Rightarrow> permission_rule_matcher list option" where
  "resolveRuleMatchers_engine cr =
     (if \<not> has_rule_contents cr then None
      else if map_option length (Option.bind cr tcRuleMatchers)
              = map_option length (Option.bind cr tcRuleContents)
      then Option.bind cr tcRuleMatchers else None)"

definition notifyCheckerDecision ::
    "bool \<Rightarrow> tool_check_result option \<Rightarrow> bool \<Rightarrow> checker_decision_trace" where
  "notifyCheckerDecision registered result checkerFailed =
     \<lparr>traceCheckerRegistered = registered,
      traceCheckerBehavior =
        (if checkerFailed then TraceError
         else (case result of None \<Rightarrow> TraceNone | Some r \<Rightarrow> TraceChecker (tcBehavior r))),
      traceReason = map_option tcReason result,
      traceRewriteApplied = (Option.bind result tcRewrittenInput \<noteq> None),
      traceRuleCount =
        (case Option.bind result tcRuleContents of None \<Rightarrow> 0 | Some contents \<Rightarrow> length contents),
      traceSkipAutoClassifier = (Option.bind result tcSkipAutoClassifier = Some True)\<rparr>"

text \<open>
  Running the registered checker, or the fallback, inside the \<open>try\<close>: the result and the error
  message, at most one of which is set.
\<close>

fun checker_outcome ::
    "string + tool_check_result option \<Rightarrow> tool_check_result option \<times> string option" where
  "checker_outcome (Inl message) = (None, Some message)"
| "checker_outcome (Inr result) = (result, None)"

definition runChecker ::
    "tool_permission_checker \<Rightarrow> checker_registry \<Rightarrow> string \<Rightarrow> jsobj \<Rightarrow> tool_permission_context
     \<Rightarrow> bool \<times> tool_check_result option \<times> string option" where
  "runChecker fallback checkers tool input ctx =
     (case map_of checkers tool of
        Some checker \<Rightarrow> (True, checker_outcome (checker tool input ctx))
      | None \<Rightarrow> (False, checker_outcome (fallback tool input ctx)))"

section \<open>The engine reducer\<close>

definition is_safety_check :: "decision_reason \<Rightarrow> bool" where
  "is_safety_check r = (case r of ReasonSafetyCheck d a c \<Rightarrow> True | _ \<Rightarrow> False)"

text \<open>Steps 2 and 3: the allow checks and the fallback.\<close>

definition engineAllowSteps ::
    "string \<Rightarrow> jsobj \<Rightarrow> tool_permission_context \<Rightarrow> bool \<Rightarrow> tool_check_result option
     \<Rightarrow> permission_decision" where
  "engineAllowSteps tool input ctx registered cr =
    (if isBypassMode ctx then
       decision Allow (ReasonMode ModeBypassPermissions) None None None (rewritten cr) None None
     else case hasWholeToolRule ctx tool Allow of Some r \<Rightarrow>
       decision Allow (ReasonRule r) None None None (rewritten cr) None None
     | None \<Rightarrow>
     case findMcpServerRule_engine tool ctx Allow of Some r \<Rightarrow>
       decision Allow (ReasonRule r) None None None (rewritten cr) None None
     | None \<Rightarrow>
     if checked_as CheckAllow cr then
       decision Allow (tcReason (the cr)) None None None (rewritten cr) None None
     else if \<not> registered then
       plain_decision Allow (ReasonSafetyCheck
         (''No permission checker registered for tool '' @ [DQ] @ tool @ [DQ]
          @ '', allowing by default'') None None)
     else
       decision Ask
         (ReasonSafetyCheck (''No permission rule matched for tool '' @ [DQ] @ tool @ [DQ]) None
           (Some ''noMatchingPermissionRule''))
         (resolveRuleContents_engine tool input cr) (resolveRuleMatchers_engine cr)
         (resolveCandidateScopes_engine cr) (rewritten cr) None None)"

text \<open>Steps 1d to 1h, once the checker has run.\<close>

definition engineRejectSteps ::
    "string \<Rightarrow> jsobj \<Rightarrow> tool_permission_context \<Rightarrow> bool \<Rightarrow> tool_check_result option
     \<Rightarrow> string option \<Rightarrow> permission_decision" where
  "engineRejectSteps tool input ctx registered cr err =
    (let contents = resolveRuleContents_engine tool input cr;
         matchers = resolveRuleMatchers_engine cr;
         scopes = resolveCandidateScopes_engine cr;
         askRule = hasWholeToolRule ctx tool Ask
     in if checked_as CheckDeny cr then plain_decision Deny (tcReason (the cr))
     else if askRule \<noteq> None
             \<and> \<not> (tool = ''bash'' \<and> sandboxEnabled ctx \<and> autoAllowBashIfSandboxed ctx) then
       decision Ask (ReasonRule (the askRule)) contents matchers scopes (rewritten cr) None None
     else case findMcpServerRule_engine tool ctx Ask of Some r \<Rightarrow>
       decision Ask (ReasonRule r) (resolveRuleContents_engine tool input None) None
         (resolveCandidateScopes_engine None) None None None
     | None \<Rightarrow>
     if truthy_opt err then
       decision Ask (ReasonSafetyCheck (''Tool checker error: '' @ the err) None None)
         (resolveRuleContents_engine tool input None) None None None None None
     else if isInteractiveTool ctx tool then
       decision Ask
         (ReasonSafetyCheck (''Tool '' @ [DQ] @ tool @ [DQ] @ '' requires user interaction'') None None)
         contents matchers scopes None None None
     else if checked_as CheckAsk cr \<and> tcBypassImmune (the cr) = Some True then
       decision Ask (tcReason (the cr)) contents matchers scopes None (Some True)
         (tcSkipAutoClassifier (the cr))
     else case matchesContentAskRule_engine tool input ctx of Some r \<Rightarrow>
       decision Ask (ReasonRule r) contents matchers scopes (rewritten cr) None None
     | None \<Rightarrow>
     if checked_as CheckAsk cr \<and> is_safety_check (tcReason (the cr)) \<and> \<not> isBypassMode ctx then
       decision Ask (tcReason (the cr)) contents matchers scopes (rewritten cr) None
         (tcSkipAutoClassifier (the cr))
     else if checked_as CheckAsk cr \<and> \<not> isBypassMode ctx then
       decision Ask (tcReason (the cr)) contents matchers scopes (rewritten cr) None
         (tcSkipAutoClassifier (the cr))
     else engineAllowSteps tool input ctx registered cr)"

text \<open>The whole method: the deny rules are tested before the checker runs.\<close>

definition checkPermissionWithEngine ::
    "tool_permission_checker \<Rightarrow> checker_registry \<Rightarrow> string \<Rightarrow> jsobj \<Rightarrow> tool_permission_context
     \<Rightarrow> permission_decision \<times> checker_decision_trace list" where
  "checkPermissionWithEngine fallback checkers tool input ctx =
    (case hasWholeToolRule ctx tool Deny of
       Some r \<Rightarrow> (plain_decision Deny (ReasonRule r), [])
     | None \<Rightarrow>
       (case findMcpServerRule_engine tool ctx Deny of
          Some r \<Rightarrow> (plain_decision Deny (ReasonRule r), [])
        | None \<Rightarrow>
          (let (registered, cr, err) = runChecker fallback checkers tool input ctx
           in (engineRejectSteps tool input ctx registered cr err,
               [notifyCheckerDecision registered cr (truthy_opt err)]))))"

definition checkPermissionWithCore ::
    "tool_permission_checker \<Rightarrow> checker_registry \<Rightarrow> string \<Rightarrow> jsobj \<Rightarrow> tool_permission_context
     \<Rightarrow> permission_decision \<times> checker_decision_trace list" where
  "checkPermissionWithCore fallback checkers tool input ctx =
    (let (registered, cr, err) = runChecker fallback checkers tool input ctx
     in (reducePermissionDecision
           \<lparr>coreToolName = tool, coreInput = input, coreContext = ctx,
            checkerRegistered = registered, checkerResult = cr,
            checkerError = (if truthy_opt err then err else None)\<rparr>,
         [notifyCheckerDecision registered cr (truthy_opt err)]))"

datatype policy_owner_option = OwnerUnset | OwnerNamed policy_owner | OwnerUnknown string

fun checkPermission ::
    "policy_owner_option \<Rightarrow> tool_permission_checker \<Rightarrow> checker_registry \<Rightarrow> string \<Rightarrow> jsobj
     \<Rightarrow> tool_permission_context \<Rightarrow> string + permission_decision \<times> checker_decision_trace list" where
  "checkPermission (OwnerUnknown name) fallback checkers tool input ctx =
     Inl (''Unknown permission policy owner: '' @ name)"
| "checkPermission (OwnerNamed OwnerCore) fallback checkers tool input ctx =
     Inr (checkPermissionWithCore fallback checkers tool input ctx)"
| "checkPermission (OwnerNamed OwnerEngine) fallback checkers tool input ctx =
     Inr (checkPermissionWithEngine fallback checkers tool input ctx)"
| "checkPermission OwnerUnset fallback checkers tool input ctx =
     Inr (checkPermissionWithEngine fallback checkers tool input ctx)"

section \<open>The helpers agree with those of the core\<close>

lemma extractToolInputContent_engine_eq [simp]:
  "extractToolInputContent_engine = extractToolInputContent"
  by (auto simp: fun_eq_iff extractToolInputContent_engine_def extractToolInputContent_def or_else_def
      split: option.split)

lemma contentAskLoop_find:
  "contentAskLoop tool input rs =
     (case extractToolInputContent tool input of
        None \<Rightarrow> None
      | Some c \<Rightarrow> if \<not> truthy c then None
          else find (\<lambda>rule. case ruleContent (ruleValue rule) of None \<Rightarrow> False
                     | Some content \<Rightarrow> truthy content \<and> str_includes content c) rs)"
  by (induction rs) (auto split: option.splits)

lemma matchesContentAskRule_engine_eq [simp]: "matchesContentAskRule_engine = matchesContentAskRule"
  by (simp add: fun_eq_iff matchesContentAskRule_engine_def matchesContentAskRule_def contentAskLoop_find)

lemma findMcpServerRule_engine_eq [simp]: "findMcpServerRule_engine = findMcpServerRule"
proof -
  have "(\<lambda>r. ruleBehavior r = b \<and> \<not> truthy_opt (ruleContent (ruleValue r)) \<and> matchesMcpServerRule t r)
      = (\<lambda>r. ruleBehavior r = b \<and> \<not> truthy_opt (ruleContent (ruleValue r))
          \<and> matchesMcpServerRuntimeName t (toolName (ruleValue r)))" for b t
    by (auto simp: fun_eq_iff matchesMcpServerRule_def)
  then show ?thesis by (simp add: fun_eq_iff findMcpServerRule_engine_def findMcpServerRule_def)
qed

lemma resolveRuleContents_engine_eq [simp]: "resolveRuleContents_engine = resolveRuleContents"
  by (simp add: fun_eq_iff resolveRuleContents_engine_def resolveRuleContents_def)

lemma resolveCandidateScopes_engine_eq [simp]: "resolveCandidateScopes_engine = resolveCandidateScopes"
  by (auto simp: fun_eq_iff resolveCandidateScopes_engine_def resolveCandidateScopes_def
      split: option.split)

lemma resolveRuleMatchers_engine_eq [simp]: "resolveRuleMatchers_engine = resolveRuleMatchers"
  by (auto simp: fun_eq_iff resolveRuleMatchers_engine_def resolveRuleMatchers_def has_rule_contents_def
      split: option.split)

lemma resolveCandidateScopes_None [simp]: "resolveCandidateScopes None = None"
  by (simp add: resolveCandidateScopes_def has_rule_contents_def)

section \<open>The engine against the core\<close>

text \<open>The engine's decision on a call whose checker outcome is given.\<close>

definition engineDecision :: "permission_core_decision_input \<Rightarrow> permission_decision" where
  "engineDecision inp =
    (let tool = coreToolName inp; ctx = coreContext inp
     in case hasWholeToolRule ctx tool Deny of Some r \<Rightarrow> plain_decision Deny (ReasonRule r) | None \<Rightarrow>
        case findMcpServerRule_engine tool ctx Deny of
          Some r \<Rightarrow> plain_decision Deny (ReasonRule r) | None \<Rightarrow>
        engineRejectSteps tool (coreInput inp) ctx (checkerRegistered inp) (checkerResult inp)
          (checkerError inp))"

definition falls_through :: "permission_core_decision_input \<Rightarrow> bool" where
  "falls_through inp \<longleftrightarrow> \<not> hard_deny inp \<and> \<not> must_ask inp \<and> \<not> granted inp
     \<and> \<not> checked_as CheckAsk (checkerResult inp)"

definition with_category :: "string \<Rightarrow> permission_decision \<Rightarrow> permission_decision" where
  "with_category c d = (case reason d of
     ReasonSafetyCheck descr a _ \<Rightarrow> d\<lparr>reason := ReasonSafetyCheck descr a (Some c)\<rparr> | _ \<Rightarrow> d)"

lemma with_category_decision:
  "with_category c (decision b (ReasonSafetyCheck descr a k) rc rm cs rw im sk)
     = decision b (ReasonSafetyCheck descr a (Some c)) rc rm cs rw im sk"
  by (simp add: with_category_def decision_def)

lemma engine_matches_core:
  "engineDecision inp =
     (if falls_through inp then with_category ''noMatchingPermissionRule'' (reducePermissionDecision inp)
      else reducePermissionDecision inp)"
proof -
  let ?a = "hasWholeToolRule (coreContext inp) (coreToolName inp) Ask \<noteq> None
    \<and> \<not> (coreToolName inp = ''bash'' \<and> sandboxEnabled (coreContext inp)
           \<and> autoAllowBashIfSandboxed (coreContext inp))"
  let ?t = "coreToolName inp" and ?c = "coreContext inp" and ?cr = "checkerResult inp"
  note tests = findMcpServerRule_engine_eq resolveRuleContents_engine_eq resolveRuleMatchers_engine_eq
    resolveCandidateScopes_engine_eq matchesContentAskRule_engine_eq resolveCandidateScopes_None
  show ?thesis
    unfolding engineDecision_def reducePermissionDecision_def engineRejectSteps_def
      engineAllowSteps_def falls_through_def hard_deny_def must_ask_def granted_def Let_def tests
    by (cases "hasWholeToolRule ?c ?t Deny"; cases "findMcpServerRule ?t ?c Deny";
        cases "checked_as CheckDeny ?cr"; simp only: option.case or_else_simps option.distinct if_True if_False simp_thms;
        cases ?a; simp only: if_True if_False simp_thms;
        cases "findMcpServerRule ?t ?c Ask"; cases "truthy_opt (checkerError inp)";
        cases "isInteractiveTool ?c ?t"; simp only: option.case option.distinct if_True if_False simp_thms;
        (cases "checked_as CheckAsk ?cr"; cases "matchesContentAskRule ?t (coreInput inp) ?c";
         cases "isBypassMode ?c"; cases "hasWholeToolRule ?c ?t Allow";
         cases "findMcpServerRule ?t ?c Allow"; simp add: with_category_decision))
qed

lemma behavior_with_category [simp]: "behavior (with_category c d) = behavior d"
  by (cases "reason d") (simp_all add: with_category_def)

interpretation engine_policy: permission_policy engineDecision
proof unfold_locales
  show "behavior (engineDecision inp) = verdict inp" for inp
    by (simp add: engine_matches_core core_policy.implements)
qed

text \<open>A call together with the outcome of its checker, as the core sees it.\<close>

definition checked_call ::
    "tool_permission_checker \<Rightarrow> checker_registry \<Rightarrow> string \<Rightarrow> jsobj \<Rightarrow> tool_permission_context
     \<Rightarrow> permission_core_decision_input" where
  "checked_call fallback checkers tool input ctx =
    (let (registered, cr, err) = runChecker fallback checkers tool input ctx
     in \<lparr>coreToolName = tool, coreInput = input, coreContext = ctx, checkerRegistered = registered,
         checkerResult = cr, checkerError = (if truthy_opt err then err else None)\<rparr>)"

definition rule_denied :: "string \<Rightarrow> tool_permission_context \<Rightarrow> bool" where
  "rule_denied tool ctx \<longleftrightarrow>
     hasWholeToolRule ctx tool Deny \<noteq> None \<or> findMcpServerRule tool ctx Deny \<noteq> None"

lemma engineRejectSteps_error:
  "engineRejectSteps tool input ctx registered cr (if truthy_opt err then err else None)
     = engineRejectSteps tool input ctx registered cr err"
  by (cases "truthy_opt err") (simp_all add: engineRejectSteps_def Let_def)

lemma engine_call:
  "checkPermissionWithEngine fallback checkers tool input ctx =
     (engineDecision (checked_call fallback checkers tool input ctx),
      if rule_denied tool ctx then []
      else snd (checkPermissionWithCore fallback checkers tool input ctx))"
  by (auto simp: checkPermissionWithEngine_def checkPermissionWithCore_def engineDecision_def
      checked_call_def rule_denied_def engineRejectSteps_error Let_def
      split: prod.split option.split)

lemma core_call:
  "fst (checkPermissionWithCore fallback checkers tool input ctx)
     = reducePermissionDecision (checked_call fallback checkers tool input ctx)"
  by (simp add: checkPermissionWithCore_def checked_call_def split: prod.split)

lemma runChecker_registered:
  "runChecker fallback (registerToolPermissionChecker t checker checkers) t' input ctx
     = (if t' = t then (True, checker_outcome (checker t input ctx))
        else runChecker fallback checkers t' input ctx)"
  by (simp add: runChecker_def registerToolPermissionChecker_def omap.lookup_store)

lemma runChecker_unregistered:
  "runChecker fallback (unregisterToolPermissionChecker t checkers) t' input ctx
     = (if t' = t then (False, checker_outcome (fallback t input ctx))
        else runChecker fallback checkers t' input ctx)"
  by (simp add: runChecker_def unregisterToolPermissionChecker_def omap.lookup_remove)

section \<open>Properties\<close>

text \<open>
  C2: on every call the rollback engine and the core reach the same decision, every field included,
  except that the engine labels its last fallback with a category; the engine reports the same
  checker trace, or none when a deny rule made it skip the checker.
\<close>

theorem engine_equals_core:
  "checkPermissionWithEngine fallback checkers tool input ctx =
     ((if falls_through (checked_call fallback checkers tool input ctx)
       then with_category ''noMatchingPermissionRule''
              (fst (checkPermissionWithCore fallback checkers tool input ctx))
       else fst (checkPermissionWithCore fallback checkers tool input ctx)),
      (if rule_denied tool ctx then []
       else snd (checkPermissionWithCore fallback checkers tool input ctx)))"
  by (simp add: engine_call core_call engine_matches_core)

lemma thrown_not_allowed:
  assumes "snd (snd (runChecker fallback checkers tool input ctx)) \<noteq> Some []"
    and "snd (snd (runChecker fallback checkers tool input ctx)) \<noteq> None"
  shows "verdict (checked_call fallback checkers tool input ctx) \<noteq> Allow"
proof -
  obtain r cr err where run: "runChecker fallback checkers tool input ctx = (r, cr, err)" by (rule prod_cases3)
  then have "truthy_opt err" using assms by (cases err) (simp_all add: truthy_opt_def truthy_def)
  then show ?thesis by (simp add: checked_call_def run verdict_def must_ask_def)
qed

text \<open>
  C3: unless the checker throws an error with an empty message, whichever policy owner is configured
  a check either fails because the owner is unknown, or returns a decision whose behaviour is the
  verdict of the call; and a call whose checker throws is never allowed, in no mode.
\<close>

theorem check_permission_verdict:
  assumes "snd (snd (runChecker fallback checkers tool input ctx)) \<noteq> Some []"
  shows "case checkPermission owner fallback checkers tool input ctx of
     Inl message \<Rightarrow> (\<exists>name. owner = OwnerUnknown name)
   | Inr result \<Rightarrow>
       behavior (fst result) = verdict (checked_call fallback checkers tool input ctx)
       \<and> (snd (snd (runChecker fallback checkers tool input ctx)) \<noteq> None \<longrightarrow> behavior (fst result) \<noteq> Allow)"
proof -
  have "verdict (checked_call fallback checkers tool input ctx) \<noteq> Allow"
    if "snd (snd (runChecker fallback checkers tool input ctx)) \<noteq> None"
    using assms that by (rule thrown_not_allowed)
  then show ?thesis
    by (cases "(owner, fallback, checkers, tool, input, ctx)" rule: checkPermission.cases)
       (simp_all add: engine_call core_call core_policy.implements engine_policy.implements)
qed

lemma check_permission_verdict_witness:
  "\<exists>result. checkPermission OwnerUnset (\<lambda>t i c. Inr None) [(''bash'', \<lambda>t i c. Inl ''boom'')] ''bash'' []
       (sample_context ModeBypassPermissions []) = Inr result \<and> behavior (fst result) \<noteq> Allow"
proof -
  let ?checkers = "[(''bash'', \<lambda>t i c. Inl ''boom'')] :: checker_registry"
  have "snd (snd (runChecker (\<lambda>t i c. Inr None) ?checkers ''bash'' [] (sample_context ModeBypassPermissions [])))
      = Some ''boom''" by (simp add: runChecker_def)
  with check_permission_verdict [of "\<lambda>t i c. Inr None" ?checkers "''bash''" "[]"
      "sample_context ModeBypassPermissions []" OwnerUnset] show ?thesis by auto
qed

text \<open>
  A checker that throws an error with an empty message is taken for one that returned nothing: in
  bypass mode the call is allowed.
\<close>

lemma empty_error_is_ignored:
  "behavior (fst (checkPermissionWithEngine (\<lambda>t i c. Inr None)
      [(''bash'', \<lambda>t i c. Inl [])] ''bash'' [] (sample_context ModeBypassPermissions []))) = Allow"
  by (simp add: engine_call engine_policy.implements verdict_def checked_call_def runChecker_def
      sample_context_def createToolPermissionContext_def perm_defs hard_deny_def must_ask_def
      granted_def findMcpServerRule_def checked_as_def matchesContentAskRule_def
      extractToolInputContent_def string_prop_def prop_of_def)

end
