(* ===== verification/ShellTokens.thy ===== *)
theory ShellTokens
  imports Prelude
begin

text \<open>
  The shell tokenizer of
  \<open>packages/agent-modules/permission/src/tools/shell-tokenize.ts\<close> and the quoting function
  \<open>shellQuote\<close> of \<open>bash-permission.ts\<close>, which it undoes.
\<close>

section \<open>Tokens\<close>

record shell_token =
  tokenValue :: string
  tokenStart :: nat
  tokenEnd :: nat
  tokenQuoted :: bool

definition isShellWhitespace :: "char \<Rightarrow> bool" where
  "isShellWhitespace ch \<longleftrightarrow> code ch = 32 \<or> (9 \<le> code ch \<and> code ch \<le> 13)"

text \<open>The local variables of the loop.\<close>

record tok_state =
  tokTokens :: "shell_token list"
  tokCurrent :: string
  tokCurrentStart :: "nat option"
  tokCurrentQuoted :: bool
  tokSingle :: bool
  tokDouble :: bool
  tokEscaped :: bool

definition tokInit :: tok_state where
  "tokInit = \<lparr>tokTokens = [], tokCurrent = [], tokCurrentStart = None, tokCurrentQuoted = False,
     tokSingle = False, tokDouble = False, tokEscaped = False\<rparr>"

definition startCurrent :: "nat \<Rightarrow> tok_state \<Rightarrow> tok_state" where
  "startCurrent index st = st\<lparr>tokCurrentStart := or_else (tokCurrentStart st) (Some index)\<rparr>"

definition flushCurrent :: "nat \<Rightarrow> tok_state \<Rightarrow> tok_state" where
  "flushCurrent stop st =
     (let tokens = (if tokCurrent st \<noteq> [] then tokTokens st @
            [\<lparr>tokenValue = tokCurrent st, tokenStart = or_default (tokCurrentStart st) stop,
              tokenEnd = stop, tokenQuoted = tokCurrentQuoted st\<rparr>]
          else tokTokens st)
      in st\<lparr>tokTokens := tokens, tokCurrent := [], tokCurrentStart := None,
            tokCurrentQuoted := False\<rparr>)"

definition tokBody :: "tok_state scan_body" where
  "tokBody i ch rest st =
    (if tokEscaped st then
       (0, let st' = startCurrent (i - 1) st
           in st'\<lparr>tokCurrent := tokCurrent st' @ [ch], tokCurrentQuoted := True, tokEscaped := False\<rparr>)
     else if ch = BS \<and> \<not> tokSingle st then
       (if char_at rest 0 = Some LF then (1, st)
        else if char_at rest 0 = Some CR \<and> char_at rest 1 = Some LF then (2, st)
        else (0, (startCurrent i st)\<lparr>tokCurrentQuoted := True, tokEscaped := True\<rparr>))
     else if ch = SQ \<and> \<not> tokDouble st then
       (0, (startCurrent i st)\<lparr>tokCurrentQuoted := True, tokSingle := \<not> tokSingle st\<rparr>)
     else if ch = DQ \<and> \<not> tokSingle st then
       (0, (startCurrent i st)\<lparr>tokCurrentQuoted := True, tokDouble := \<not> tokDouble st\<rparr>)
     else if isShellWhitespace ch \<and> \<not> tokSingle st \<and> \<not> tokDouble st then
       (0, flushCurrent i st)
     else (0, let st' = startCurrent i st in st'\<lparr>tokCurrent := tokCurrent st' @ [ch]\<rparr>))"

definition shellTokenizeWithMetadata :: "string \<Rightarrow> shell_token list" where
  "shellTokenizeWithMetadata input =
     tokTokens (flushCurrent (length input) (scan tokBody 0 input tokInit))"

definition shellTokenize :: "string \<Rightarrow> string list" where
  "shellTokenize input = map tokenValue (shellTokenizeWithMetadata input)"

section \<open>Quoting\<close>

definition quote_safe :: "char \<Rightarrow> bool" where
  "quote_safe c \<longleftrightarrow> is_alnum c \<or> c \<in> set ''_./:@=,-''"

definition shellQuote :: "string \<Rightarrow> string" where
  "shellQuote s =
     (if s \<noteq> [] \<and> list_all quote_safe s then s
      else [SQ] @ concat (map (\<lambda>c. if c = SQ then [SQ, BS, SQ, SQ] else [c]) s) @ [SQ])"

section \<open>Spans\<close>

definition token_in :: "nat \<Rightarrow> shell_token \<Rightarrow> bool" where
  "token_in n t \<longleftrightarrow> tokenValue t \<noteq> [] \<and> tokenStart t + length (tokenValue t) \<le> tokenEnd t \<and> tokenEnd t \<le> n"

definition spans_ok :: "nat \<Rightarrow> shell_token list \<Rightarrow> bool" where
  "spans_ok n ts \<longleftrightarrow> list_all (token_in n) ts
     \<and> sorted_wrt (\<lambda>t u. tokenEnd t < tokenStart u) ts"

definition tok_ok :: "nat \<Rightarrow> shell_token list \<Rightarrow> string \<Rightarrow> nat option \<Rightarrow> bool \<Rightarrow> bool" where
  "tok_ok i ts cur b esc \<longleftrightarrow> spans_ok i ts
     \<and> (case b of
          None \<Rightarrow> cur = [] \<and> \<not> esc \<and> list_all (\<lambda>t. tokenEnd t < i) ts
        | Some b' \<Rightarrow> b' + length cur \<le> i \<and> list_all (\<lambda>t. tokenEnd t < b') ts)"

lemma spans_ok_mono: "spans_ok i ts \<Longrightarrow> i \<le> j \<Longrightarrow> spans_ok j ts"
  by (auto simp: spans_ok_def list_all_iff token_in_def)

lemma tok_ok_push:
  "tok_ok i ts cur b esc \<Longrightarrow> tok_ok (Suc i) ts (cur @ [c]) (or_else b (Some i)) esc'"
  by (cases b) (auto simp: tok_ok_def intro: spans_ok_mono)

lemma tok_ok_escape:
  "tok_ok i ts cur b True \<Longrightarrow> tok_ok (Suc i) ts (cur @ [c]) (or_else b (Some j)) esc'"
  by (cases b) (auto simp: tok_ok_def intro: spans_ok_mono)

lemma tok_ok_open:
  "tok_ok i ts cur b esc \<Longrightarrow> tok_ok (Suc i) ts cur (or_else b (Some i)) esc'"
  by (cases b) (auto simp: tok_ok_def intro: spans_ok_mono)

lemma tok_ok_skip: "tok_ok i ts cur b esc \<Longrightarrow> i \<le> j \<Longrightarrow> tok_ok j ts cur b esc"
  by (cases b) (auto simp: tok_ok_def list_all_iff intro: spans_ok_mono)

definition flushed :: "nat \<Rightarrow> shell_token list \<Rightarrow> string \<Rightarrow> nat option \<Rightarrow> bool \<Rightarrow> shell_token list" where
  "flushed stop ts cur b q = (if cur \<noteq> [] then ts @
     [\<lparr>tokenValue = cur, tokenStart = or_default b stop, tokenEnd = stop, tokenQuoted = q\<rparr>] else ts)"

lemma spans_flushed: "tok_ok i ts cur b esc \<Longrightarrow> spans_ok i (flushed i ts cur b q)"
  by (cases b) (auto simp: tok_ok_def flushed_def spans_ok_def token_in_def sorted_wrt_append list_all_iff)

lemma flushed_ends: "tok_ok i ts cur b esc \<Longrightarrow> t \<in> set (flushed i ts cur b q) \<Longrightarrow> tokenEnd t \<le> i"
  using spans_flushed [of i ts cur b esc q] by (auto simp: spans_ok_def list_all_iff token_in_def)

lemma tok_ok_flush: "tok_ok i ts cur b esc \<Longrightarrow> tok_ok (Suc i) (flushed i ts cur b q) [] None False"
  using spans_flushed [of i ts cur b esc q] flushed_ends [of i ts cur b esc _ q]
  by (auto simp: tok_ok_def list_all_iff less_Suc_eq_le intro: spans_ok_mono)

definition tok_inv :: "nat \<Rightarrow> nat \<Rightarrow> string \<Rightarrow> tok_state \<Rightarrow> bool" where
  "tok_inv n i s st \<longleftrightarrow> i + length s = n
     \<and> tok_ok i (tokTokens st) (tokCurrent st) (tokCurrentStart st) (tokEscaped st)"

lemma flushCurrent_flushed:
  "flushCurrent stop st = st\<lparr>tokTokens := flushed stop (tokTokens st) (tokCurrent st)
       (tokCurrentStart st) (tokCurrentQuoted st),
     tokCurrent := [], tokCurrentStart := None, tokCurrentQuoted := False\<rparr>"
  by (simp add: flushCurrent_def flushed_def Let_def)

lemma startCurrent_simps [simp]:
  "tokTokens (startCurrent i st) = tokTokens st"
  "tokCurrent (startCurrent i st) = tokCurrent st"
  "tokCurrentStart (startCurrent i st) = or_else (tokCurrentStart st) (Some i)"
  "tokCurrentQuoted (startCurrent i st) = tokCurrentQuoted st"
  "tokSingle (startCurrent i st) = tokSingle st"
  "tokDouble (startCurrent i st) = tokDouble st"
  "tokEscaped (startCurrent i st) = tokEscaped st"
  by (simp_all add: startCurrent_def)

lemma tok_inv_body:
  assumes "tok_inv n i (c # rest) st" "tokBody i c rest st = (k, st')"
  shows "tok_inv n (Suc i + k) (drop k rest) st'"
proof -
  have ok: "tok_ok i (tokTokens st) (tokCurrent st) (tokCurrentStart st) (tokEscaped st)"
    and n: "i + Suc (length rest) = n"
    using assms(1) by (simp_all add: tok_inv_def)
  have len: "char_at rest 0 = Some x \<Longrightarrow> 1 \<le> length rest"
    "char_at rest 1 = Some x \<Longrightarrow> 2 \<le> length rest" for x
    by (auto simp: char_at_def Suc_le_eq split: if_splits)
  show ?thesis
    using assms(2) ok n len
    by (auto simp: tokBody_def tok_inv_def Let_def flushCurrent_flushed split: if_splits
        intro: tok_ok_push tok_ok_escape tok_ok_open tok_ok_skip tok_ok_flush)
qed

text \<open>
  Every token of a command spans a non-empty part of it that is at least as long as its value,
  and the spans are in order, apart from each other and inside the command.
\<close>

theorem token_spans: "spans_ok (length input) (shellTokenizeWithMetadata input)"
proof -
  have "tok_inv (length input) 0 input tokInit"
    by (simp add: tok_inv_def tok_ok_def spans_ok_def tokInit_def)
  then have "\<exists>j. tok_inv (length input) j [] (scan tokBody 0 input tokInit)"
    by (rule scan_invariant [rotated]) (rule tok_inv_body)
  then show ?thesis
    by (auto simp: shellTokenizeWithMetadata_def flushCurrent_flushed tok_inv_def spans_flushed)
qed

section \<open>Quoting is undone\<close>

definition tok_plain :: "tok_state \<Rightarrow> bool" where
  "tok_plain st \<longleftrightarrow> \<not> tokSingle st \<and> \<not> tokDouble st \<and> \<not> tokEscaped st"

definition values_of :: "tok_state \<Rightarrow> string list" where
  "values_of st = map tokenValue (tokTokens st)"

text \<open>The states that differ from \<open>st\<close> only in the current word and its marks.\<close>

definition word_read :: "tok_state \<Rightarrow> string \<Rightarrow> bool \<Rightarrow> tok_state \<Rightarrow> bool" where
  "word_read st w sq st' \<longleftrightarrow> tokTokens st' = tokTokens st \<and> tokCurrent st' = tokCurrent st @ w
     \<and> tokSingle st' = sq \<and> \<not> tokDouble st' \<and> \<not> tokEscaped st'"

lemma quote_safe_plain:
  "quote_safe c \<Longrightarrow> c \<noteq> BS \<and> c \<noteq> SQ \<and> c \<noteq> DQ \<and> \<not> isShellWhitespace c"
  by (auto simp: quote_safe_def is_alnum_def is_alpha_def is_digit_def is_upper_def is_lower_def
      isShellWhitespace_def code_def)

lemma scan_safe:
  "list_all quote_safe w \<Longrightarrow> tok_plain st \<Longrightarrow>
   \<exists>st'. scan tokBody i (w @ rest) st = scan tokBody (i + length w) rest st' \<and> word_read st w False st'"
proof (induction w arbitrary: i st)
  case Nil
  then show ?case by (auto simp: word_read_def tok_plain_def)
next
  case (Cons c w)
  let ?st = "(startCurrent i st)\<lparr>tokCurrent := tokCurrent st @ [c]\<rparr>"
  have "tokBody i c (w @ rest) st = (0, ?st)"
    using Cons.prems quote_safe_plain [of c] by (simp add: tokBody_def tok_plain_def Let_def)
  moreover have "tok_plain ?st" using Cons.prems by (simp add: tok_plain_def)
  ultimately show ?case
    using Cons.IH [of ?st "Suc i"] Cons.prems by (auto simp: word_read_def)
qed

definition in_single :: "tok_state \<Rightarrow> bool" where
  "in_single st \<longleftrightarrow> tokSingle st \<and> \<not> tokDouble st \<and> \<not> tokEscaped st"

lemma scan_quoted:
  "in_single st \<Longrightarrow>
   \<exists>i' st'. scan tokBody i (concat (map (\<lambda>c. if c = SQ then [SQ, BS, SQ, SQ] else [c]) w) @ rest) st
     = scan tokBody i' rest st' \<and> word_read st w True st'"
proof (induction w arbitrary: i st)
  case Nil
  then show ?case by (auto simp: word_read_def in_single_def)
next
  case (Cons c w)
  let ?q = "concat (map (\<lambda>c. if c = SQ then [SQ, BS, SQ, SQ] else [c]) w) @ rest"
  obtain j st1 where step: "scan tokBody i ((if c = SQ then [SQ, BS, SQ, SQ] else [c]) @ ?q) st
      = scan tokBody j ?q st1" and st1: "word_read st [c] True st1"
  proof (cases "c = SQ")
    case True
    then show ?thesis
      using Cons.prems that by (auto simp: tokBody_def in_single_def Let_def word_read_def)
  next
    case False
    then show ?thesis
      using Cons.prems that by (auto simp: tokBody_def in_single_def Let_def word_read_def)
  qed
  moreover have "in_single st1" using st1 by (simp add: word_read_def in_single_def)
  ultimately show ?case
    using Cons.IH [of st1 j] st1 by (auto simp: word_read_def)
qed

lemma scan_shellQuote:
  assumes "tok_plain st"
  shows "\<exists>i' st'. scan tokBody i (shellQuote w @ rest) st = scan tokBody i' rest st'
    \<and> word_read st w False st'"
proof (cases "w \<noteq> [] \<and> list_all quote_safe w")
  case True
  then show ?thesis using scan_safe [of w st i rest] assms by (auto simp: shellQuote_def)
next
  case False
  let ?st = "(startCurrent i st)\<lparr>tokCurrentQuoted := True, tokSingle := True\<rparr>"
  let ?q = "concat (map (\<lambda>c. if c = SQ then [SQ, BS, SQ, SQ] else [c]) w)"
  have "scan tokBody i (shellQuote w @ rest) st = scan tokBody (Suc i) (?q @ SQ # rest) ?st"
    using False assms by (auto simp: shellQuote_def tokBody_def tok_plain_def Let_def)
  moreover obtain i' st' where "scan tokBody (Suc i) (?q @ SQ # rest) ?st = scan tokBody i' (SQ # rest) st'"
      "word_read ?st w True st'"
    using scan_quoted [of ?st "Suc i" w "SQ # rest"] assms by (auto simp: in_single_def tok_plain_def)
  ultimately show ?thesis
    by (intro exI [of _ "Suc i'"]
        exI [of _ "(startCurrent i' st')\<lparr>tokCurrentQuoted := True, tokSingle := False\<rparr>"])
       (auto simp: tokBody_def word_read_def Let_def)
qed

lemma scan_words:
  assumes "tok_plain st" "tokCurrent st = []" "list_all truthy ws" "ws \<noteq> []"
  shows "map tokenValue (tokTokens (flushCurrent n (scan tokBody i (js_join [SP] (map shellQuote ws)) st)))
    = values_of st @ ws"
  using assms
proof (induction ws arbitrary: i st)
  case Nil
  then show ?case by simp
next
  case (Cons w ws)
  show ?case
  proof (cases ws)
    case Nil
    obtain i' st' where "scan tokBody i (shellQuote w @ []) st = scan tokBody i' [] st'"
        "word_read st w False st'"
      using scan_shellQuote [OF Cons.prems(1)] by blast
    then show ?thesis
      using Nil Cons.prems by (auto simp: word_read_def flushCurrent_def Let_def values_of_def truthy_def)
  next
    case (Cons w' ws')
    let ?rest = "js_join [SP] (map shellQuote ws)"
    obtain i' st' where step: "scan tokBody i (shellQuote w @ SP # ?rest) st = scan tokBody i' (SP # ?rest) st'"
        and st': "word_read st w False st'"
      using scan_shellQuote [OF Cons.prems(1)] by blast
    let ?st = "flushCurrent i' st'"
    have "scan tokBody i' (SP # ?rest) st' = scan tokBody (Suc i') ?rest ?st"
      using st' by (simp add: tokBody_def word_read_def isShellWhitespace_def code_def)
    moreover have "tok_plain ?st" "tokCurrent ?st = []" "values_of ?st = values_of st @ [w]"
      using st' Cons.prems by (simp_all add: tok_plain_def word_read_def flushCurrent_def Let_def values_of_def truthy_def)
    ultimately show ?thesis
      using Cons.IH [of ?st "Suc i'"] Cons.prems step Cons by (simp add: js_join_Cons)
  qed
qed

lemma tokenize_quoted: "list_all truthy ws \<Longrightarrow> shellTokenize (js_join [SP] (map shellQuote ws)) = ws"
  using scan_words [of tokInit ws]
  by (cases ws) (auto simp: shellTokenize_def shellTokenizeWithMetadata_def tok_plain_def tokInit_def
      values_of_def flushCurrent_def Let_def)

text \<open>
  C12: splitting a command line built by quoting non-empty arguments and joining them with spaces
  gives the arguments back, whatever characters they contain.
\<close>

theorem tokenize_quoted_arguments:
  "list_all truthy ws \<Longrightarrow> shellTokenize (js_join [SP] (map shellQuote ws)) = ws"
  by (rule tokenize_quoted)

lemma tokenize_quoted_arguments_witness:
  "shellTokenize (js_join [SP] (map shellQuote [''a b'', [SQ], ''-x;'' @ [BS, LF]]))
     = [''a b'', [SQ], ''-x;'' @ [BS, LF]]"
  by (rule tokenize_quoted_arguments) (simp add: truthy_def)

text \<open>An empty argument is lost: the tokenizer keeps no empty word.\<close>

lemma empty_argument_dropped: "shellTokenize (shellQuote []) = []"
  by (simp add: shellTokenize_def shellTokenizeWithMetadata_def shellQuote_def tokBody_def tokInit_def
      startCurrent_def flushCurrent_def Let_def)

end
