(* ===== verification/ShellSplit.thy ===== *)
theory ShellSplit
  imports ShellTokens
begin

text \<open>
  Splitting a command line into the commands the permission checker evaluates one by one:
  \<open>packages/agent-modules/permission/src/tools/bash-split.ts\<close> without its heredoc part, which
  \<open>ShellHeredoc\<close> adds.  Loops over characters are \<open>scan\<close> loops with the source's local variables
  as their state.
\<close>

section \<open>Shell keywords\<close>

definition LEADING_SHELL_KEYWORDS :: "string list" where
  "LEADING_SHELL_KEYWORDS = [''if'', ''then'', ''else'', ''elif'', ''while'', ''until'', ''do'', ''!'', ''{'']"

definition STANDALONE_SHELL_KEYWORDS :: "string list" where
  "STANDALONE_SHELL_KEYWORDS = [''fi'', ''done'', ''esac'', ''}'']"

definition SEGMENT_DROP_KEYWORDS :: "string list" where
  "SEGMENT_DROP_KEYWORDS = [''for'', ''case'', ''select'']"

lemma js_trim_length: "length (js_trim s) \<le> length s"
  unfolding js_trim_def using length_dropWhile_le [of js_ws "rev (dropWhile js_ws s)"]
    length_dropWhile_le [of js_ws s] by simp

text \<open>The first loop: opening and closing brackets at the front.\<close>

function stripBrackets :: "string \<Rightarrow> string" where
  "stripBrackets cur =
     (if cur \<noteq> [] \<and> hd cur \<in> set ''({)}'' then stripBrackets (js_trim (drop 1 cur)) else cur)"
  by pat_completeness auto
termination
proof (relation "measure length")
  fix cur :: string
  assume "cur \<noteq> [] \<and> hd cur \<in> set ''({)}''"
  then show "(js_trim (drop 1 cur), cur) \<in> measure length"
    using js_trim_length [of "drop 1 cur"] by (cases cur) auto
qed simp

text \<open>The word before the first white space, and the trimmed text after it.\<close>

definition first_word :: "string \<Rightarrow> string" where
  "first_word cur = takeWhile (\<lambda>c. \<not> js_ws c) cur"

definition after_word :: "string \<Rightarrow> string" where
  "after_word cur = js_trim (drop 1 (dropWhile (\<lambda>c. \<not> js_ws c) cur))"

lemma after_word_length: "cur \<noteq> [] \<Longrightarrow> length (after_word cur) < length cur"
  using js_trim_length [of "drop 1 (dropWhile (\<lambda>c. \<not> js_ws c) cur)"]
    length_dropWhile_le [of "\<lambda>c. \<not> js_ws c" cur]
  by (cases cur) (auto simp: after_word_def)

text \<open>The second loop: control-flow keywords at the front.\<close>

function stripKeywords :: "string \<Rightarrow> string option" where
  "stripKeywords cur =
     (if cur = [] then Some []
      else let head = first_word cur in
        if head \<in> set STANDALONE_SHELL_KEYWORDS then
          (if after_word cur = [] then None else stripKeywords (after_word cur))
        else if head \<in> set SEGMENT_DROP_KEYWORDS then None
        else if head \<in> set LEADING_SHELL_KEYWORDS then stripKeywords (after_word cur)
        else Some cur)"
  by pat_completeness auto
termination by (relation "measure length") (simp_all add: after_word_length)

definition stripLeadingShellKeyword :: "string \<Rightarrow> string option" where
  "stripLeadingShellKeyword segment =
     (let cur = js_trim segment in
      if cur = [] then None
      else let cur' = stripBrackets cur in
        if cur' = [] then None
        else case stripKeywords cur' of
            None \<Rightarrow> None
          | Some rest \<Rightarrow> if rest = [] then None else Some rest)"

declare stripBrackets.simps [simp del] stripKeywords.simps [simp del]

section \<open>Line continuations\<close>

record folded_range =
  rangeStart :: nat
  rangeEnd :: nat

record fold_state =
  foldText :: string
  foldRanges :: "folded_range list"
  foldSingle :: bool
  foldDouble :: bool

definition foldAppend :: "string \<Rightarrow> nat \<Rightarrow> nat \<Rightarrow> fold_state \<Rightarrow> fold_state" where
  "foldAppend text start stop st =
     st\<lparr>foldText := foldText st @ text,
        foldRanges := foldRanges st @ [\<lparr>rangeStart = start, rangeEnd = stop\<rparr>]\<rparr>"

definition foldBody :: "fold_state scan_body" where
  "foldBody i ch rest st =
    (if ch = SQ \<and> \<not> foldDouble st then
       (0, foldAppend [ch] i (i + 1) (st\<lparr>foldSingle := \<not> foldSingle st\<rparr>))
     else if ch = DQ \<and> \<not> foldSingle st then
       (0, foldAppend [ch] i (i + 1) (st\<lparr>foldDouble := \<not> foldDouble st\<rparr>))
     else if ch = BS \<and> \<not> foldSingle st then
       (if char_at rest 0 = Some LF then (1, foldAppend [SP] i (i + 2) st)
        else if char_at rest 0 = Some CR \<and> char_at rest 1 = Some LF
          then (2, foldAppend [SP] i (i + 3) st)
        else (0, foldAppend [ch] i (i + 1) st))
     else (0, foldAppend [ch] i (i + 1) st))"

definition foldInit :: fold_state where
  "foldInit = \<lparr>foldText = [], foldRanges = [], foldSingle = False, foldDouble = False\<rparr>"

definition foldLineContinuationsWithSourceMap :: "string \<Rightarrow> fold_state" where
  "foldLineContinuationsWithSourceMap input = scan foldBody 0 input foldInit"

definition foldLineContinuations :: "string \<Rightarrow> string" where
  "foldLineContinuations input = foldText (foldLineContinuationsWithSourceMap input)"

section \<open>Segments\<close>

text \<open>\<open>/^[A-Za-z_][A-Za-z0-9_]*=/\<close>\<close>

definition is_assignment :: "string \<Rightarrow> bool" where
  "is_assignment t =
     (case t of [] \<Rightarrow> False
      | c # cs \<Rightarrow> (is_alpha c \<or> c = CHR ''_'')
          \<and> char_at (dropWhile (\<lambda>x. is_alnum x \<or> x = CHR ''_'') cs) 0 = Some (CHR ''=''))"

definition isAssignmentOnlySegment :: "string \<Rightarrow> bool" where
  "isAssignmentOnlySegment seg =
     (let tokens = shellTokenize (js_trim seg)
      in if tokens = [] then False else list_all is_assignment tokens)"

record split_state =
  splitSegments :: "string list"
  splitCurrent :: string
  splitSingle :: bool
  splitDouble :: bool
  splitEscaped :: bool

definition splitInit :: split_state where
  "splitInit = \<lparr>splitSegments = [], splitCurrent = [], splitSingle = False, splitDouble = False,
     splitEscaped = False\<rparr>"

definition flushSegment :: "split_state \<Rightarrow> split_state" where
  "flushSegment st =
     (let trimmed = js_trim (splitCurrent st)
      in st\<lparr>splitSegments := (if trimmed \<noteq> [] then splitSegments st @ [trimmed] else splitSegments st),
            splitCurrent := []\<rparr>)"

definition splitBody :: "split_state scan_body" where
  "splitBody i ch rest st =
    (let keep = st\<lparr>splitCurrent := splitCurrent st @ [ch]\<rparr> in
     if splitEscaped st then (0, keep\<lparr>splitEscaped := False\<rparr>)
     else if ch = BS \<and> \<not> splitSingle st then (0, keep\<lparr>splitEscaped := True\<rparr>)
     else if ch = SQ \<and> \<not> splitDouble st then (0, keep\<lparr>splitSingle := \<not> splitSingle st\<rparr>)
     else if ch = DQ \<and> \<not> splitSingle st then (0, keep\<lparr>splitDouble := \<not> splitDouble st\<rparr>)
     else if \<not> splitSingle st \<and> \<not> splitDouble st then
       (if (ch = CHR ''&'' \<and> char_at rest 0 = Some (CHR ''&''))
            \<or> (ch = CHR ''|'' \<and> char_at rest 0 = Some (CHR ''|'')) then (1, flushSegment st)
        else if ch = CHR '';'' then (0, flushSegment st)
        else if ch = CHR ''|'' \<and> char_at rest 0 \<noteq> Some (CHR ''|'') then (0, flushSegment st)
        else if ch = LF then (0, flushSegment st)
        else if ch = CR \<and> char_at rest 0 = Some LF then (1, flushSegment st)
        else (0, keep))
     else (0, keep))"

definition rawSegments :: "string \<Rightarrow> string list" where
  "rawSegments folded = splitSegments (flushSegment (scan splitBody 0 folded splitInit))"

text \<open>The clean-up of one segment: comments and bare assignments carry no command.\<close>

definition segment_command :: "string \<Rightarrow> string option" where
  "segment_command seg =
     (if char_at (dropWhile js_ws seg) 0 = Some (CHR ''#'') then None
      else if isAssignmentOnlySegment seg then None
      else stripLeadingShellKeyword seg)"

definition splitCommandWithoutHeredoc :: "string \<Rightarrow> string list" where
  "splitCommandWithoutHeredoc input =
     List.map_filter segment_command (rawSegments (foldLineContinuations input))"

section \<open>Cutting a command line at a separator\<close>

text \<open>Separators.\<close>

definition separators :: "string list" where
  "separators = ['';'', ''&&'', ''||'', ''|'', [LF]]"

definition split_neutral :: "split_state \<Rightarrow> bool" where
  "split_neutral st \<longleftrightarrow> \<not> splitSingle st \<and> \<not> splitDouble st \<and> \<not> splitEscaped st"

definition cut_ok :: "string \<Rightarrow> string \<Rightarrow> string \<Rightarrow> bool" where
  "cut_ok a sep b \<longleftrightarrow> sep \<in> set separators
     \<and> (a = [] \<or> last a \<notin> {BS, CR, CHR ''&'', CHR ''|''})
     \<and> (sep = ''|'' \<longrightarrow> char_at b 0 \<noteq> Some (CHR ''|''))"

lemma splitBody_fst: "fst (splitBody i c rest st) \<le> length rest"
  by (cases rest) (auto simp: splitBody_def Let_def)

lemma splitBody_cut:
  assumes "cut_ok a sep b" "a = p @ c # rest"
  shows "splitBody i c (rest @ sep @ b) st = splitBody i c rest st"
proof (cases rest)
  case Nil
  then have "c \<notin> {BS, CR, CHR ''&'', CHR ''|''}" using assms by (simp add: cut_ok_def)
  with Nil show ?thesis by (simp add: splitBody_def Let_def)
next
  case (Cons d ds)
  then show ?thesis by (simp add: splitBody_def Let_def)
qed

lemma scan_split_separator:
  assumes "cut_ok a sep b" "split_neutral st"
  shows "scan splitBody i (sep @ b) st = scan splitBody (i + length sep) b (flushSegment st)"
  using assms by (auto simp: cut_ok_def separators_def splitBody_def split_neutral_def Let_def)

definition split_extends :: "string list \<Rightarrow> split_state \<Rightarrow> split_state \<Rightarrow> bool" where
  "split_extends pre s t \<longleftrightarrow> s = t\<lparr>splitSegments := pre @ splitSegments t\<rparr>"

lemma flush_extends: "split_extends pre s t \<Longrightarrow> split_extends pre (flushSegment s) (flushSegment t)"
  by (simp add: split_extends_def flushSegment_def Let_def)

lemma splitBody_extends:
  assumes "split_extends pre s t"
  shows "fst (splitBody i c rest s) = fst (splitBody j c rest t)
    \<and> split_extends pre (snd (splitBody i c rest s)) (snd (splitBody j c rest t))"
proof -
  have s: "s = t\<lparr>splitSegments := pre @ splitSegments t\<rparr>" using assms by (simp add: split_extends_def)
  have "flushSegment (t\<lparr>splitSegments := pre @ splitSegments t\<rparr>)
      = (flushSegment t)\<lparr>splitSegments := pre @ splitSegments (flushSegment t)\<rparr>"
    by (simp add: flushSegment_def Let_def)
  then show ?thesis
    unfolding s split_extends_def by (simp add: splitBody_def Let_def)
qed

lemma rawSegments_cut:
  assumes "cut_ok a sep b" "split_neutral (scan splitBody 0 a splitInit)"
  shows "rawSegments (a @ sep @ b) = rawSegments a @ rawSegments b"
proof -
  let ?sa = "scan splitBody 0 a splitInit"
  let ?fa = "flushSegment ?sa"
  have "scan splitBody 0 (a @ sep @ b) splitInit = scan splitBody (length a) (sep @ b) ?sa"
    using scan_append [of a splitBody "sep @ b" 0 splitInit] splitBody_cut [OF assms(1)] splitBody_fst
    by auto
  also have "\<dots> = scan splitBody (length a + length sep) b ?fa"
    by (rule scan_split_separator) (use assms in auto)
  finally have eq: "scan splitBody 0 (a @ sep @ b) splitInit
    = scan splitBody (length a + length sep) b ?fa" .
  have "split_extends (rawSegments a) ?fa splitInit"
    using assms(2) by (simp add: split_extends_def rawSegments_def splitInit_def flushSegment_def
        split_neutral_def Let_def)
  then have "split_extends (rawSegments a) (scan splitBody (length a + length sep) b ?fa)
      (scan splitBody 0 b splitInit)"
    by (rule scan_related [rotated]) (rule splitBody_extends)
  then have "split_extends (rawSegments a)
      (flushSegment (scan splitBody (length a + length sep) b ?fa)) (flushSegment (scan splitBody 0 b splitInit))"
    by (rule flush_extends)
  then show ?thesis
    unfolding rawSegments_def [of "a @ sep @ b"] rawSegments_def [of b] eq
    by (simp add: split_extends_def)
qed

definition fold_neutral :: "fold_state \<Rightarrow> bool" where
  "fold_neutral st \<longleftrightarrow> \<not> foldSingle st \<and> \<not> foldDouble st"

lemma foldAppend_simps [simp]:
  "foldText (foldAppend text i j st) = foldText st @ text"
  "foldSingle (foldAppend text i j st) = foldSingle st"
  "foldDouble (foldAppend text i j st) = foldDouble st"
  by (simp_all add: foldAppend_def)

lemma foldBody_fst: "fst (foldBody i c rest st) \<le> length rest"
  using char_at_length [of rest 0] char_at_length [of rest 1]
  by (auto simp: foldBody_def Suc_le_eq numeral_2_eq_2)

lemma foldBody_cut:
  assumes "cut_ok a sep b" "a = p @ c # rest"
  shows "foldBody i c (rest @ sep @ b) st = foldBody i c rest st"
proof (cases rest)
  case Nil
  then have "c \<noteq> BS" using assms by (simp add: cut_ok_def)
  with Nil show ?thesis by (simp add: foldBody_def)
next
  case (Cons d ds)
  then have "ds = [] \<Longrightarrow> d \<noteq> CR" using assms by (simp add: cut_ok_def)
  with Cons show ?thesis by (cases ds) (simp_all add: foldBody_def)
qed

definition fold_extends :: "string \<Rightarrow> fold_state \<Rightarrow> fold_state \<Rightarrow> bool" where
  "fold_extends pre s t \<longleftrightarrow> foldText s = pre @ foldText t \<and> foldSingle s = foldSingle t
     \<and> foldDouble s = foldDouble t"

lemma foldBody_extends:
  "fold_extends pre s t \<Longrightarrow>
   fst (foldBody i c rest s) = fst (foldBody j c rest t)
     \<and> fold_extends pre (snd (foldBody i c rest s)) (snd (foldBody j c rest t))"
  by (simp add: fold_extends_def foldBody_def)

lemma fold_text_extends:
  "foldText (scan foldBody i s st)
     = foldText st @ foldText (scan foldBody 0 s (st\<lparr>foldText := []\<rparr>))"
proof -
  have "fold_extends (foldText st) st (st\<lparr>foldText := []\<rparr>)" by (simp add: fold_extends_def)
  then have "fold_extends (foldText st) (scan foldBody i s st) (scan foldBody 0 s (st\<lparr>foldText := []\<rparr>))"
    by (rule scan_related [rotated]) (rule foldBody_extends)
  then show ?thesis by (simp add: fold_extends_def)
qed

lemma fold_neutral_restart:
  assumes "fold_neutral st"
  shows "foldText (scan foldBody i s st) = foldText st @ foldLineContinuations s"
proof -
  have "fold_extends (foldText st) st foldInit"
    using assms by (simp add: fold_extends_def foldInit_def fold_neutral_def)
  then have "fold_extends (foldText st) (scan foldBody i s st) (scan foldBody 0 s foldInit)"
    by (rule scan_related [rotated]) (rule foldBody_extends)
  then show ?thesis
    by (simp add: fold_extends_def foldLineContinuations_def foldLineContinuationsWithSourceMap_def)
qed

lemma fold_Cons_plain:
  assumes "c \<noteq> SQ" "c \<noteq> DQ" "c \<noteq> BS"
  shows "foldLineContinuations (c # b) = c # foldLineContinuations b"
proof -
  have "foldBody 0 c b foldInit = (0, foldAppend [c] 0 1 foldInit)" using assms by (simp add: foldBody_def)
  then have "foldLineContinuations (c # b) = foldText (scan foldBody 1 b (foldAppend [c] 0 1 foldInit))"
    by (simp add: foldLineContinuations_def foldLineContinuationsWithSourceMap_def)
  then show ?thesis
    using fold_neutral_restart [of "foldAppend [c] 0 1 foldInit" 1 b]
    by (simp add: fold_neutral_def) (simp add: foldInit_def)
qed

lemma scan_fold_separator:
  assumes "sep \<in> set separators" "fold_neutral st"
  shows "foldText (scan foldBody i (sep @ b) st) = foldText st @ sep @ foldLineContinuations b"
  using assms
  by (auto simp: separators_def fold_neutral_restart fold_Cons_plain)

lemma fold_cut:
  assumes "cut_ok a sep b" "fold_neutral (foldLineContinuationsWithSourceMap a)"
  shows "foldLineContinuations (a @ sep @ b) = foldLineContinuations a @ sep @ foldLineContinuations b"
proof -
  let ?sa = "scan foldBody 0 a foldInit"
  have "scan foldBody 0 (a @ sep @ b) foldInit = scan foldBody (length a) (sep @ b) ?sa"
    using scan_append [of a foldBody "sep @ b" 0 foldInit] foldBody_cut [OF assms(1)] foldBody_fst
    by auto
  then show ?thesis
    using scan_fold_separator [of sep ?sa "length a" b] assms
    by (simp add: foldLineContinuations_def foldLineContinuationsWithSourceMap_def cut_ok_def)
qed

definition folded_as :: "char \<Rightarrow> string \<Rightarrow> nat \<Rightarrow> char \<Rightarrow> bool" where
  "folded_as c rest k x \<longleftrightarrow> (x = c \<and> k = 0) \<or> (x = SP \<and> take k rest \<noteq> [] \<and> last (take k rest) = LF)"

lemma foldBody_text:
  assumes "foldBody i c rest st = (k, st')"
  shows "\<exists>x. foldText st' = foldText st @ [x] \<and> folded_as c rest k x"
  using assms
  by (auto simp: foldBody_def folded_as_def split: if_splits dest!: char_at_0 dest: char_at_01)

definition fold_kept :: "string \<Rightarrow> string \<Rightarrow> fold_state \<Rightarrow> bool" where
  "fold_kept a s st \<longleftrightarrow> (\<exists>d. a = d @ s \<and> (d = [] \<or> foldText st \<noteq> [] \<and>
      (last (foldText st) = last d \<or> last (foldText st) = SP)))"

lemma foldBody_kept:
  assumes "fold_kept a (c # rest) st" "foldBody i c rest st = (k, st')"
  shows "fold_kept a (drop k rest) st'"
proof -
  obtain d where d: "a = d @ c # rest" using assms(1) by (auto simp: fold_kept_def)
  obtain x where x: "foldText st' = foldText st @ [x]" "folded_as c rest k x"
    using foldBody_text [OF assms(2)] by blast
  have "a = (d @ c # take k rest) @ drop k rest" using d by simp
  moreover have "x = last (d @ c # take k rest) \<or> x = SP" using x(2) by (auto simp: folded_as_def)
  ultimately show ?thesis
    unfolding fold_kept_def using x(1) by (metis last_snoc snoc_eq_iff_butlast)
qed

lemma fold_last:
  "a = [] \<or> (foldLineContinuations a \<noteq> []
     \<and> (last (foldLineContinuations a) = last a \<or> last (foldLineContinuations a) = SP))"
proof -
  have "fold_kept a a foldInit" by (simp add: fold_kept_def)
  then have "\<exists>j::nat. fold_kept a [] (scan foldBody 0 a foldInit)"
    by (rule scan_invariant [rotated]) (rule foldBody_kept)
  then show ?thesis
    by (auto simp: fold_kept_def foldLineContinuations_def foldLineContinuationsWithSourceMap_def)
qed

lemma fold_first:
  "char_at (foldLineContinuations b) 0 = char_at b 0 \<or> char_at (foldLineContinuations b) 0 = Some SP"
proof (cases b)
  case Nil
  then show ?thesis
    by (simp add: foldLineContinuations_def foldLineContinuationsWithSourceMap_def foldInit_def)
next
  case (Cons c rest)
  obtain k st' where b: "foldBody 0 c rest foldInit = (k, st')" by (cases "foldBody 0 c rest foldInit")
  obtain x where x: "foldText st' = [x]" "folded_as c rest k x"
    using foldBody_text [OF b] by (auto simp: foldInit_def)
  have "foldLineContinuations b = foldText (scan foldBody (Suc k) (drop k rest) st')"
    using Cons b by (simp add: foldLineContinuations_def foldLineContinuationsWithSourceMap_def)
  then have "char_at (foldLineContinuations b) 0 = Some x"
    using fold_text_extends [of "Suc k" "drop k rest" st'] x(1) by simp
  then show ?thesis using x(2) Cons by (auto simp: folded_as_def)
qed

text \<open>A part of a command line that ends outside quotes and escapes.\<close>

definition closed_part :: "string \<Rightarrow> bool" where
  "closed_part a \<longleftrightarrow> fold_neutral (foldLineContinuationsWithSourceMap a)
     \<and> split_neutral (scan splitBody 0 (foldLineContinuations a) splitInit)"

lemma split_cut:
  assumes "cut_ok a sep b" "closed_part a"
  shows "splitCommandWithoutHeredoc (a @ sep @ b)
    = splitCommandWithoutHeredoc a @ splitCommandWithoutHeredoc b"
proof -
  have "cut_ok (foldLineContinuations a) sep (foldLineContinuations b)"
    using assms(1) fold_last [of a] fold_first [of b]
    by (auto simp: cut_ok_def foldLineContinuations_def foldLineContinuationsWithSourceMap_def foldInit_def)
  then show ?thesis
    using assms fold_cut [of a sep b] rawSegments_cut
    by (simp add: splitCommandWithoutHeredoc_def closed_part_def List.map_filter_def)
qed

section \<open>Commands come from the source\<close>

lemma after_word_includes: "str_includes (after_word cur) cur"
  unfolding after_word_def
  by (meson str_includes_trans str_includes_trim str_includes_drop str_includes_dropWhile)

lemma stripBrackets_includes: "str_includes (stripBrackets cur) cur"
proof (induction cur rule: stripBrackets.induct)
  case (1 cur)
  show ?case
  proof (cases "cur \<noteq> [] \<and> hd cur \<in> set ''({)}''")
    case True
    then have "str_includes (stripBrackets cur) (js_trim (drop 1 cur))"
      using 1 by (subst stripBrackets.simps) simp
    then show ?thesis by (meson str_includes_trans str_includes_trim str_includes_drop)
  next
    case False
    then show ?thesis by (subst stripBrackets.simps) auto
  qed
qed

lemma stripBrackets_trimmed: "trimmed cur \<Longrightarrow> trimmed (stripBrackets cur)"
proof (induction cur rule: stripBrackets.induct)
  case (1 cur)
  show ?case
  proof (cases "cur \<noteq> [] \<and> hd cur \<in> set ''({)}''")
    case True
    then show ?thesis using 1 trimmed_trim by (subst stripBrackets.simps) simp
  next
    case False
    then show ?thesis using 1 by (subst stripBrackets.simps) auto
  qed
qed

definition keyword :: "string \<Rightarrow> bool" where
  "keyword w \<longleftrightarrow> w \<in> set STANDALONE_SHELL_KEYWORDS \<or> w \<in> set SEGMENT_DROP_KEYWORDS
     \<or> w \<in> set LEADING_SHELL_KEYWORDS"

lemma stripKeywords_result:
  "stripKeywords cur = Some c \<Longrightarrow> trimmed cur \<Longrightarrow>
   str_includes c cur \<and> trimmed c \<and> (c = [] \<or> \<not> keyword (first_word c))"
proof (induction cur rule: stripKeywords.induct)
  case (1 cur)
  have tr: "trimmed (after_word cur)" by (simp add: after_word_def trimmed_trim)
  have inc: "str_includes c (after_word cur) \<Longrightarrow> str_includes c cur"
    by (rule str_includes_trans [OF _ after_word_includes])
  from 1 show ?case
    using tr inc stripKeywords.simps [of cur]
    by (auto simp: keyword_def Let_def split: if_splits)
qed

lemma stripLeading_result:
  assumes "stripLeadingShellKeyword seg = Some c"
  shows "str_includes c seg \<and> trimmed c \<and> c \<noteq> [] \<and> \<not> keyword (first_word c)"
proof -
  let ?cur = "stripBrackets (js_trim seg)"
  have k: "stripKeywords ?cur = Some c" "c \<noteq> []"
    using assms by (auto simp: stripLeadingShellKeyword_def Let_def split: if_splits option.splits)
  have "str_includes ?cur seg"
    by (rule str_includes_trans [OF stripBrackets_includes str_includes_trim])
  moreover have "trimmed ?cur" by (simp add: stripBrackets_trimmed trimmed_trim)
  ultimately show ?thesis
    using stripKeywords_result [OF k(1)] k(2) str_includes_trans by blast
qed

definition split_kept :: "string \<Rightarrow> string \<Rightarrow> split_state \<Rightarrow> bool" where
  "split_kept full s st \<longleftrightarrow> (\<exists>u. full = u @ splitCurrent st @ s)
     \<and> list_all (\<lambda>seg. str_includes seg full) (splitSegments st)"

lemma flush_kept:
  assumes "split_kept full s st"
  shows "split_kept full s (flushSegment st)"
proof -
  have "str_includes (splitCurrent st) full"
    using assms by (auto simp: split_kept_def str_includes_iff)
  then have "str_includes (js_trim (splitCurrent st)) full"
    by (rule str_includes_trans [OF str_includes_trim])
  then show ?thesis
    using assms by (auto simp: split_kept_def flushSegment_def Let_def)
qed

lemma splitBody_cases:
  assumes "splitBody i c rest st = (k, st')"
  obtains (push) a b e where "k = 0"
      "st' = st\<lparr>splitCurrent := splitCurrent st @ [c], splitSingle := a, splitDouble := b, splitEscaped := e\<rparr>"
    | (flush) "st' = flushSegment st"
proof -
  have "st' = flushSegment st \<or> (k = 0 \<and> st' = st\<lparr>splitCurrent := splitCurrent st @ [c],
      splitSingle := splitSingle st', splitDouble := splitDouble st', splitEscaped := splitEscaped st'\<rparr>)"
    using assms unfolding splitBody_def Let_def by (simp split: if_splits; clarsimp)
  then show ?thesis using push flush by metis
qed

lemma splitBody_kept:
  assumes "split_kept full (c # rest) st" "splitBody i c rest st = (k, st')"
  shows "split_kept full (drop k rest) st'"
  using assms(2)
proof (cases rule: splitBody_cases)
  case (push a b e)
  then show ?thesis using assms(1) by (simp add: split_kept_def)
next
  case flush
  obtain u where "full = u @ splitCurrent st @ c # rest" using assms(1) by (auto simp: split_kept_def)
  then have "full = (u @ splitCurrent st @ c # take k rest) @ drop k rest" by simp
  then have "\<exists>u. full = u @ drop k rest" by blast
  moreover have "splitCurrent (flushSegment st) = []" by (simp add: flushSegment_def Let_def)
  ultimately show ?thesis
    using flush flush_kept [OF assms(1)] by (simp add: split_kept_def)
qed

lemma rawSegments_includes: "list_all (\<lambda>seg. str_includes seg folded) (rawSegments folded)"
proof -
  have "split_kept folded folded splitInit" by (simp add: split_kept_def splitInit_def)
  then have "\<exists>j::nat. split_kept folded [] (scan splitBody 0 folded splitInit)"
    by (rule scan_invariant [rotated]) (rule splitBody_kept)
  then have "split_kept folded [] (flushSegment (scan splitBody 0 folded splitInit))"
    using flush_kept by blast
  then show ?thesis by (simp add: split_kept_def rawSegments_def)
qed

definition command_of :: "string \<Rightarrow> string \<Rightarrow> bool" where
  "command_of source c \<longleftrightarrow> c \<noteq> [] \<and> trimmed c \<and> str_includes c source \<and> \<not> keyword (first_word c)"

lemma split_commands:
  "list_all (command_of (foldLineContinuations input)) (splitCommandWithoutHeredoc input)"
proof -
  have "command_of (foldLineContinuations input) c"
    if "seg \<in> set (rawSegments (foldLineContinuations input))" "segment_command seg = Some c" for seg c
    using that rawSegments_includes [of "foldLineContinuations input"] str_includes_trans
      stripLeading_result [of seg c]
    by (auto simp: segment_command_def command_of_def list_all_iff split: if_splits)
  then show ?thesis
    by (auto simp: list_all_iff splitCommandWithoutHeredoc_def List.map_filter_def)
qed

section \<open>Quoted command lines\<close>

lemma quote_safe_split:
  "quote_safe c \<Longrightarrow> c \<notin> {BS, SQ, DQ, BT, LF, CR, SP, CHR ''&'', CHR ''|'', CHR '';'', CHR ''#'',
     CHR ''('', CHR '')'', CHR ''{'', CHR ''}'', CHR ''<'', CHR ''>'', CHR ''$''} \<and> \<not> js_ws c"
  by (auto simp: quote_safe_def is_alnum_def is_alpha_def is_digit_def is_upper_def is_lower_def
      code_def js_ws_def)

fun cont_free :: "string \<Rightarrow> bool" where
  "cont_free [] = True"
| "cont_free (c # s) = (\<not> (c = BS \<and> (char_at s 0 = Some LF \<or> (char_at s 0 = Some CR \<and> char_at s 1 = Some LF)))
     \<and> cont_free s)"

lemma scan_fold_id: "cont_free s \<Longrightarrow> foldText (scan foldBody i s st) = foldText st @ s"
proof (induction s arbitrary: i st)
  case (Cons c s)
  have "fst (foldBody i c s st) = 0 \<and> foldText (snd (foldBody i c s st)) = foldText st @ [c]"
    using Cons.prems by (auto simp: foldBody_def)
  then show ?case using Cons by (simp add: case_prod_beta)
qed simp

lemma fold_id: "cont_free s \<Longrightarrow> foldLineContinuations s = s"
  using scan_fold_id [of s 0 foldInit]
  by (simp add: foldLineContinuations_def foldLineContinuationsWithSourceMap_def foldInit_def)

lemma cont_free_append:
  "cont_free a \<Longrightarrow> cont_free b \<Longrightarrow> a = [] \<or> last a \<notin> {BS, CR} \<Longrightarrow> cont_free (a @ b)"
proof (induction a)
  case (Cons c a)
  show ?case
  proof (cases a)
    case Nil
    with Cons.prems show ?thesis by simp
  next
    case inner: (Cons d ds)
    then show ?thesis using Cons by (cases ds) auto
  qed
qed simp

definition command_line :: "string list \<Rightarrow> string" where
  "command_line args = js_join [SP] (map shellQuote args)"

abbreviation quote_body :: "string \<Rightarrow> string" where
  "quote_body w \<equiv> concat (map (\<lambda>c. if c = SQ then [SQ, BS, SQ, SQ] else [c]) w)"

lemma cont_free_safe: "list_all quote_safe w \<Longrightarrow> cont_free w"
  by (induction w) (auto dest: quote_safe_plain)

lemma cont_free_body: "cont_free w \<Longrightarrow> cont_free (quote_body w @ [SQ])"
proof (induction w)
  case (Cons c w)
  have first: "char_at (quote_body w @ [SQ]) 0 = Some LF \<Longrightarrow> char_at w 0 = Some LF"
    "char_at (quote_body w @ [SQ]) 0 = Some CR \<Longrightarrow> char_at (quote_body w @ [SQ]) 1 = Some LF
      \<Longrightarrow> char_at w 0 = Some CR \<and> char_at w 1 = Some LF"
    by (cases w; cases "tl w"; auto split: if_splits)+
  show ?case using Cons first by auto
qed simp

lemma shellQuote_ends:
  shows "\<exists>c d. (c = SQ \<or> quote_safe c) \<and> (d = SQ \<or> quote_safe d) \<and> shellQuote w \<noteq> []
    \<and> hd (shellQuote w) = c \<and> last (shellQuote w) = d"
  by (auto simp: shellQuote_def list_all_iff)

lemma cont_free_shellQuote: "cont_free w \<Longrightarrow> cont_free (shellQuote w)"
  using cont_free_body [of w] by (auto simp: shellQuote_def cont_free_safe)

lemma command_line_Cons:
  "args \<noteq> [] \<Longrightarrow> command_line (w # args) = shellQuote w @ SP # command_line args"
  by (simp add: command_line_def js_join_Cons)

lemma command_line_single: "command_line [w] = shellQuote w"
  by (simp add: command_line_def)

lemma command_line_ends:
  "args \<noteq> [] \<Longrightarrow> command_line args \<noteq> []
    \<and> (hd (command_line args) = SQ \<or> quote_safe (hd (command_line args)))
    \<and> (last (command_line args) = SQ \<or> quote_safe (last (command_line args)))"
proof (induction args)
  case (Cons w args)
  then show ?case
    using shellQuote_ends [of w]
    by (cases "args = []") (auto simp: command_line_single command_line_Cons)
qed simp

lemma cont_free_command_line:
  "list_all cont_free args \<Longrightarrow> cont_free (command_line args)"
proof (induction args)
  case Nil
  then show ?case by (simp add: command_line_def)
next
  case (Cons w args)
  then have "cont_free (shellQuote w)" "last (shellQuote w) \<notin> {BS, CR}"
    using shellQuote_ends [of w] by (auto simp: cont_free_shellQuote truthy_def dest: quote_safe_split)
  with Cons show ?case
    by (cases "args = []") (auto simp: command_line_single command_line_Cons intro!: cont_free_append)
qed

definition keeps :: "split_state \<Rightarrow> string \<Rightarrow> split_state" where
  "keeps st text = st\<lparr>splitCurrent := splitCurrent st @ text\<rparr>"

lemma keeps_neutral [simp]: "split_neutral (keeps st text) = split_neutral st"
  by (simp add: keeps_def split_neutral_def)

lemma keeps_keeps [simp]: "keeps (keeps st a) b = keeps st (a @ b)"
  by (simp add: keeps_def)

lemma scan_keeps_safe:
  "list_all quote_safe w \<Longrightarrow> split_neutral st \<Longrightarrow>
   scan splitBody i (w @ rest) st = scan splitBody (i + length w) rest (keeps st w)"
proof (induction w arbitrary: i st)
  case (Cons c w)
  have "splitBody i c (w @ rest) st = (0, keeps st [c])"
    using Cons.prems quote_safe_split [of c] by (simp add: splitBody_def split_neutral_def Let_def keeps_def)
  then show ?case using Cons.IH [of "keeps st [c]" "Suc i"] Cons.prems by simp
qed (simp add: keeps_def)

definition in_quote :: "split_state \<Rightarrow> bool" where
  "in_quote st \<longleftrightarrow> splitSingle st \<and> \<not> splitDouble st \<and> \<not> splitEscaped st"

lemma scan_keeps_body:
  "in_quote st \<Longrightarrow>
   \<exists>j. scan splitBody i (quote_body w @ SQ # rest) st
     = scan splitBody j rest ((keeps st (quote_body w @ [SQ]))\<lparr>splitSingle := False\<rparr>)"
proof (induction w arbitrary: i st)
  case Nil
  then show ?case by (auto simp: splitBody_def in_quote_def Let_def keeps_def)
next
  case (Cons c w)
  let ?x = "if c = SQ then [SQ, BS, SQ, SQ] else [c]"
  have "\<exists>j. scan splitBody i (?x @ quote_body w @ SQ # rest) st
      = scan splitBody j (quote_body w @ SQ # rest) (keeps st ?x)"
    using Cons.prems by (cases st) (auto simp: splitBody_def in_quote_def Let_def keeps_def)
  moreover have "in_quote (keeps st ?x)" using Cons.prems by (simp add: in_quote_def keeps_def)
  ultimately show ?case using Cons.IH by fastforce
qed

lemma scan_keeps_word:
  assumes "split_neutral st"
  shows "\<exists>j. scan splitBody i (shellQuote w @ rest) st = scan splitBody j rest (keeps st (shellQuote w))"
proof (cases "w \<noteq> [] \<and> list_all quote_safe w")
  case True
  then show ?thesis using scan_keeps_safe assms by (auto simp: shellQuote_def)
next
  case False
  let ?st = "(keeps st [SQ])\<lparr>splitSingle := True\<rparr>"
  have "scan splitBody i (shellQuote w @ rest) st = scan splitBody (Suc i) (quote_body w @ SQ # rest) ?st"
    using False assms by (auto simp: shellQuote_def splitBody_def split_neutral_def Let_def keeps_def)
  moreover obtain j where "scan splitBody (Suc i) (quote_body w @ SQ # rest) ?st
      = scan splitBody j rest ((keeps ?st (quote_body w @ [SQ]))\<lparr>splitSingle := False\<rparr>)"
  proof -
    have "in_quote ?st" using assms by (simp add: in_quote_def keeps_def split_neutral_def)
    then show ?thesis using scan_keeps_body that by blast
  qed
  moreover have "(keeps ?st (quote_body w @ [SQ]))\<lparr>splitSingle := False\<rparr> = keeps st (shellQuote w)"
    using False assms by (auto simp: keeps_def shellQuote_def split_neutral_def)
  ultimately show ?thesis by auto
qed

lemma scan_keeps_line:
  assumes "split_neutral st"
  shows "\<exists>j. scan splitBody i (command_line args) st = scan splitBody j [] (keeps st (command_line args))"
  using assms
proof (induction args arbitrary: i st)
  case Nil
  then show ?case by (simp add: command_line_def keeps_def)
next
  case (Cons w args)
  show ?case
  proof (cases "args = []")
    case True
    then show ?thesis using scan_keeps_word [OF Cons.prems, of i w "[]"] by (simp add: command_line_single)
  next
    case False
    obtain j where "scan splitBody i (shellQuote w @ SP # command_line args) st
        = scan splitBody j (SP # command_line args) (keeps st (shellQuote w))"
      using scan_keeps_word [OF Cons.prems] by blast
    also have "\<dots> = scan splitBody (Suc j) (command_line args) (keeps st (shellQuote w @ [SP]))"
      using Cons.prems by (simp add: splitBody_def split_neutral_def keeps_def Let_def)
    finally show ?thesis
      using Cons.IH [of "keeps st (shellQuote w @ [SP])" "Suc j"] Cons.prems False
      by (simp add: command_line_Cons)
  qed
qed

definition plain_command :: "string list \<Rightarrow> bool" where
  "plain_command args \<longleftrightarrow> args \<noteq> [] \<and> list_all truthy args \<and> list_all cont_free args
     \<and> \<not> keyword (hd args) \<and> \<not> list_all is_assignment args"

lemma command_line_trimmed: "args \<noteq> [] \<Longrightarrow> trimmed (command_line args)"
  using command_line_ends [of args] by (auto simp: trimmed_def dest: quote_safe_split)

lemma rawSegments_command_line:
  assumes "args \<noteq> []"
  shows "rawSegments (command_line args) = [command_line args]"
    and "split_neutral (scan splitBody 0 (command_line args) splitInit)"
proof -
  have "split_neutral splitInit" by (simp add: split_neutral_def splitInit_def)
  then obtain j where "scan splitBody 0 (command_line args) splitInit
      = scan splitBody j [] (keeps splitInit (command_line args))"
    using scan_keeps_line by blast
  then show "rawSegments (command_line args) = [command_line args]"
    and "split_neutral (scan splitBody 0 (command_line args) splitInit)"
    using command_line_ends [OF assms] trim_trimmed [OF command_line_trimmed [OF assms]]
    by (simp_all add: rawSegments_def flushSegment_def Let_def keeps_def splitInit_def split_neutral_def)
qed

lemma keyword_not_quote: "keyword w \<Longrightarrow> hd w \<noteq> SQ"
  by (auto simp: keyword_def STANDALONE_SHELL_KEYWORDS_def SEGMENT_DROP_KEYWORDS_def
      LEADING_SHELL_KEYWORDS_def)

lemma first_word_command_line:
  assumes "args \<noteq> []" "\<not> keyword (hd args)"
  shows "\<not> keyword (first_word (command_line args))"
proof -
  obtain w ws where args: "args = w # ws" using assms(1) by (cases args) auto
  have line: "command_line args = shellQuote w \<or> (\<exists>t. command_line args = shellQuote w @ SP # t)"
    using args by (cases "ws = []") (auto simp: command_line_single command_line_Cons)
  show ?thesis
  proof (cases "w \<noteq> [] \<and> list_all quote_safe w")
    case True
    then have sq: "shellQuote w = w" by (simp add: shellQuote_def)
    have "list_all (\<lambda>c. \<not> js_ws c) w" using True by (auto simp: list_all_iff dest: quote_safe_split)
    then have "first_word w = w" "first_word (w @ SP # t) = w" for t
      unfolding first_word_def by (induction w) auto
    then show ?thesis using line sq assms(2) args by fastforce
  next
    case False
    then have "\<exists>u. shellQuote w = SQ # u" by (auto simp: shellQuote_def)
    then have "\<exists>u. first_word (command_line args) = SQ # u" using line by (auto simp: first_word_def)
    then show ?thesis using keyword_not_quote by fastforce
  qed
qed

lemma segment_command_line:
  assumes "plain_command args"
  shows "segment_command (command_line args) = Some (command_line args)"
proof -
  let ?l = "command_line args"
  have ok: "args \<noteq> []" "list_all truthy args" using assms by (auto simp: plain_command_def)
  have ends: "?l \<noteq> []" "hd ?l = SQ \<or> quote_safe (hd ?l)" using command_line_ends [OF ok(1)] by auto
  have trim: "js_trim ?l = ?l" by (rule trim_trimmed [OF command_line_trimmed [OF ok(1)]])
  have first: "char_at ?l 0 = Some (hd ?l)" using ends(1) by (cases ?l) auto
  have hash: "hd ?l \<noteq> CHR ''#''" "hd ?l \<notin> set ''({)}''" "\<not> js_ws (hd ?l)"
    using ends(2) by (auto dest: quote_safe_split)
  have "\<not> isAssignmentOnlySegment ?l"
    using assms tokenize_quoted [OF ok(2)] trim
    by (auto simp: isAssignmentOnlySegment_def plain_command_def command_line_def Let_def)
  moreover have "stripBrackets ?l = ?l" using hash(2) by (subst stripBrackets.simps) simp
  moreover have "stripKeywords ?l = Some ?l"
    using first_word_command_line [OF ok(1)] assms ends(1)
    by (subst stripKeywords.simps) (auto simp: keyword_def plain_command_def Let_def)
  ultimately show ?thesis
    using ends(1) trim hash dropWhile_none [of ?l js_ws] first
    by (simp add: segment_command_def stripLeadingShellKeyword_def Let_def)
qed

lemma joined_first:
  assumes "list_all plain_command cmds" "cmds \<noteq> []"
  shows "char_at (js_join sep (map command_line cmds)) 0 \<noteq> Some (CHR ''|'')"
proof -
  obtain c cs where cs: "cmds = c # cs" using assms(2) by (cases cmds) auto
  then have "command_line c \<noteq> []" "hd (command_line c) \<noteq> CHR ''|''"
    using assms command_line_ends [of c]
    by (auto simp: plain_command_def dest: quote_safe_split)
  then show ?thesis
    using cs by (cases "command_line c"; cases "cs = []") (auto simp: js_join_Cons)
qed

lemma rawSegments_joined:
  assumes "list_all plain_command cmds" "sep \<in> set separators"
  shows "rawSegments (js_join sep (map command_line cmds)) = map command_line cmds"
  using assms(1)
proof (induction cmds)
  case Nil
  show ?case by (simp add: rawSegments_def flushSegment_def splitInit_def js_trim_def)
next
  case (Cons c cs)
  have ok: "c \<noteq> []" "list_all truthy c" using Cons.prems by (auto simp: plain_command_def)
  show ?case
  proof (cases "cs = []")
    case True
    then show ?thesis by (simp add: rawSegments_command_line [OF ok(1)])
  next
    case False
    have "last (command_line c) \<notin> {BS, CR, CHR ''&'', CHR ''|''}"
      using command_line_ends [OF ok(1)]
      by (auto dest: quote_safe_split)
    then have "cut_ok (command_line c) sep (js_join sep (map command_line cs))"
      using assms(2) joined_first [of cs "''|''"] Cons.prems False by (simp add: cut_ok_def)
    then show ?thesis
      using rawSegments_cut rawSegments_command_line [OF ok(1)] Cons False by (simp add: js_join_Cons)
  qed
qed

lemma cont_free_joined:
  assumes "list_all plain_command cmds" "sep \<in> set separators"
  shows "cont_free (js_join sep (map command_line cmds))"
  using assms(1)
proof (induction cmds)
  case (Cons c cs)
  have c: "cont_free (command_line c)" "last (command_line c) \<notin> {BS, CR}"
    using Cons.prems cont_free_command_line [of c] command_line_ends [of c]
    by (auto simp: plain_command_def dest: quote_safe_split)
  have "cont_free (sep @ js_join sep (map command_line cs))"
    using Cons assms(2) by (auto simp: separators_def)
  with c show ?case
    by (cases "cs = []") (auto simp: js_join_Cons intro!: cont_free_append)
qed simp

lemma split_joined:
  assumes "list_all plain_command cmds" "sep \<in> set separators"
  shows "splitCommandWithoutHeredoc (js_join sep (map command_line cmds)) = map command_line cmds"
proof -
  have "List.map_filter segment_command (map command_line cmds) = map command_line cmds"
    using assms(1) by (induction cmds) (simp_all add: segment_command_line)
  then show ?thesis
    using fold_id [OF cont_free_joined [OF assms]] rawSegments_joined [OF assms]
    by (simp add: splitCommandWithoutHeredoc_def)
qed

section \<open>Properties\<close>

text \<open>
  C13: a separator outside quotes and escapes cuts the command line: the commands of the whole are
  those of the part before it followed by those of the part after it.  The part before it is closed,
  and its last character, if any, is none of backslash, carriage return, ampersand and bar; after a
  single bar there is no second one.
\<close>

theorem split_at_separator:
  "cut_ok a sep b \<Longrightarrow> closed_part a \<Longrightarrow>
   splitCommandWithoutHeredoc (a @ sep @ b)
     = splitCommandWithoutHeredoc a @ splitCommandWithoutHeredoc b"
  by (rule split_cut)

lemma split_at_separator_witness:
  "splitCommandWithoutHeredoc ((''echo '' @ [DQ] @ ''a;b'' @ [DQ]) @ ''&&'' @ ''rm x'')
     = splitCommandWithoutHeredoc (''echo '' @ [DQ] @ ''a;b'' @ [DQ])
       @ splitCommandWithoutHeredoc ''rm x''"
  by (rule split_at_separator)
     (simp_all add: cut_ok_def separators_def closed_part_def fold_neutral_def split_neutral_def
        foldLineContinuationsWithSourceMap_def foldLineContinuations_def foldInit_def foldBody_def
        foldAppend_def splitInit_def splitBody_def)

text \<open>
  Every command handed to the evaluator is a non-empty trimmed piece of the (folded) command
  line that does not start with a control-flow keyword: splitting never invents text.
\<close>

theorem split_commands_from_source:
  "list_all (command_of (foldLineContinuations input)) (splitCommandWithoutHeredoc input)"
  by (rule split_commands)

text \<open>
  C15: a command line built from quoted arguments and a separator splits into exactly the commands
  it was built from: no argument, whatever separators, quotes or newlines it contains, adds or hides
  a command.  Arguments are non-empty and free of line continuations, a command does not start with
  a keyword and is not a bare list of assignments.
\<close>

theorem split_quoted_commands:
  "list_all plain_command cmds \<Longrightarrow> sep \<in> set separators \<Longrightarrow>
   splitCommandWithoutHeredoc (js_join sep (map command_line cmds)) = map command_line cmds"
  by (rule split_joined)

lemma split_quoted_commands_witness:
  "splitCommandWithoutHeredoc (js_join ''&&'' (map command_line
      [[''echo'', ''a;b && '' @ [SQ, DQ]], [''rm'', ''x y'' @ [LF]]]))
    = map command_line [[''echo'', ''a;b && '' @ [SQ, DQ]], [''rm'', ''x y'' @ [LF]]]"
  by (rule split_quoted_commands)
     (simp_all add: plain_command_def truthy_def keyword_def STANDALONE_SHELL_KEYWORDS_def
        SEGMENT_DROP_KEYWORDS_def LEADING_SHELL_KEYWORDS_def is_assignment_def separators_def)

text \<open>
  A backslash that is itself escaped does not escape the newline after it, so a shell runs two
  commands here; the folding step takes the pair for a line continuation and the second command is
  not seen.
\<close>

lemma escaped_backslash_hides_newline:
  "foldLineContinuations (''echo a'' @ [BS, BS, LF] @ ''rm x'') = ''echo a'' @ [BS, SP] @ ''rm x''"
  by (simp add: foldLineContinuations_def foldLineContinuationsWithSourceMap_def foldInit_def
      foldBody_def foldAppend_def)

end
