(* ===== verification/ShellHeredoc.thy ===== *)
theory ShellHeredoc
  imports ShellSplit
begin

text \<open>
  Heredocs in the command splitter: the second half of
  \<open>packages/agent-modules/permission/src/tools/bash-split.ts\<close>.  The functions here look one
  character back and return positions, so they are written over the whole input with an index, as
  in the source; the result \<open>undefined\<close> is \<open>None\<close>.
\<close>

section \<open>Lines and words\<close>

record heredoc_marker =
  marker :: string
  stripTabs :: bool

record heredoc_range =
  bodyStart :: nat
  bodyEnd :: nat

definition findLineBreakStart :: "string \<Rightarrow> nat \<Rightarrow> nat option" where
  "findLineBreakStart input start =
     (case index_of input [LF] start of
        None \<Rightarrow> None
      | Some lf \<Rightarrow> Some (if 0 < lf \<and> char_at input (lf - 1) = Some CR then lf - 1 else lf))"

definition heredocWordIsTerminator :: "char \<Rightarrow> bool" where
  "heredocWordIsTerminator ch \<longleftrightarrow> js_ws ch \<or> ch \<in> set '';&|<>''"

definition heredocMarkerCanMatchLine :: "string \<Rightarrow> bool" where
  "heredocMarkerCanMatchLine m \<longleftrightarrow> m \<noteq> [] \<and> list_all (\<lambda>c. c \<noteq> CHR 0x00 \<and> c \<noteq> CR \<and> c \<noteq> LF) m"

definition decodeSimpleAnsiCEscape :: "char \<Rightarrow> char option" where
  "decodeSimpleAnsiCEscape ch =
     (if ch = CHR ''a'' then Some (CHR 0x07)
      else if ch = CHR ''b'' then Some (CHR 0x08)
      else if ch = CHR ''e'' \<or> ch = CHR ''E'' then Some (CHR 0x1B)
      else if ch = CHR ''f'' then Some (CHR 0x0C)
      else if ch = CHR ''n'' then Some LF
      else if ch = CHR ''r'' then Some CR
      else if ch = CHR ''t'' then Some TAB
      else if ch = CHR ''v'' then Some (CHR 0x0B)
      else if ch = BS \<or> ch = SQ \<or> ch = DQ \<or> ch = CHR ''?'' then Some ch
      else None)"

text \<open>The loop of \<open>parseAnsiCHeredocWord\<close> from index \<open>i\<close> with the marker read so far.\<close>

function ansiCWord :: "string \<Rightarrow> string \<Rightarrow> nat \<Rightarrow> (string \<times> nat) option" where
  "ansiCWord input m i =
     (case char_at input i of
        None \<Rightarrow> None
      | Some ch \<Rightarrow>
          if ch = SQ then (if heredocMarkerCanMatchLine m then Some (m, i + 1) else None)
          else if ch = BS then
            (case char_at input (i + 1) of
               None \<Rightarrow> None
             | Some nxt \<Rightarrow> (case decodeSimpleAnsiCEscape nxt of
                   None \<Rightarrow> None
                 | Some decoded \<Rightarrow> ansiCWord input (m @ [decoded]) (i + 2)))
          else ansiCWord input (m @ [ch]) (i + 1))"
  by pat_completeness auto
termination
  by (relation "measure (\<lambda>(input, m, i). length input - i)") (auto dest!: char_at_length)

definition parseAnsiCHeredocWord :: "string \<Rightarrow> nat \<Rightarrow> (string \<times> nat) option" where
  "parseAnsiCHeredocWord input start = ansiCWord input [] start"

declare ansiCWord.simps [simp del]

lemma ansiCWord_next: "ansiCWord input m i = Some (w, n) \<Longrightarrow> i < n \<and> n \<le> length input"
proof (induction input m i rule: ansiCWord.induct)
  case (1 input m i)
  from "1.prems" show ?case
    by (subst (asm) ansiCWord.simps)
       (auto split: option.splits if_splits dest: char_at_length "1.IH")
qed

text \<open>
  One round of \<open>parseHeredocWord\<close> on the marker read so far, the open quote and the index, and the
  loop.
\<close>

definition quotedRound ::
    "string \<Rightarrow> string \<Rightarrow> char \<Rightarrow> nat \<Rightarrow> char \<Rightarrow> string \<times> char option \<times> nat" where
  "quotedRound input m q i ch =
     (if ch = q then (m, None, i + 1)
      else (case char_at input (i + 1) of
          Some nxt \<Rightarrow>
            if ch = BS \<and> q = DQ \<and> nxt \<in> {CHR ''$'', BT, DQ, BS, LF} then (m @ [nxt], Some q, i + 2)
            else (m @ [ch], Some q, i + 1)
        | None \<Rightarrow> (m @ [ch], Some q, i + 1)))"

definition plainRound ::
    "string \<Rightarrow> string \<Rightarrow> nat \<Rightarrow> char
     \<Rightarrow> (string \<times> char option \<times> nat, (string \<times> nat) option) round" where
  "plainRound input m i ch =
     (if heredocWordIsTerminator ch then
        Return (if heredocMarkerCanMatchLine m then Some (m, i) else None)
      else if ch = CHR ''$'' \<and> char_at input (i + 1) = Some SQ then
        (case parseAnsiCHeredocWord input (i + 2) of
           None \<Rightarrow> Return None
         | Some (parsed, n) \<Rightarrow> Continue (m @ parsed, None, n))
      else if ch = CHR ''$'' \<and> char_at input (i + 1) = Some DQ then Return None
      else if ch = SQ \<or> ch = DQ then Continue (m, Some ch, i + 1)
      else if ch = BS then
        (case char_at input (i + 1) of
           None \<Rightarrow> Return None
         | Some nxt \<Rightarrow> Continue (m @ [nxt], None, i + 2))
      else Continue (m @ [ch], None, i + 1))"

definition wordRound ::
    "string \<Rightarrow> string \<Rightarrow> char option \<Rightarrow> nat
     \<Rightarrow> (string \<times> char option \<times> nat, (string \<times> nat) option) round" where
  "wordRound input m quote i =
     (case char_at input i of
        None \<Rightarrow> Return (if quote = None \<and> heredocMarkerCanMatchLine m then Some (m, i) else None)
      | Some ch \<Rightarrow>
          (case quote of
             Some q \<Rightarrow> Continue (quotedRound input m q i ch)
           | None \<Rightarrow> plainRound input m i ch))"

lemma wordRound_continue:
  assumes "wordRound input m quote i = Continue (m', quote', j)"
  shows "i < j \<and> i < length input \<and> j \<le> length input"
proof -
  obtain ch where ch: "char_at input i = Some ch"
    using assms by (auto simp: wordRound_def split: option.splits)
  then have i: "i < length input" by (rule char_at_length)
  show ?thesis
  proof (cases quote)
    case None
    then have "plainRound input m i ch = Continue (m', quote', j)"
      using assms ch by (simp add: wordRound_def)
    then show ?thesis
      using i by (auto simp: plainRound_def parseAnsiCHeredocWord_def split: option.splits if_splits
          dest: char_at_length ansiCWord_next)
  next
    case (Some q)
    then have "quotedRound input m q i ch = (m', quote', j)"
      using assms ch by (simp add: wordRound_def)
    then show ?thesis
      using i by (auto simp: quotedRound_def split: option.splits if_splits dest: char_at_length)
  qed
qed

function heredocWord :: "string \<Rightarrow> string \<Rightarrow> char option \<Rightarrow> nat \<Rightarrow> (string \<times> nat) option" where
  "heredocWord input m quote i =
     (case wordRound input m quote i of
        Return r \<Rightarrow> r
      | Continue (m', quote', j) \<Rightarrow> heredocWord input m' quote' j)"
  by pat_completeness auto
termination
  by (relation "measure (\<lambda>(input, m, quote, i). length input - i)") (auto dest!: wordRound_continue)

definition parseHeredocWord :: "string \<Rightarrow> nat \<Rightarrow> (string \<times> nat) option" where
  "parseHeredocWord input start = heredocWord input [] None start"

declare heredocWord.simps [simp del]

lemma wordRound_return:
  assumes "wordRound input m quote i = Return (Some (w, n))"
  shows "n = i \<and> heredocMarkerCanMatchLine w"
  using assms by (auto simp: wordRound_def plainRound_def split: option.splits if_splits)

lemma heredocWord_next:
  "heredocWord input m quote i = Some (w, n) \<Longrightarrow> i \<le> length input \<Longrightarrow>
   i \<le> n \<and> n \<le> length input \<and> heredocMarkerCanMatchLine w"
proof (induction input m quote i rule: heredocWord.induct)
  case (1 input m quote i)
  show ?case
  proof (cases "wordRound input m quote i")
    case (Return r)
    then show ?thesis
      using "1.prems" wordRound_return [of input m quote i w n] heredocWord.simps [of input m quote i]
      by simp
  next
    case (Continue x)
    obtain m' quote' j where x: "x = (m', quote', j)" by (cases x)
    then have "heredocWord input m' quote' j = Some (w, n)"
      using "1.prems"(1) Continue heredocWord.simps [of input m quote i] by simp
    moreover have "i < j" "j \<le> length input"
      using wordRound_continue [of input m quote i m' quote' j] Continue x by auto
    ultimately show ?thesis using "1.IH" [OF Continue, of m' "(quote', j)" quote' j] x by force
  qed
qed

section \<open>Markers\<close>

definition parseHeredocMarkerAt :: "string \<Rightarrow> nat \<Rightarrow> (heredoc_marker \<times> nat) option" where
  "parseHeredocMarkerAt input operatorIndex =
     (if char_at input operatorIndex \<noteq> Some (CHR ''<'')
         \<or> char_at input (operatorIndex + 1) \<noteq> Some (CHR ''<'') then None
      else if (0 < operatorIndex \<and> char_at input (operatorIndex - 1) = Some (CHR ''<''))
         \<or> char_at input (operatorIndex + 2) = Some (CHR ''<'') then None
      else
        let i = operatorIndex + 2;
            tabs = (char_at input i = Some (CHR ''-''));
            i' = (if tabs then i + 1 else i);
            i'' = i' + length (takeWhile (\<lambda>c. c = SP \<or> c = TAB) (drop i' input))
        in if length input \<le> i'' then None
           else (case parseHeredocWord input i'' of
               None \<Rightarrow> None
             | Some (word, n) \<Rightarrow> Some (\<lparr>marker = word, stripTabs = tabs\<rparr>, n)))"

definition shellCommentStartsAt :: "string \<Rightarrow> nat \<Rightarrow> bool" where
  "shellCommentStartsAt input index =
     (if char_at input index \<noteq> Some (CHR ''#'') then False
      else if index = 0 then True
      else (case char_at input (index - 1) of
          None \<Rightarrow> False
        | Some c \<Rightarrow> js_ws c \<or> c \<in> set '';&|()''))"

definition findLineEnd :: "string \<Rightarrow> nat \<Rightarrow> nat" where
  "findLineEnd input start = or_default (index_of input [LF] start) (length input)"

text \<open>One round of \<open>skipArithmeticContext\<close>, and its loop.\<close>

definition arithmeticRound :: "string \<Rightarrow> nat \<Rightarrow> nat \<Rightarrow> (nat \<times> nat, nat) round" where
  "arithmeticRound input depth i =
     (case char_at input i of
        None \<Rightarrow> Return (length input)
      | Some ch \<Rightarrow>
          if ch = BS then Continue (depth, i + 2)
          else if ch = CHR ''('' then Continue (depth + 1, i + 1)
          else if ch \<noteq> CHR '')'' then Continue (depth, i + 1)
          else if char_at input (i + 1) = Some (CHR '')'') \<and> depth = 1 then Return (i + 2)
          else Continue (if 1 < depth then depth - 1 else depth, i + 1))"

lemma arithmeticRound_next:
  "arithmeticRound input depth i = Continue (d, j) \<Longrightarrow> i < j \<and> i < length input"
  by (auto simp: arithmeticRound_def split: option.splits if_splits dest: char_at_length)

lemma arithmeticRound_return:
  "arithmeticRound input depth i = Return e \<Longrightarrow> e = length input \<or> (e = i + 2 \<and> e \<le> length input)"
  by (auto simp: arithmeticRound_def split: option.splits if_splits dest: char_at_length)

function arithmeticEnd :: "string \<Rightarrow> nat \<Rightarrow> nat \<Rightarrow> nat" where
  "arithmeticEnd input depth i =
     (case arithmeticRound input depth i of
        Return e \<Rightarrow> e
      | Continue (d, j) \<Rightarrow> arithmeticEnd input d j)"
  by pat_completeness auto
termination
  by (relation "measure (\<lambda>(input, depth, i). length input - i)") (auto dest!: arithmeticRound_next)

declare arithmeticEnd.simps [simp del]

definition skipArithmeticContext :: "string \<Rightarrow> nat \<Rightarrow> nat option" where
  "skipArithmeticContext input start =
     (if char_at input start = Some (CHR ''$'') \<and> char_at input (start + 1) = Some (CHR ''('')
         \<and> char_at input (start + 2) = Some (CHR ''('') then Some (arithmeticEnd input 1 (start + 3))
      else if char_at input start = Some (CHR ''('') \<and> char_at input (start + 1) = Some (CHR ''('')
      then Some (arithmeticEnd input 1 (start + 2))
      else None)"

lemma arithmeticEnd_bounds:
  "arithmeticEnd input depth i \<le> length input
   \<and> (i \<le> length input \<longrightarrow> i \<le> arithmeticEnd input depth i)"
proof (induction input depth i rule: arithmeticEnd.induct)
  case (1 input depth i)
  show ?case
  proof (cases "arithmeticRound input depth i")
    case (Return e)
    then show ?thesis using arithmeticRound_return [OF Return] by (auto simp: arithmeticEnd.simps)
  next
    case (Continue x)
    obtain d j where x: "x = (d, j)" by (cases x)
    have eq: "arithmeticEnd input depth i = arithmeticEnd input d j"
      using Continue x by (simp add: arithmeticEnd.simps)
    have over: "arithmeticEnd input d j = length input" if "length input < j"
      using that by (simp add: arithmeticEnd.simps arithmeticRound_def char_at_def)
    show ?thesis
      using "1.IH" [OF Continue, of d j] x eq over arithmeticRound_next [of input depth i d j] Continue
      by (cases "length input < j") auto
  qed
qed

lemma skipArithmetic_bounds:
  "skipArithmeticContext input i = Some e \<Longrightarrow> i < e \<and> e \<le> length input"
  using arithmeticEnd_bounds [of input 1 "i + 2"] arithmeticEnd_bounds [of input 1 "i + 3"]
  by (auto simp: skipArithmeticContext_def split: if_splits dest!: char_at_length)

lemma parseHeredocMarkerAt_bounds:
  assumes "parseHeredocMarkerAt input i = Some (m, n)"
  shows "i < n \<and> n \<le> length input \<and> heredocMarkerCanMatchLine (marker m)"
  using assms
  by (auto simp: parseHeredocMarkerAt_def parseHeredocWord_def Let_def split: if_splits option.splits
      dest!: heredocWord_next)

section \<open>Looking for markers\<close>

text \<open>
  Both searches walk the text outside quotes, comments and arithmetic in the same way.
  \<open>headerStep\<close> is that common part of their loop bodies: the next index and quote state, or
  \<open>None\<close> when the character at \<open>i\<close> is to be tested for a marker.
\<close>

record quote_state =
  qSingle :: bool
  qDouble :: bool
  qEscaped :: bool

definition quoteInit :: quote_state where
  "quoteInit = \<lparr>qSingle = False, qDouble = False, qEscaped = False\<rparr>"

definition headerStep :: "string \<Rightarrow> nat \<Rightarrow> quote_state \<Rightarrow> char \<Rightarrow> (nat \<times> quote_state) option" where
  "headerStep input i q ch =
     (if qEscaped q then Some (i + 1, q\<lparr>qEscaped := False\<rparr>)
      else if ch = BS \<and> \<not> qSingle q then Some (i + 1, q\<lparr>qEscaped := True\<rparr>)
      else if ch = SQ \<and> \<not> qDouble q then Some (i + 1, q\<lparr>qSingle := \<not> qSingle q\<rparr>)
      else if ch = DQ \<and> \<not> qSingle q then Some (i + 1, q\<lparr>qDouble := \<not> qDouble q\<rparr>)
      else if qSingle q \<or> qDouble q then Some (i + 1, q)
      else if shellCommentStartsAt input i then Some (findLineEnd input i + 1, q)
      else (case skipArithmeticContext input i of
          Some e \<Rightarrow> Some (e, q)
        | None \<Rightarrow> None))"

lemma index_at_bounds: "index_at t i s = Some j \<Longrightarrow> i \<le> j \<and> j + length t \<le> i + length s"
proof (induction t i s rule: index_at.induct)
  case (2 t i c s)
  have "starts_with t (c # s) \<Longrightarrow> length t \<le> Suc (length s)"
    using starts_with_iff [of t "c # s"] by (metis le_add1 length_Cons length_append)
  with 2 show ?case by (auto split: if_splits)
qed (auto split: if_splits)

lemma index_of_bounds:
  "index_of s t i = Some j \<Longrightarrow> min i (length s) \<le> j \<and> j + length t \<le> length s"
  using index_at_bounds [of t "min i (length s)" "drop i s" j]
  by (auto simp: index_of_def min_def split: if_splits)

lemma findLineEnd_bounds: "i < length input \<Longrightarrow> i \<le> findLineEnd input i \<and> findLineEnd input i \<le> length input"
  using index_of_bounds [of input "[LF]" i] by (cases "index_of input [LF] i") (auto simp: findLineEnd_def)

lemma headerStep_next:
  "i < length input \<Longrightarrow> headerStep input i q ch = Some (j, q') \<Longrightarrow> i < j"
  using findLineEnd_bounds [of i input]
  by (auto simp: headerStep_def split: if_splits option.splits dest: skipArithmetic_bounds)

text \<open>\<open>parseHeredocMarkers\<close>: all markers of a header.\<close>

function markersFrom :: "string \<Rightarrow> nat \<Rightarrow> quote_state \<Rightarrow> heredoc_marker list \<Rightarrow> heredoc_marker list" where
  "markersFrom header i q found =
     (case char_at header i of
        None \<Rightarrow> found
      | Some ch \<Rightarrow>
          (case headerStep header i q ch of
             Some (j, q') \<Rightarrow> markersFrom header j q' found
           | None \<Rightarrow>
               (case parseHeredocMarkerAt header i of
                  Some (m, n) \<Rightarrow> markersFrom header n q (found @ [m])
                | None \<Rightarrow> markersFrom header (i + 1) q found)))"
  by pat_completeness auto
termination
  by (relation "measure (\<lambda>(header, i, q, found). length header - i)")
     (auto dest!: char_at_length dest: headerStep_next parseHeredocMarkerAt_bounds
       intro!: diff_less_mono2)

definition parseHeredocMarkers :: "string \<Rightarrow> heredoc_marker list" where
  "parseHeredocMarkers header = markersFrom header 0 quoteInit []"

function firstBodyFrom :: "string \<Rightarrow> nat \<Rightarrow> quote_state \<Rightarrow> nat option" where
  "firstBodyFrom input i q =
     (case char_at input i of
        None \<Rightarrow> None
      | Some ch \<Rightarrow>
          (case headerStep input i q ch of
             Some (j, q') \<Rightarrow> firstBodyFrom input j q'
           | None \<Rightarrow>
               (case parseHeredocMarkerAt input i of
                  Some _ \<Rightarrow> findLineBreakStart input i
                | None \<Rightarrow> firstBodyFrom input (i + 1) q)))"
  by pat_completeness auto
termination
  by (relation "measure (\<lambda>(input, i, q). length input - i)")
     (auto dest!: char_at_length dest: headerStep_next intro!: diff_less_mono2)

definition findFirstHeredocBodyStart :: "string \<Rightarrow> nat option" where
  "findFirstHeredocBodyStart input = firstBodyFrom input 0 quoteInit"

declare markersFrom.simps [simp del] firstBodyFrom.simps [simp del]

section \<open>Bodies\<close>

definition lineMatchesHeredocMarker :: "string \<Rightarrow> heredoc_marker \<Rightarrow> bool" where
  "lineMatchesHeredocMarker line m =
     ((if stripTabs m then dropWhile (\<lambda>c. c = TAB) line else line) = marker m)"

text \<open>The start of the next line, and the line at a position without its line break.\<close>

definition next_line :: "string \<Rightarrow> nat \<Rightarrow> nat" where
  "next_line input pos =
     (case index_of input [LF] pos of None \<Rightarrow> length input | Some e \<Rightarrow> e + 1)"

definition line_at :: "string \<Rightarrow> nat \<Rightarrow> string" where
  "line_at input pos =
     (let rawLine = slice pos (or_default (index_of input [LF] pos) (length input)) input
      in if ends_with [CR] rawLine then take (length rawLine - 1) rawLine else rawLine)"

lemma next_line_bounds: "pos < length input \<Longrightarrow> pos < next_line input pos \<and> next_line input pos \<le> length input"
  by (auto simp: next_line_def split: option.splits dest: index_of_bounds)

function consumeHeredocBody :: "string \<Rightarrow> nat \<Rightarrow> heredoc_marker \<Rightarrow> nat" where
  "consumeHeredocBody input pos m =
     (if pos < length input then
        (if lineMatchesHeredocMarker (line_at input pos) m then next_line input pos
         else consumeHeredocBody input (next_line input pos) m)
      else length input)"
  by pat_completeness auto
termination
  by (relation "measure (\<lambda>(input, pos, m). length input - pos)")
     (auto dest: next_line_bounds intro!: diff_less_mono2)

declare consumeHeredocBody.simps [simp del]

lemma consume_bounds:
  "consumeHeredocBody input pos m \<le> length input
   \<and> (pos < length input \<longrightarrow> pos < consumeHeredocBody input pos m)"
proof (induction input pos m rule: consumeHeredocBody.induct)
  case (1 input pos m)
  show ?case
  proof (cases "pos < length input \<and> \<not> lineMatchesHeredocMarker (line_at input pos) m")
    case False
    then show ?thesis using next_line_bounds [of pos input] by (auto simp: consumeHeredocBody.simps)
  next
    case True
    then have eq: "consumeHeredocBody input pos m = consumeHeredocBody input (next_line input pos) m"
      by (subst consumeHeredocBody.simps) simp
    have "consumeHeredocBody input (length input) m = length input"
      by (simp add: consumeHeredocBody.simps)
    then show ?thesis
      using 1 [of] True next_line_bounds [of pos input] eq
      by (cases "next_line input pos < length input") auto
  qed
qed

section \<open>Splitting with heredocs\<close>

definition range_at :: "folded_range list \<Rightarrow> nat \<Rightarrow> folded_range option" where
  "range_at ranges i = (if i < length ranges then Some (ranges ! i) else None)"

text \<open>The source text of a header segment, found again in the folded header.\<close>

definition segmentSource ::
    "string \<Rightarrow> fold_state \<Rightarrow> string \<Rightarrow> string list \<times> nat \<Rightarrow> string list \<times> nat" where
  "segmentSource header folded segment acc =
     (case acc of (sources, from) \<Rightarrow>
        (case index_of (foldText folded) segment from of
           None \<Rightarrow> (sources @ [segment], from)
         | Some start \<Rightarrow>
             if segment = [] then (sources @ [segment], from)
             else
               let foldedEnd = start + length segment in
               (case (range_at (foldRanges folded) start, range_at (foldRanges folded) (foldedEnd - 1)) of
                  (Some a, Some b) \<Rightarrow>
                    let sourceEnd = rangeEnd b
                          + length (takeWhile (\<lambda>c. c = SP \<or> c = TAB) (drop (rangeEnd b) header))
                    in (sources @ [slice (rangeStart a) sourceEnd header], foldedEnd)
                | _ \<Rightarrow> (sources @ [segment], foldedEnd))))"

definition findHeaderSegmentSources :: "string \<Rightarrow> string list \<Rightarrow> string list" where
  "findHeaderSegmentSources header segments =
     fst (fold (segmentSource header (foldLineContinuationsWithSourceMap header)) segments ([], 0))"

definition segmentMarkers :: "string list \<Rightarrow> (nat \<times> heredoc_marker) list" where
  "segmentMarkers segments =
     concat (map (\<lambda>(index, segment). map (Pair index) (parseHeredocMarkers segment))
       (enumerate 0 segments))"

text \<open>One marker's body, appended to those already found for the segment.\<close>

definition appendBody ::
    "string \<Rightarrow> nat \<times> heredoc_marker \<Rightarrow> (nat \<rightharpoonup> string) \<times> nat \<Rightarrow> (nat \<rightharpoonup> string) \<times> nat" where
  "appendBody input im acc =
     (case acc of (bodies, cursor) \<Rightarrow>
        let nxt = consumeHeredocBody input cursor (snd im)
        in (bodies(fst im \<mapsto> or_default (bodies (fst im)) [] @ slice cursor nxt input), nxt))"

text \<open>
  \<open>splitCommandWithHeredoc\<close> up to its recursive call: the commands of the header with their bodies
  and where the text after them starts, or \<open>None\<close> when no segment has a marker after all.
\<close>

definition headerCommands :: "string \<Rightarrow> nat \<Rightarrow> (string list \<times> nat) option" where
  "headerCommands input start =
     (let header = take start input;
          segments = splitCommandWithoutHeredoc header;
          sources = findHeaderSegmentSources header segments;
          markers = segmentMarkers segments
      in if markers = [] then None
         else let (bodies, cursor) = fold (appendBody input) markers (Map.empty, start)
           in Some (map (\<lambda>(index, segment).
                 (case bodies index of
                    None \<Rightarrow> segment
                  | Some body \<Rightarrow> (if index < length sources then sources ! index else segment) @ body))
               (enumerate 0 segments), cursor))"

lemma appendBody_cursor:
  "snd acc < length input \<Longrightarrow> snd acc < snd (appendBody input im acc)"
  "snd (appendBody input im acc) \<le> length input"
  using consume_bounds [of input "snd acc" "snd im"]
  by (auto simp: appendBody_def Let_def split: prod.split)

lemma appendBody_at_end: "snd acc = length input \<Longrightarrow> snd (appendBody input im acc) = length input"
  using consumeHeredocBody.simps [of input "length input" "snd im"]
  by (cases acc) (simp add: appendBody_def Let_def)

lemma appendBodies_at_end:
  "snd acc = length input \<Longrightarrow> snd (fold (appendBody input) ims acc) = length input"
  by (induction ims arbitrary: acc) (simp_all add: appendBody_at_end)

lemma appendBodies_cursor:
  "ims \<noteq> [] \<Longrightarrow> snd acc < length input \<Longrightarrow> snd acc < snd (fold (appendBody input) ims acc)"
proof (induction ims arbitrary: acc)
  case (Cons im ims)
  have step: "snd acc < snd (appendBody input im acc)" by (rule appendBody_cursor) (rule Cons.prems)
  show ?case
  proof (cases "ims = [] \<or> snd (appendBody input im acc) = length input")
    case True
    then show ?thesis using step appendBodies_at_end [of "appendBody input im acc"] Cons.prems by auto
  next
    case False
    then have "snd (appendBody input im acc) < length input"
      using appendBody_cursor(2) [of input im acc] by simp
    then show ?thesis using Cons.IH [of "appendBody input im acc"] False step by simp
  qed
qed simp

lemma headerCommands_cursor:
  "headerCommands input start = Some (cmds, cursor) \<Longrightarrow> start < length input \<Longrightarrow> start < cursor"
  using appendBodies_cursor [of "segmentMarkers (splitCommandWithoutHeredoc (take start input))"
      "(Map.empty, start)" input]
  by (auto simp: headerCommands_def Let_def split: if_splits prod.splits)

lemma firstBody_bound: "firstBodyFrom input i q = Some b \<Longrightarrow> b < length input"
proof (induction input i q rule: firstBodyFrom.induct)
  case (1 input i q)
  from "1.prems" show ?case
    by (subst (asm) firstBodyFrom.simps)
       (auto simp: findLineBreakStart_def split: option.splits if_splits
         dest: "1.IH" index_of_bounds)
qed

function splitCommand :: "string \<Rightarrow> string list" where
  "splitCommand input =
     (case findFirstHeredocBodyStart input of
        None \<Rightarrow> splitCommandWithoutHeredoc input
      | Some start \<Rightarrow>
          (case headerCommands input start of
             None \<Rightarrow> splitCommandWithoutHeredoc input
           | Some (withBodies, cursor) \<Rightarrow>
               if js_trim (drop cursor input) \<noteq> [] then withBodies @ splitCommand (drop cursor input)
               else withBodies))"
  by pat_completeness auto
termination
proof (relation "measure length")
  fix input start x withBodies cursor
  assume "findFirstHeredocBodyStart input = Some start"
    and "headerCommands input start = Some x" "(withBodies, cursor) = x"
  then have "start < length input" "start < cursor"
    using firstBody_bound headerCommands_cursor unfolding findFirstHeredocBodyStart_def by blast+
  then show "(drop cursor input, input) \<in> measure length" by simp
qed simp

declare splitCommand.simps [simp del]

section \<open>Ranges of heredoc bodies\<close>

fun bodyRanges :: "string \<Rightarrow> heredoc_marker list \<Rightarrow> nat \<Rightarrow> heredoc_range list \<times> nat" where
  "bodyRanges input [] cursor = ([], cursor)"
| "bodyRanges input (m # ms) cursor =
     (let nxt = consumeHeredocBody input cursor m; (ranges, stop) = bodyRanges input ms nxt
      in (\<lparr>bodyStart = cursor, bodyEnd = nxt\<rparr> # ranges, stop))"

definition headerMarkers :: "string \<Rightarrow> heredoc_marker list" where
  "headerMarkers header = concat (map parseHeredocMarkers (splitCommandWithoutHeredoc header))"

text \<open>Positions inside a range list: in order, disjoint, between two bounds.\<close>

definition ranges_ok :: "nat \<Rightarrow> nat \<Rightarrow> heredoc_range list \<Rightarrow> bool" where
  "ranges_ok lo hi rs \<longleftrightarrow>
     list_all (\<lambda>r. lo \<le> bodyStart r \<and> bodyStart r \<le> bodyEnd r \<and> bodyEnd r \<le> hi) rs
     \<and> sorted_wrt (\<lambda>r s. bodyEnd r \<le> bodyStart s) rs"

lemma ranges_ok_append:
  "ranges_ok lo mid rs \<Longrightarrow> ranges_ok mid hi rs' \<Longrightarrow> lo \<le> mid \<Longrightarrow> mid \<le> hi \<Longrightarrow> ranges_ok lo hi (rs @ rs')"
  by (force simp: ranges_ok_def list_all_iff sorted_wrt_append)

lemma ranges_ok_mono: "ranges_ok lo hi rs \<Longrightarrow> lo' \<le> lo \<Longrightarrow> ranges_ok lo' hi rs"
  by (auto simp: ranges_ok_def list_all_iff)

lemma consume_le: "pos \<le> length input \<Longrightarrow> pos \<le> consumeHeredocBody input pos m"
  using consume_bounds [of input pos m] consumeHeredocBody.simps [of input pos m]
  by (cases "pos < length input") auto

lemma bodyRanges_ok:
  "bodyRanges input ms cursor = (rs, stop) \<Longrightarrow> cursor \<le> length input \<Longrightarrow>
   ranges_ok cursor stop rs \<and> cursor \<le> stop \<and> stop \<le> length input
   \<and> (ms \<noteq> [] \<longrightarrow> cursor < length input \<longrightarrow> cursor < stop)"
proof (induction ms arbitrary: cursor rs)
  case Nil
  then show ?case by (simp add: ranges_ok_def)
next
  case (Cons m ms)
  let ?n = "consumeHeredocBody input cursor m"
  obtain rs' where rs': "bodyRanges input ms ?n = (rs', stop)" "rs = \<lparr>bodyStart = cursor, bodyEnd = ?n\<rparr> # rs'"
    using Cons.prems(1) by (auto simp: Let_def split: prod.splits)
  have n: "cursor \<le> ?n" "?n \<le> length input" "cursor < length input \<Longrightarrow> cursor < ?n"
    using consume_bounds [of input cursor m] consume_le [OF Cons.prems(2)] by auto
  have ih: "ranges_ok ?n stop rs'" "?n \<le> stop" "stop \<le> length input"
    using Cons.IH [OF rs'(1) n(2)] by auto
  have "ranges_ok cursor ?n [\<lparr>bodyStart = cursor, bodyEnd = ?n\<rparr>]" using n by (simp add: ranges_ok_def)
  from ranges_ok_append [OF this ih(1) n(1) ih(2)] show ?case using rs'(2) ih n by auto
qed

function collectHeredocBodyRanges :: "string \<Rightarrow> nat \<Rightarrow> heredoc_range list" where
  "collectHeredocBodyRanges input offset =
     (case findFirstHeredocBodyStart (drop offset input) of
        None \<Rightarrow> []
      | Some start \<Rightarrow>
          let markers = headerMarkers (take start (drop offset input))
          in if markers = [] then []
             else (case bodyRanges input markers (offset + start) of
                 (ranges, cursor) \<Rightarrow> ranges @ collectHeredocBodyRanges input cursor))"
  by pat_completeness auto
termination
proof (relation "measure (\<lambda>(input, offset). length input - offset)")
  fix input offset start markers ranges cursor
  assume start: "findFirstHeredocBodyStart (drop offset input) = Some start"
    and m: "markers = headerMarkers (take start (drop offset input))" "markers \<noteq> []"
    and b: "(ranges, cursor) = bodyRanges input markers (offset + start)"
  have "start < length (drop offset input)"
    using start firstBody_bound unfolding findFirstHeredocBodyStart_def by blast
  then have "offset + start < length input" by simp
  then show "((input, cursor), (input, offset)) \<in> measure (\<lambda>(input, offset). length input - offset)"
    using bodyRanges_ok [of input markers "offset + start" ranges cursor] b m(2) by auto
qed simp

declare collectHeredocBodyRanges.simps [simp del]

definition findHeredocBodyRanges :: "string \<Rightarrow> heredoc_range list" where
  "findHeredocBodyRanges input = collectHeredocBodyRanges input 0"

lemma collect_ranges_ok:
  "offset \<le> length input \<Longrightarrow> ranges_ok offset (length input) (collectHeredocBodyRanges input offset)"
proof (induction input offset rule: collectHeredocBodyRanges.induct)
  case (1 input offset)
  show ?case
  proof (cases "findFirstHeredocBodyStart (drop offset input)")
    case None
    then show ?thesis by (simp add: collectHeredocBodyRanges.simps ranges_ok_def)
  next
    case (Some start)
    let ?ms = "headerMarkers (take start (drop offset input))"
    obtain rs cursor where b: "bodyRanges input ?ms (offset + start) = (rs, cursor)" by fastforce
    have "start < length (drop offset input)"
      using Some firstBody_bound unfolding findFirstHeredocBodyStart_def by blast
    then have os: "offset + start \<le> length input" by simp
    show ?thesis
    proof (cases "?ms = []")
      case True
      then show ?thesis using Some by (simp add: collectHeredocBodyRanges.simps ranges_ok_def Let_def)
    next
      case False
      have ok: "ranges_ok (offset + start) cursor rs" "offset + start \<le> cursor" "cursor \<le> length input"
        using bodyRanges_ok [OF b os] by auto
      have "ranges_ok cursor (length input) (collectHeredocBodyRanges input cursor)"
        using "1.IH" [OF Some refl False b [symmetric] ok(3)] .
      then have "ranges_ok (offset + start) (length input) (rs @ collectHeredocBodyRanges input cursor)"
        using ok ranges_ok_append by blast
      then show ?thesis
        using Some False b ranges_ok_mono by (subst collectHeredocBodyRanges.simps) (auto simp: Let_def)
    qed
  qed
qed

section \<open>Without a heredoc operator\<close>

lemma marker_needs_operator:
  "parseHeredocMarkerAt input i = Some x \<Longrightarrow> str_includes ''<<'' input"
proof -
  assume "parseHeredocMarkerAt input i = Some x"
  then have "char_at input i = Some (CHR ''<'')" "char_at input (i + 1) = Some (CHR ''<'')"
    by (auto simp: parseHeredocMarkerAt_def split: if_splits)
  then have "input = take i input @ ''<<'' @ drop (i + 2) input"
    using id_take_nth_drop [of i input] Cons_nth_drop_Suc [of "Suc i" input]
    by (auto simp: char_at_def split: if_splits)
  then show ?thesis unfolding str_includes_iff by blast
qed

lemma firstBody_needs_operator: "firstBodyFrom input i q = Some b \<Longrightarrow> str_includes ''<<'' input"
proof (induction input i q rule: firstBodyFrom.induct)
  case (1 input i q)
  from "1.prems" show ?case
    by (subst (asm) firstBodyFrom.simps)
       (auto split: option.splits if_splits dest: "1.IH" marker_needs_operator)
qed

lemma splitCommand_no_operator:
  "\<not> str_includes ''<<'' input \<Longrightarrow> splitCommand input = splitCommandWithoutHeredoc input"
  using firstBody_needs_operator [of input 0 quoteInit]
  by (cases "findFirstHeredocBodyStart input")
     (auto simp: splitCommand.simps [of input] findFirstHeredocBodyStart_def)

section \<open>Where a body ends\<close>

definition strip_cr :: "string \<Rightarrow> string" where
  "strip_cr line = (if ends_with [CR] line then take (length line - 1) line else line)"

lemma index_at_line: "LF \<notin> set l \<Longrightarrow> index_at [LF] i (l @ LF # rest) = Some (i + length l)"
  by (induction l arbitrary: i) auto

lemma line_at_line:
  assumes "LF \<notin> set l"
  shows "line_at (pre @ l @ LF # rest) (length pre) = strip_cr l"
    and "next_line (pre @ l @ LF # rest) (length pre) = length (pre @ l @ [LF])"
  using index_at_line [OF assms, of "length pre" rest]
  by (simp_all add: line_at_def next_line_def index_of_def slice_def strip_cr_def Let_def)

lemma consume_body:
  assumes "list_all (\<lambda>l. LF \<notin> set l \<and> \<not> lineMatchesHeredocMarker (strip_cr l) m) body"
    and "LF \<notin> set stop" "lineMatchesHeredocMarker (strip_cr stop) m"
  shows "consumeHeredocBody (pre @ concat (map (\<lambda>l. l @ [LF]) body) @ stop @ LF # rest) (length pre) m
    = length (pre @ concat (map (\<lambda>l. l @ [LF]) body) @ stop @ [LF])"
  using assms(1)
proof (induction body arbitrary: pre)
  case Nil
  then show ?case
    using line_at_line [OF assms(2), of pre rest] assms(3)
    by (subst consumeHeredocBody.simps) simp
next
  case (Cons l body)
  let ?tail = "concat (map (\<lambda>l. l @ [LF]) body) @ stop @ LF # rest"
  have "consumeHeredocBody (pre @ l @ LF # ?tail) (length pre) m
      = consumeHeredocBody (pre @ l @ LF # ?tail) (length (pre @ l @ [LF])) m"
    using Cons.prems line_at_line [of l pre ?tail] by (subst consumeHeredocBody.simps) simp
  then show ?case using Cons.IH [of "pre @ l @ [LF]"] Cons.prems by simp
qed

section \<open>Properties\<close>

text \<open>
  The heredoc bodies reported for a command line lie inside it, in order and without overlap.
\<close>

theorem heredoc_ranges_ordered: "ranges_ok 0 (length input) (findHeredocBodyRanges input)"
  by (simp add: findHeredocBodyRanges_def collect_ranges_ok)

text \<open>
  A heredoc body ends with the first line that is its terminator: the lines before it, whatever
  they contain, belong to the body, and the text after it does not.
\<close>

theorem heredoc_body_extent:
  "list_all (\<lambda>l. LF \<notin> set l \<and> \<not> lineMatchesHeredocMarker (strip_cr l) m) body \<Longrightarrow>
   LF \<notin> set stop \<Longrightarrow> lineMatchesHeredocMarker (strip_cr stop) m \<Longrightarrow>
   consumeHeredocBody (pre @ concat (map (\<lambda>l. l @ [LF]) body) @ stop @ LF # rest) (length pre) m
     = length (pre @ concat (map (\<lambda>l. l @ [LF]) body) @ stop @ [LF])"
  by (rule consume_body)

lemma heredoc_body_extent_witness:
  "consumeHeredocBody (''x'' @ concat (map (\<lambda>l. l @ [LF]) [''rm -rf y'', ''EOF '']) @ (TAB # ''EOF'') @ LF # ''ls'')
     (length ''x'') \<lparr>marker = ''EOF'', stripTabs = True\<rparr>
   = length (''x'' @ concat (map (\<lambda>l. l @ [LF]) [''rm -rf y'', ''EOF '']) @ (TAB # ''EOF'') @ [LF])"
  by (rule heredoc_body_extent)
     (simp_all add: lineMatchesHeredocMarker_def strip_cr_def ends_with_def)

text \<open>
  A command line without the operator \<open><<\<close> is split as if heredocs did not exist, so what
  holds of the plain splitter holds of \<open>splitCommand\<close> on it.
\<close>

theorem split_without_operator:
  "\<not> str_includes ''<<'' input \<Longrightarrow> splitCommand input = splitCommandWithoutHeredoc input"
  by (rule splitCommand_no_operator)

lemma split_without_operator_witness:
  "splitCommand ''a;b'' = splitCommandWithoutHeredoc ''a;b''"
  by (rule split_without_operator) simp

end
