(* ===== verification/ShellWrappers.thy ===== *)
theory ShellWrappers
  imports ShellTokens "HOL-Library.Multiset"
begin

text \<open>
  Command wrappers: \<open>packages/agent-modules/permission/src/tools/bash-wrapper-unwrap.ts\<close>.
  \<open>consumeShellWrapperPrefix\<close> steps over transparent wrappers such as \<open>nohup\<close> or \<open>timeout 30\<close>;
  \<open>unwrapCommandWrappers\<close> exposes the payload of inline shells such as \<open>bash -c "..."\<close> for the
  safety scans.  The loops over tokens are written over the tokens from index \<open>j\<close> on.  The two
  decodings of \<open>Buffer.from(raw, 'base64')\<close> (UTF-16LE, UTF-8) are arguments of the model.
\<close>

section \<open>Tokens that are flags and numbers\<close>

definition token_or_empty :: "string list \<Rightarrow> string" where
  "token_or_empty rest = (case rest of [] \<Rightarrow> [] | t # _ \<Rightarrow> t)"

definition all_digits :: "string \<Rightarrow> bool" where
  "all_digits s \<longleftrightarrow> s \<noteq> [] \<and> list_all is_digit s"

text \<open>\<open>/^-\d+$/\<close> and \<open>/^-?\d+$/\<close>.\<close>

definition minus_number :: "string \<Rightarrow> bool" where
  "minus_number s \<longleftrightarrow> starts_with ''-'' s \<and> all_digits (drop 1 s)"

definition maybe_minus_number :: "string \<Rightarrow> bool" where
  "maybe_minus_number s \<longleftrightarrow> all_digits s \<or> minus_number s"

definition short_flag_of :: "string \<Rightarrow> string \<Rightarrow> bool" where
  "short_flag_of letters t \<longleftrightarrow> length t = 2 \<and> t ! 0 = CHR ''-'' \<and> t ! 1 \<in> set letters"

definition XARGS_VALUED_SHORT :: "string \<Rightarrow> bool" where
  "XARGS_VALUED_SHORT = short_flag_of ''dEILnPs''"

definition WATCH_VALUED_SHORT :: "string \<Rightarrow> bool" where
  "WATCH_VALUED_SHORT = short_flag_of ''n''"

definition PARALLEL_VALUED_SHORT :: "string \<Rightarrow> bool" where
  "PARALLEL_VALUED_SHORT = short_flag_of ''dEIjLNnPs''"

section \<open>Flags of one wrapper\<close>

fun consumeValuedShortFlagPrefix :: "string list \<Rightarrow> nat \<Rightarrow> (string \<Rightarrow> bool) \<Rightarrow> nat option" where
  "consumeValuedShortFlagPrefix [] j valuedShort = Some j"
| "consumeValuedShortFlagPrefix (t # rest) j valuedShort =
     (if t = ''--'' then Some (j + 1)
      else if \<not> starts_with ''-'' t then Some j
      else if valuedShort t then consumeValuedShortFlagPrefix (drop 1 rest) (j + 2) valuedShort
      else consumeValuedShortFlagPrefix rest (j + 1) valuedShort)"

fun consumeCommandBuiltinPrefix :: "string list \<Rightarrow> nat \<Rightarrow> nat option" where
  "consumeCommandBuiltinPrefix [] j = Some j"
| "consumeCommandBuiltinPrefix (t # rest) j =
     (if t = ''-v'' \<or> t = ''-V'' \<or> t = ''--help'' \<or> t = ''--version'' then None
      else if t = ''-p'' then consumeCommandBuiltinPrefix rest (j + 1)
      else if t = ''--'' then Some (j + 1)
      else Some j)"

fun consumeNicePrefix :: "string list \<Rightarrow> nat \<Rightarrow> nat option" where
  "consumeNicePrefix [] j = Some j"
| "consumeNicePrefix (t # rest) j =
     (if t = ''--'' then Some (j + 1)
      else if t = ''-n'' \<and> maybe_minus_number (token_or_empty rest)
        then consumeNicePrefix (drop 1 rest) (j + 2)
      else if minus_number t then consumeNicePrefix rest (j + 1)
      else if t = ''--adjustment'' \<or> starts_with ''--adjustment='' t then
        (if CHR ''='' \<in> set t then consumeNicePrefix rest (j + 1)
         else if maybe_minus_number (token_or_empty rest) then consumeNicePrefix (drop 1 rest) (j + 2)
         else None)
      else Some j)"

text \<open>
  \<open>/^(?:inf|infinity|\d+(?:\.\d+)?[smhd]?(?:\d+[smhd])*)$/i\<close>; reading the digits greedily loses no
  match, since digits left to a later group could always have been read before it.
\<close>

definition unit_letter :: "char \<Rightarrow> bool" where
  "unit_letter c \<longleftrightarrow> char_lower c \<in> set ''smhd''"

function duration_groups :: "string \<Rightarrow> bool" where
  "duration_groups s =
     (if s = [] then True
      else case dropWhile is_digit s of
          [] \<Rightarrow> False
        | c # rest \<Rightarrow> is_digit (hd s) \<and> unit_letter c \<and> duration_groups rest)"
  by pat_completeness auto
termination
proof (relation "measure length")
  fix s :: string and c rest
  assume "s \<noteq> []" "dropWhile is_digit s = c # rest"
  then show "(rest, s) \<in> measure length"
    using length_dropWhile_le [of is_digit s] by simp
qed simp

declare duration_groups.simps [simp del]

definition is_duration :: "string \<Rightarrow> bool" where
  "is_duration s =
     (let l = to_lower s; after = dropWhile is_digit s;
          after' = (if char_at after 0 = Some (CHR ''.'') \<and> after \<noteq> []
                       \<and> takeWhile is_digit (drop 1 after) \<noteq> []
                    then dropWhile is_digit (drop 1 after) else after);
          after'' = (case after' of c # rest \<Rightarrow> if unit_letter c then rest else after' | [] \<Rightarrow> [])
      in l = ''inf'' \<or> l = ''infinity'' \<or> (takeWhile is_digit s \<noteq> [] \<and> duration_groups after''))"

fun timeoutFlags :: "string list \<Rightarrow> nat \<Rightarrow> (string list \<times> nat) option" where
  "timeoutFlags [] j = Some ([], j)"
| "timeoutFlags (t # rest) j =
     (if \<not> starts_with ''-'' t then Some (t # rest, j)
      else if t = ''-k'' \<or> t = ''--kill-after'' \<or> t = ''-s'' \<or> t = ''--signal''
        then timeoutFlags (drop 1 rest) (j + 2)
      else if t = ''--preserve-status'' \<or> t = ''--foreground'' \<or> t = ''-v'' \<or> t = ''--verbose''
        then timeoutFlags rest (j + 1)
      else None)"

definition consumeTimeoutPrefix :: "string list \<Rightarrow> nat \<Rightarrow> nat option" where
  "consumeTimeoutPrefix rest j =
     (case timeoutFlags rest j of
        None \<Rightarrow> None
      | Some (rest', j') \<Rightarrow> if is_duration (token_or_empty rest') then Some (j' + 1) else None)"

section \<open>Transparent wrappers\<close>

text \<open>The last path segment of a word that starts with a slash.\<close>

definition exe_name :: "string \<Rightarrow> string" where
  "exe_name head = (if char_at head 0 = Some (CHR ''/'') then last (js_split ''/'' head) else head)"

text \<open>The \<open>switch\<close>: the index after the wrapper at \<open>i\<close>, or \<open>None\<close> for its two ways to give up.\<close>

definition wrapperNext :: "string list \<Rightarrow> nat \<Rightarrow> nat option" where
  "wrapperNext tokens i =
     (let exe = to_lower (exe_name (tokens ! i)); rest = drop (i + 1) tokens; j = i + 1
      in if exe = ''xargs'' then consumeValuedShortFlagPrefix rest j XARGS_VALUED_SHORT
         else if exe = ''nohup'' then Some j
         else if exe = ''setsid'' then consumeValuedShortFlagPrefix rest j (\<lambda>t. t = [])
         else if exe = ''command'' then consumeCommandBuiltinPrefix rest j
         else if exe = ''nice'' then consumeNicePrefix rest j
         else if exe = ''timeout'' then consumeTimeoutPrefix rest j
         else if exe = ''parallel'' then consumeValuedShortFlagPrefix rest j PARALLEL_VALUED_SHORT
         else if exe = ''watch'' then consumeValuedShortFlagPrefix rest j WATCH_VALUED_SHORT
         else None)"

fun wrapperLoop :: "nat \<Rightarrow> string list \<Rightarrow> nat \<Rightarrow> nat" where
  "wrapperLoop 0 tokens i = i"
| "wrapperLoop (Suc strips) tokens i =
     (if length tokens \<le> i \<or> tokens ! i = [] then i
      else (case wrapperNext tokens i of
          None \<Rightarrow> i
        | Some nxt \<Rightarrow>
            if nxt \<le> i \<or> length tokens \<le> nxt then i else wrapperLoop strips tokens nxt))"

definition consumeShellWrapperPrefix :: "string list \<Rightarrow> nat \<Rightarrow> nat" where
  "consumeShellWrapperPrefix tokens startIdx = wrapperLoop 4 tokens startIdx"

section \<open>Environment prefixes and rule matching\<close>

text \<open>\<open>/^[A-Za-z_][A-Za-z0-9_]*=/\<close>\<close>

definition env_assignment :: "string \<Rightarrow> bool" where
  "env_assignment t =
     (case t of [] \<Rightarrow> False
      | c # cs \<Rightarrow> (is_alpha c \<or> c = CHR ''_'')
          \<and> char_at (dropWhile (\<lambda>x. is_alnum x \<or> x = CHR ''_'') cs) 0 = Some (CHR ''=''))"

definition token_at :: "string list \<Rightarrow> nat \<Rightarrow> string option" where
  "token_at tokens i = (if i < length tokens then Some (tokens ! i) else None)"

definition skipAssignments :: "string list \<Rightarrow> nat \<Rightarrow> nat" where
  "skipAssignments tokens i = i + length (takeWhile env_assignment (drop i tokens))"

definition consumeEnvVarPrefix :: "string list \<Rightarrow> nat \<Rightarrow> nat" where
  "consumeEnvVarPrefix tokens startIdx =
     (let i = skipAssignments tokens startIdx
      in if token_at tokens i = Some ''env'' then
           let j = i + 1;
               j' = (if token_at tokens j = Some ''-i'' then j + 1 else j);
               j'' = (if token_at tokens j' = Some ''--'' then j' + 1 else j');
               j3 = skipAssignments tokens j''
           in if j3 < length tokens then j3 else i
         else i)"

definition stripTransparentWrappersForRuleMatch :: "string \<Rightarrow> string option" where
  "stripTransparentWrappersForRuleMatch command =
     (let tokens = shellTokenize command in
      if tokens = [] then None
      else let innerIdx = consumeShellWrapperPrefix tokens (consumeEnvVarPrefix tokens 0)
        in if innerIdx \<le> 0 \<or> length tokens \<le> innerIdx then None
           else let inner = drop innerIdx tokens; head = hd inner
             in Some (js_join [SP] (exe_name head # tl inner)))"

section \<open>Inline shells\<close>

definition is_quoted :: "string \<Rightarrow> bool" where
  "is_quoted s \<longleftrightarrow> 2 \<le> length s \<and> ((hd s = DQ \<and> last s = DQ) \<or> (hd s = SQ \<and> last s = SQ))"

definition peel_quotes :: "string \<Rightarrow> string" where
  "peel_quotes s = (if is_quoted s then slice 1 (length s - 1) s else s)"

text \<open>\<open>s.split(/[\\/]/).pop()\<close>\<close>

definition base_name :: "string \<Rightarrow> string" where
  "base_name s = rev (takeWhile (\<lambda>c. c \<noteq> CHR ''/'' \<and> c \<noteq> BS) (rev s))"

definition push_candidate :: "string \<Rightarrow> string list \<Rightarrow> string list" where
  "push_candidate s candidates =
     (if s \<noteq> [] \<and> s \<notin> set candidates then candidates @ [s] else candidates)"

definition token_raw :: "string \<Rightarrow> shell_token \<Rightarrow> string" where
  "token_raw cmd t = slice (tokenStart t) (tokenEnd t) cmd"

definition POSIX_SHELL_NAMES :: "string list" where
  "POSIX_SHELL_NAMES = [''bash'', ''sh'', ''zsh'', ''dash'', ''ksh'', ''fish'']"

definition pushBashCInner :: "string \<Rightarrow> string list \<Rightarrow> string list" where
  "pushBashCInner cmd candidates =
     (let shellTokens = shellTokenizeWithMetadata cmd; tokens = map tokenValue shellTokens
      in if length tokens < 3 then candidates
         else
           let head = (if to_lower (tokens ! 0) = ''sudo'' then 1 else 0);
               headBasename = to_lower (base_name (peel_quotes (token_raw cmd (shellTokens ! head))));
               cFlagIdx = (if headBasename = ''busybox'' then
                     (if to_lower (tokens ! (head + 1)) \<in> set POSIX_SHELL_NAMES then Some (head + 2) else None)
                   else if headBasename \<in> set POSIX_SHELL_NAMES then Some (head + 1) else None)
           in case cFlagIdx of
                None \<Rightarrow> candidates
              | Some c \<Rightarrow>
                  if length tokens - 1 \<le> c \<or> tokens ! c \<noteq> ''-c'' then candidates
                  else push_candidate
                    (js_trim (peel_quotes (js_trim (token_raw cmd (shellTokens ! (c + 1)))))) candidates)"

definition PS_BOOLEAN_FLAGS :: "string list" where
  "PS_BOOLEAN_FLAGS = [''-noprofile'', ''-noninteractive'', ''-nologo'', ''-noexit'', ''-sta'', ''-mta'']"

datatype command_flag = PlainCommand | EncodedCommand

text \<open>The walk over the flags: which kind of payload starts at which index.\<close>

fun cmdFlagWalk :: "string list \<Rightarrow> nat \<Rightarrow> (command_flag \<times> nat) option" where
  "cmdFlagWalk [] i = None"
| "cmdFlagWalk (tok # rest) i =
     (if to_lower tok = ''/c'' \<or> to_lower tok = ''/k'' then Some (PlainCommand, i + 1)
      else if starts_with ''/'' tok then cmdFlagWalk rest (i + 1)
      else None)"

definition is_encoded_flag :: "string \<Rightarrow> bool" where
  "is_encoded_flag t \<longleftrightarrow> t = ''-e'' \<or> t = ''-ec''
     \<or> (4 \<le> length t \<and> starts_with ''-enc'' t \<and> starts_with (drop 1 t) ''encodedcommand'')"

fun pwshFlagWalk :: "string list \<Rightarrow> nat \<Rightarrow> (command_flag \<times> nat) option" where
  "pwshFlagWalk [] i = None"
| "pwshFlagWalk (tok # rest) i =
     (if to_lower tok = ''-command'' \<or> to_lower tok = ''-c'' then Some (PlainCommand, i + 1)
      else if is_encoded_flag (to_lower tok) then Some (EncodedCommand, i + 1)
      else if starts_with ''-'' tok then
        (if to_lower tok \<in> set PS_BOOLEAN_FLAGS then pwshFlagWalk rest (i + 1)
         else if token_or_empty rest \<noteq> [] \<and> \<not> starts_with ''-'' (token_or_empty rest)
           then pwshFlagWalk (drop 1 rest) (i + 2)
         else pwshFlagWalk rest (i + 1))
      else Some (PlainCommand, i))"

definition strip_two_ends :: "string \<Rightarrow> string option" where
  "strip_two_ends t =
     (let inner = js_trim (slice 2 (length t - 2) t) in if inner = [] then None else Some inner)"

definition stripEscapedQuotes :: "string \<Rightarrow> string option" where
  "stripEscapedQuotes s =
     (let t = js_trim s
      in if length t < 4 then None
         else if starts_with [BS, DQ] t \<and> ends_with [BS, DQ] t then strip_two_ends t
         else if starts_with [BS, SQ] t \<and> ends_with [BS, SQ] t then strip_two_ends t
         else None)"

definition is_base64 :: "string \<Rightarrow> bool" where
  "is_base64 s \<longleftrightarrow> s \<noteq> [] \<and> list_all (\<lambda>c. is_alnum c \<or> c \<in> set ''+/='') s"

definition decodeEncodedCommand ::
    "(string \<Rightarrow> string) \<Rightarrow> (string \<Rightarrow> string) \<Rightarrow> string \<Rightarrow> string list" where
  "decodeEncodedCommand decode16 decode8 payload =
     (let t = js_trim payload;
          raw = (if (starts_with [DQ] t \<and> ends_with [DQ] t) \<or> (starts_with [SQ] t \<and> ends_with [SQ] t)
                 then slice 1 (length t - 1) t else t)
      in if \<not> is_base64 raw \<or> length raw mod 4 \<noteq> 0 then []
         else push_candidate (decode8 raw) (push_candidate (decode16 raw) []))"

text \<open>The two patterns for a descriptor redirection after one quoted payload.\<close>

definition descriptor_redirect :: "string \<Rightarrow> bool" where
  "descriptor_redirect trailing =
     (let t = dropWhile js_ws trailing
      in t \<noteq> trailing
         \<and> (list_ex (\<lambda>x. starts_with x t
                 \<and> char_at (dropWhile js_ws (drop (length x) t)) 0 \<in> {None, Some (CHR '';'')})
               [''2>&1'', ''1>&2'', ''*>&1'']
            \<or> list_ex (\<lambda>x. starts_with x t \<and> dropWhile js_ws (drop (length x) t) = [])
               [''1'', ''2'', ''*'']))"

text \<open>The plain payload from token \<open>i\<close> on: up to three forms of it.\<close>

definition pushPlainPayload :: "string \<Rightarrow> shell_token list \<Rightarrow> bool \<Rightarrow> nat \<Rightarrow> string list \<Rightarrow> string list" where
  "pushPlainPayload cmd shellTokens isCmdExe i candidates =
     (let first = shellTokens ! i;
          raw = slice (tokenStart first) (tokenEnd (last shellTokens)) cmd;
          rawPayload = js_trim (if i = length shellTokens - 1 then peel_quotes raw else raw)
      in if rawPayload = [] then candidates
         else
           let pushed = push_candidate rawPayload candidates;
               firstPayload = token_raw cmd first;
               pushed' = (if isCmdExe \<and> is_quoted firstPayload
                            \<and> descriptor_redirect (drop (tokenEnd first) cmd)
                          then push_candidate (js_trim (slice 1 (length firstPayload - 1) firstPayload)) pushed
                          else pushed)
           in case stripEscapedQuotes rawPayload of
                None \<Rightarrow> pushed'
              | Some unescaped \<Rightarrow>
                  if unescaped \<noteq> rawPayload then push_candidate unescaped pushed' else pushed')"

definition pushWindowsShellInner ::
    "(string \<Rightarrow> string) \<Rightarrow> (string \<Rightarrow> string) \<Rightarrow> string \<Rightarrow> string list \<Rightarrow> string list" where
  "pushWindowsShellInner decode16 decode8 cmd candidates =
     (let shellTokens = shellTokenizeWithMetadata cmd; tokens = map tokenValue shellTokens
      in if length tokens < 3 then candidates
         else
           let headLower = to_lower (base_name (peel_quotes (token_raw cmd (shellTokens ! 0))));
               isCmdExe = (headLower \<in> {''cmd'', ''cmd.exe''});
               isPwsh = (headLower \<in> {''powershell'', ''powershell.exe'', ''pwsh'', ''pwsh.exe''})
           in if \<not> isCmdExe \<and> \<not> isPwsh then candidates
              else (case (if isCmdExe then cmdFlagWalk (drop 1 tokens) 1 else pwshFlagWalk (drop 1 tokens) 1) of
                  None \<Rightarrow> candidates
                | Some (flag, i) \<Rightarrow>
                    if length tokens \<le> i then candidates
                    else (case flag of
                        EncodedCommand \<Rightarrow>
                          let encodedRaw = peel_quotes (js_trim (token_raw cmd (shellTokens ! i)))
                          in if encodedRaw = [] then candidates
                             else fold push_candidate (decodeEncodedCommand decode16 decode8 encodedRaw) candidates
                      | PlainCommand \<Rightarrow> pushPlainPayload cmd shellTokens isCmdExe i candidates)))"

section \<open>The worklist\<close>

definition unwrapOneLevel ::
    "(string \<Rightarrow> string) \<Rightarrow> (string \<Rightarrow> string) \<Rightarrow> string \<Rightarrow> string list \<Rightarrow> string list" where
  "unwrapOneLevel decode16 decode8 cmd candidates =
     (let c1 = pushWindowsShellInner decode16 decode8 cmd (pushBashCInner cmd candidates);
          shellTokens = shellTokenizeWithMetadata cmd; tokens = map tokenValue shellTokens
      in if tokens = [] then c1
         else
           let innerIdx = consumeShellWrapperPrefix tokens 0
           in if 0 < innerIdx \<and> innerIdx < length tokens then
                let stripped = js_trim (drop (tokenStart (shellTokens ! innerIdx)) cmd)
                in if stripped \<noteq> [] \<and> stripped \<notin> set c1
                   then pushWindowsShellInner decode16 decode8 stripped
                          (pushBashCInner stripped (c1 @ [stripped]))
                   else c1
              else c1)"

definition MAX_UNWRAP_DEPTH :: nat where
  "MAX_UNWRAP_DEPTH = 4"

text \<open>
  The worklist holds commands with their depth; the commands a round adds to the candidates are
  queued one level deeper.
\<close>

definition work_weight :: "(string \<times> nat) list \<Rightarrow> nat multiset" where
  "work_weight worklist = mset (map (\<lambda>(c, d). 5 - d) worklist)"

lemma work_weight_drop: "(work_weight worklist, work_weight ((cmd, d) # worklist)) \<in> mult less_than"
  using one_step_implies_mult [of "{#5 - d#}" "{#}" less_than "work_weight worklist"]
  by (simp add: work_weight_def)

lemma work_weight_expand:
  assumes "d < MAX_UNWRAP_DEPTH"
  shows "(work_weight (worklist @ map (\<lambda>c. (c, Suc d)) new), work_weight ((cmd, d) # worklist))
    \<in> mult less_than"
proof -
  have "(work_weight worklist + work_weight (map (\<lambda>c. (c, Suc d)) new), work_weight worklist + {#5 - d#})
      \<in> mult less_than"
    using assms by (intro one_step_implies_mult) (auto simp: work_weight_def MAX_UNWRAP_DEPTH_def)
  then show ?thesis by (simp add: work_weight_def)
qed

function unwrapLoop ::
    "(string \<Rightarrow> string) \<Rightarrow> (string \<Rightarrow> string) \<Rightarrow> (string \<times> nat) list \<Rightarrow> string list \<Rightarrow> string list" where
  "unwrapLoop decode16 decode8 [] candidates = candidates"
| "unwrapLoop decode16 decode8 ((cmd, depth) # worklist) candidates =
     (if MAX_UNWRAP_DEPTH \<le> depth then unwrapLoop decode16 decode8 worklist candidates
      else let candidates' = unwrapOneLevel decode16 decode8 cmd candidates
        in unwrapLoop decode16 decode8
             (worklist @ map (\<lambda>c. (c, depth + 1)) (drop (length candidates) candidates')) candidates')"
  by pat_completeness auto
termination
proof (relation "inv_image (mult less_than) (\<lambda>(a, b, worklist, c). work_weight worklist)")
  show "wf (inv_image (mult less_than) (\<lambda>(a, b, worklist, c). work_weight worklist))"
    by (intro wf_inv_image wf_mult wf_less_than)
qed (simp_all add: work_weight_drop work_weight_expand)

definition unwrapCommandWrappers ::
    "(string \<Rightarrow> string) \<Rightarrow> (string \<Rightarrow> string) \<Rightarrow> string \<Rightarrow> string list" where
  "unwrapCommandWrappers decode16 decode8 command =
     (let cmd = js_trim command in unwrapLoop decode16 decode8 [(cmd, 0)] [cmd])"

section \<open>Where the inner command starts\<close>

text \<open>A transparent wrapper at \<open>i\<close>, with its flags, ends at \<open>j\<close>, and a token is left.\<close>

definition TRANSPARENT :: "string list" where
  "TRANSPARENT = [''xargs'', ''nohup'', ''setsid'', ''command'', ''nice'', ''timeout'', ''parallel'', ''watch'']"

definition wraps :: "string list \<Rightarrow> nat \<Rightarrow> nat \<Rightarrow> bool" where
  "wraps tokens i j \<longleftrightarrow> i < length tokens \<and> tokens ! i \<noteq> []
     \<and> to_lower (exe_name (tokens ! i)) \<in> set TRANSPARENT
     \<and> wrapperNext tokens i = Some j \<and> i < j \<and> j < length tokens"

definition no_wrapper_at :: "string list \<Rightarrow> nat \<Rightarrow> bool" where
  "no_wrapper_at tokens i \<longleftrightarrow> (\<forall>j. \<not> wraps tokens i j)"

lemma wrapperNext_transparent:
  "wrapperNext tokens i = Some j \<Longrightarrow> to_lower (exe_name (tokens ! i)) \<in> set TRANSPARENT"
  by (auto simp: wrapperNext_def TRANSPARENT_def Let_def split: if_splits)

inductive wrap_steps :: "string list \<Rightarrow> nat \<Rightarrow> nat \<Rightarrow> nat \<Rightarrow> bool" for tokens where
  wrap_done: "wrap_steps tokens 0 i i"
| wrap_step: "wraps tokens i j \<Longrightarrow> wrap_steps tokens n j k \<Longrightarrow> wrap_steps tokens (Suc n) i k"

inductive_cases wrap_steps_cases: "wrap_steps tokens n i k"

lemma wrapperLoop_step:
  "wrapperLoop (Suc n) tokens i = (case wrapperNext tokens i of
     Some j \<Rightarrow> if wraps tokens i j then wrapperLoop n tokens j else i | None \<Rightarrow> i)"
  by (auto simp: wraps_def wrapperNext_transparent split: option.split)

lemma wrapperLoop_steps:
  "\<exists>n. wrap_steps tokens n i (wrapperLoop fuel tokens i) \<and> n \<le> fuel
     \<and> (n < fuel \<longrightarrow> (\<forall>j. \<not> wraps tokens (wrapperLoop fuel tokens i) j))"
proof (induction fuel arbitrary: i)
  case 0
  then show ?case by (auto intro: wrap_done)
next
  case (Suc fuel)
  show ?case
  proof (cases "\<exists>j. wraps tokens i j")
    case False
    then have "wrapperLoop (Suc fuel) tokens i = i"
      by (auto simp del: wrapperLoop.simps simp: wrapperLoop_step split: option.split)
    with False show ?thesis by (auto intro: wrap_done)
  next
    case True
    then obtain j where j: "wraps tokens i j" by blast
    then have "wrapperLoop (Suc fuel) tokens i = wrapperLoop fuel tokens j"
      by (simp add: wraps_def)
    moreover obtain n where "wrap_steps tokens n j (wrapperLoop fuel tokens j)" "n \<le> fuel"
      "n < fuel \<longrightarrow> (\<forall>k. \<not> wraps tokens (wrapperLoop fuel tokens j) k)"
      using Suc.IH [of j] by blast
    ultimately show ?thesis
      using wrap_step [OF j] by (intro exI [of _ "Suc n"]) auto
  qed
qed

lemma wrap_steps_bounds: "wrap_steps tokens n i k \<Longrightarrow> i \<le> k \<and> (i < length tokens \<longrightarrow> k < length tokens)"
  by (induction rule: wrap_steps.induct) (auto simp: wraps_def)

section \<open>Candidates are never lost\<close>

text \<open>Each push extends the list by new, non-empty, pairwise different candidates.\<close>

definition grows :: "string list \<Rightarrow> string list \<Rightarrow> bool" where
  "grows cs cs' \<longleftrightarrow> (\<exists>new. cs' = cs @ new) \<and> (distinct cs \<longrightarrow> distinct cs')"

lemma grows_refl [simp]: "grows cs cs"
  by (auto simp: grows_def)

lemma grows_trans: "grows a b \<Longrightarrow> grows b c \<Longrightarrow> grows a c"
  by (auto simp: grows_def)

lemma grows_push [simp]: "grows cs (push_candidate s cs)"
  by (auto simp: grows_def push_candidate_def)

lemma grows_pushed: "grows cs cs' \<Longrightarrow> grows cs (push_candidate s cs')"
  by (erule grows_trans) simp

lemma grows_fold_push: "grows cs (fold push_candidate ss cs)"
  by (induction ss arbitrary: cs) (auto intro: grows_trans grows_push)

lemma grows_bash: "grows cs (pushBashCInner cmd cs)"
  by (auto simp: pushBashCInner_def Let_def split: option.split)

lemma grows_plain: "grows cs (pushPlainPayload cmd ts b i cs)"
  unfolding pushPlainPayload_def Let_def by (simp split: option.split add: grows_pushed)

lemma grows_windows: "grows cs (pushWindowsShellInner d16 d8 cmd cs)"
  unfolding pushWindowsShellInner_def Let_def
  by (auto split: option.split prod.split command_flag.split simp: grows_plain grows_fold_push)

lemma level_extends:
  "grows (pushWindowsShellInner d16 d8 cmd (pushBashCInner cmd cs)) (unwrapOneLevel d16 d8 cmd cs)"
proof -
  have "s \<notin> set c1 \<Longrightarrow> grows c1 (pushWindowsShellInner d16 d8 s (pushBashCInner s (c1 @ [s])))" for s c1
    by (rule grows_trans [of _ "c1 @ [s]"]) (auto simp: grows_def [of c1] intro: grows_trans [OF grows_bash grows_windows])
  then show ?thesis unfolding unwrapOneLevel_def Let_def by auto
qed

lemma grows_level: "grows cs (unwrapOneLevel d16 d8 cmd cs)"
  by (rule grows_trans [OF grows_trans [OF grows_bash grows_windows] level_extends])

lemma grows_loop: "grows cs (unwrapLoop d16 d8 worklist cs)"
proof (induction d16 d8 worklist cs rule: unwrapLoop.induct)
  case (2 d16 d8 cmd depth worklist cs)
  then show ?case
    using grows_trans [OF grows_level [of cs d16 d8 cmd]]
    by (cases "MAX_UNWRAP_DEPTH \<le> depth") (simp_all add: Let_def)
qed simp

lemma grows_set: "grows cs cs' \<Longrightarrow> set cs \<subseteq> set cs'"
  by (auto simp: grows_def)

lemma unwrap_first_level:
  "set (unwrapOneLevel d16 d8 (js_trim command) [js_trim command])
     \<subseteq> set (unwrapCommandWrappers d16 d8 command)"
proof -
  let ?c = "js_trim command"
  have "\<not> MAX_UNWRAP_DEPTH \<le> 0" by (simp add: MAX_UNWRAP_DEPTH_def)
  then have "\<exists>wl. unwrapCommandWrappers d16 d8 command = unwrapLoop d16 d8 wl (unwrapOneLevel d16 d8 ?c [?c])"
    unfolding unwrapCommandWrappers_def Let_def unwrapLoop.simps(2) by auto
  then show ?thesis using grows_set [OF grows_loop] by fastforce
qed

section \<open>An inline payload is exposed\<close>

lemma scan_in_single:
  "in_single st \<Longrightarrow> tokCurrentStart st = Some b \<Longrightarrow> SQ \<notin> set p \<Longrightarrow>
   scan tokBody i (p @ rest) st
     = scan tokBody (i + length p) rest (st\<lparr>tokCurrent := tokCurrent st @ p\<rparr>)"
proof (induction p arbitrary: i st)
  case (Cons c p)
  then have "tokBody i c (p @ rest) st = (0, st\<lparr>tokCurrent := tokCurrent st @ [c]\<rparr>)"
    by (auto simp: tokBody_def in_single_def startCurrent_def Let_def)
  then show ?case
    using Cons.IH [of "st\<lparr>tokCurrent := tokCurrent st @ [c]\<rparr>" "Suc i"] Cons.prems
    by (simp add: in_single_def)
qed simp

lemma tokens_inline:
  assumes "sh \<in> set POSIX_SHELL_NAMES" "p \<noteq> []" "SQ \<notin> set p"
  shows "shellTokenizeWithMetadata (sh @ '' -c '' @ SQ # p @ [SQ]) =
    [\<lparr>tokenValue = sh, tokenStart = 0, tokenEnd = length sh, tokenQuoted = False\<rparr>,
     \<lparr>tokenValue = ''-c'', tokenStart = length sh + 1, tokenEnd = length sh + 3, tokenQuoted = False\<rparr>,
     \<lparr>tokenValue = p, tokenStart = length sh + 4, tokenEnd = length sh + 6 + length p, tokenQuoted = True\<rparr>]"
  using assms
  by (auto simp: POSIX_SHELL_NAMES_def shellTokenizeWithMetadata_def tokBody_def tokInit_def
      startCurrent_def flushCurrent_def isShellWhitespace_def code_def Let_def scan_in_single in_single_def)

lemma inline_raw: "slice (length sh + 4) (length sh + 6 + length p) (sh @ '' -c '' @ SQ # p @ [SQ]) = SQ # p @ [SQ]"
proof -
  have "sh @ '' -c '' @ SQ # p @ [SQ] = (sh @ '' -c '') @ (SQ # p @ [SQ])" by simp
  moreover have "length sh + 4 = length (sh @ '' -c '')" by simp
  ultimately show ?thesis unfolding slice_def by (simp only: append_eq_conv_conj) simp
qed

lemma peel_single: "peel_quotes (SQ # p @ [SQ]) = p"
  by (simp add: peel_quotes_def is_quoted_def slice_def)

lemma inline_head:
  assumes "sh \<in> set POSIX_SHELL_NAMES"
  shows "to_lower (base_name (peel_quotes (slice 0 (length sh) (sh @ rest)))) = sh"
    and "to_lower sh \<noteq> ''sudo''" and "sh \<noteq> ''busybox''"
  using assms by (auto simp: POSIX_SHELL_NAMES_def slice_def peel_quotes_def is_quoted_def base_name_def
      to_lower_def char_lower_def is_upper_def code_def)

lemma bash_inner:
  assumes "sh \<in> set POSIX_SHELL_NAMES" "p \<noteq> []" "trimmed p" "SQ \<notin> set p"
  shows "pushBashCInner (sh @ '' -c '' @ SQ # p @ [SQ]) cs = push_candidate p cs"
proof -
  have "js_trim (SQ # p @ [SQ]) = SQ # p @ [SQ]" by (rule trim_trimmed) (simp add: trimmed_def)
  then show ?thesis
    using tokens_inline [OF assms(1,2,4)] inline_head(1) [OF assms(1), of "'' -c '' @ SQ # p @ [SQ]"]
      inline_head(2,3) [OF assms(1)]
      assms(1) inline_raw [of sh p] trim_trimmed [OF assms(3)]
    by (simp add: pushBashCInner_def token_raw_def Let_def peel_single del: append.append_Cons append_Cons)
qed

lemma inline_exposed:
  assumes "sh \<in> set POSIX_SHELL_NAMES" "p \<noteq> []" "trimmed p" "SQ \<notin> set p"
  shows "p \<in> set (unwrapCommandWrappers d16 d8 (sh @ '' -c '' @ SQ # p @ [SQ]))"
proof -
  let ?cmd = "sh @ '' -c '' @ SQ # p @ [SQ]"
  have "trimmed ?cmd" using assms(1) by (auto simp: trimmed_def POSIX_SHELL_NAMES_def js_ws_def)
  then have trim: "js_trim ?cmd = ?cmd" by (rule trim_trimmed)
  have "p \<noteq> ?cmd"
  proof
    assume "p = ?cmd"
    from arg_cong [OF this, of length] show False by simp
  qed
  then have "p \<in> set (pushBashCInner ?cmd [?cmd])"
    using bash_inner [OF assms] assms(2) by (simp add: push_candidate_def)
  moreover have "set (pushBashCInner ?cmd [?cmd]) \<subseteq> set (unwrapOneLevel d16 d8 ?cmd [?cmd])"
    by (rule grows_set [OF grows_trans [OF grows_windows level_extends]])
  ultimately show ?thesis using unwrap_first_level [of d16 d8 ?cmd] unfolding trim by blast
qed

section \<open>Properties\<close>

text \<open>
  \<open>consumeShellWrapperPrefix\<close> steps over at most four transparent wrappers with their flags, each
  step moving forward and leaving a token; unless it has used its four steps it stops where no
  wrapper starts.  A word that is not one of the transparent wrappers (\<open>sudo\<close>, \<open>exec\<close>, ...) is never
  the start of a step.
\<close>

theorem wrapper_prefix:
  "\<exists>n. wrap_steps tokens n i (consumeShellWrapperPrefix tokens i) \<and> n \<le> 4
     \<and> (n = 4 \<or> no_wrapper_at tokens (consumeShellWrapperPrefix tokens i))
     \<and> i \<le> consumeShellWrapperPrefix tokens i"
proof -
  obtain n where "wrap_steps tokens n i (consumeShellWrapperPrefix tokens i)" "n \<le> 4"
    "n < 4 \<longrightarrow> no_wrapper_at tokens (consumeShellWrapperPrefix tokens i)"
    using wrapperLoop_steps [of tokens i 4] by (auto simp: consumeShellWrapperPrefix_def no_wrapper_at_def)
  then show ?thesis
    using wrap_steps_bounds by (intro exI [of _ n]) auto
qed

text \<open>
  The safety scans always see the whole command: it is the first candidate, and every other
  candidate is listed once.
\<close>

theorem unwrap_keeps_command:
  "(\<exists>inner. unwrapCommandWrappers d16 d8 command = js_trim command # inner)
   \<and> distinct (unwrapCommandWrappers d16 d8 command)"
  using grows_loop [of "[js_trim command]" d16 d8 "[(js_trim command, 0)]"]
  by (auto simp: grows_def unwrapCommandWrappers_def Let_def)

text \<open>
  The payload of \<open>sh -c '...'\<close>, for each of the POSIX shells, is among the candidates.
\<close>

theorem inline_payload_exposed:
  "sh \<in> set POSIX_SHELL_NAMES \<Longrightarrow> p \<noteq> [] \<Longrightarrow> trimmed p \<Longrightarrow> SQ \<notin> set p \<Longrightarrow>
   p \<in> set (unwrapCommandWrappers d16 d8 (sh @ '' -c '' @ SQ # p @ [SQ]))"
  by (rule inline_exposed)

lemma inline_payload_exposed_witness:
  "''rm -rf /etc'' \<in> set (unwrapCommandWrappers (\<lambda>s. []) (\<lambda>s. s) (''zsh'' @ '' -c '' @ SQ # ''rm -rf /etc'' @ [SQ]))"
  by (rule inline_payload_exposed) (simp_all add: POSIX_SHELL_NAMES_def trimmed_def js_ws_def)

end
