(* ===== verification/ShellAst.thy ===== *)
theory ShellAst
  imports ShellSplit
begin

text \<open>
  The conservative parser for word-only scripts:
  \<open>packages/agent-modules/permission/src/tools/bash-ast.ts\<close>.  \<open>parseScriptPlainCommands\<close> rejects
  expansions, redirections and grouping, splits at the plain operators and reads each command's
  words; the heredoc fallback reads the words before a \<open><<\<close>.
\<close>

section \<open>The reject scan\<close>

record quote_scan =
  scanSingle :: bool
  scanDouble :: bool
  scanEscaped :: bool

definition scanInit :: quote_scan where
  "scanInit = \<lparr>scanSingle = False, scanDouble = False, scanEscaped = False\<rparr>"

text \<open>
  The quote handling that starts the body of most loops of the file: the new state when the
  character is consumed by it, \<open>None\<close> when the rest of the body runs.
\<close>

definition quoteStep :: "char \<Rightarrow> quote_scan \<Rightarrow> quote_scan option" where
  "quoteStep ch q =
     (if scanEscaped q then Some (q\<lparr>scanEscaped := False\<rparr>)
      else if ch = BS \<and> \<not> scanSingle q then Some (q\<lparr>scanEscaped := True\<rparr>)
      else if ch = SQ \<and> \<not> scanDouble q then Some (q\<lparr>scanSingle := \<not> scanSingle q\<rparr>)
      else if ch = DQ \<and> \<not> scanSingle q then Some (q\<lparr>scanDouble := \<not> scanDouble q\<rparr>)
      else None)"

text \<open>\<open>prev\<close> is the character before, for the test of a lone \<open>&\<close>.\<close>

fun forbiddenFrom :: "char option \<Rightarrow> string \<Rightarrow> quote_scan \<Rightarrow> bool" where
  "forbiddenFrom prev [] q = (scanSingle q \<or> scanDouble q \<or> scanEscaped q)"
| "forbiddenFrom prev (ch # rest) q =
     (case quoteStep ch q of
        Some q' \<Rightarrow> forbiddenFrom (Some ch) rest q'
      | None \<Rightarrow>
          if scanSingle q then forbiddenFrom (Some ch) rest q
          else if ch = CHR ''$'' then True
          else if ch = BT then True
          else if scanDouble q then forbiddenFrom (Some ch) rest q
          else if ch = CHR ''>'' \<or> ch = CHR ''<'' then True
          else if ch \<in> set ''(){}'' then True
          else if ch = CHR ''&'' \<and> char_at rest 0 \<noteq> Some (CHR ''&'') \<and> prev \<noteq> Some (CHR ''&'') then True
          else forbiddenFrom (Some ch) rest q)"

definition containsForbiddenConstruct :: "string \<Rightarrow> bool" where
  "containsForbiddenConstruct script = forbiddenFrom None script scanInit"

section \<open>Segments and words\<close>

text \<open>The loop of \<open>splitTopLevelSegments\<close>: segments so far, the current one, the quote state.\<close>

fun segmentsFrom :: "string list \<Rightarrow> string \<Rightarrow> string \<Rightarrow> quote_scan \<Rightarrow> string list option" where
  "segmentsFrom segments current [] q =
     (if js_trim current = [] then (if segments \<noteq> [] then None else Some [])
      else Some (segments @ [current]))"
| "segmentsFrom segments current (ch # rest) q =
     (case quoteStep ch q of
        Some q' \<Rightarrow> segmentsFrom segments (current @ [ch]) rest q'
      | None \<Rightarrow>
          if scanSingle q \<or> scanDouble q then segmentsFrom segments (current @ [ch]) rest q
          else if (ch = CHR ''&'' \<and> char_at rest 0 = Some (CHR ''&''))
               \<or> (ch = CHR ''|'' \<and> char_at rest 0 = Some (CHR ''|'')) then
            (if js_trim current = [] then None else segmentsFrom (segments @ [current]) [] (drop 1 rest) q)
          else if ch = CHR ''|'' \<or> ch = CHR '';'' then
            (if js_trim current = [] then None else segmentsFrom (segments @ [current]) [] rest q)
          else segmentsFrom segments (current @ [ch]) rest q)"

definition splitTopLevelSegments :: "string \<Rightarrow> string list option" where
  "splitTopLevelSegments script = segmentsFrom [] [] script scanInit"

definition isWhitespace :: "char \<Rightarrow> bool" where
  "isWhitespace ch \<longleftrightarrow> code ch = 32 \<or> (9 \<le> code ch \<and> code ch \<le> 13)"

text \<open>The loop of \<open>parsePlainCommandWords\<close>; \<open>current\<close> is \<open>None\<close> while there is no token.\<close>

fun wordsFrom :: "string list \<Rightarrow> string option \<Rightarrow> string \<Rightarrow> quote_scan \<Rightarrow> string list option" where
  "wordsFrom ws current [] q =
     (if scanSingle q \<or> scanDouble q \<or> scanEscaped q then None
      else Some (case current of None \<Rightarrow> ws | Some w \<Rightarrow> ws @ [w]))"
| "wordsFrom ws current (ch # rest) q =
     (let text = or_default current [] in
      if scanEscaped q then wordsFrom ws (Some (text @ [ch])) rest (q\<lparr>scanEscaped := False\<rparr>)
      else if ch = BS \<and> \<not> scanSingle q then wordsFrom ws (Some text) rest (q\<lparr>scanEscaped := True\<rparr>)
      else if ch = SQ \<and> \<not> scanDouble q then wordsFrom ws (Some text) rest (q\<lparr>scanSingle := \<not> scanSingle q\<rparr>)
      else if ch = DQ \<and> \<not> scanSingle q then wordsFrom ws (Some text) rest (q\<lparr>scanDouble := \<not> scanDouble q\<rparr>)
      else if \<not> scanSingle q \<and> \<not> scanDouble q \<and> isWhitespace ch then
        wordsFrom (case current of None \<Rightarrow> ws | Some w \<Rightarrow> ws @ [w]) None rest q
      else wordsFrom ws (Some (text @ [ch])) rest q)"

definition parsePlainCommandWords :: "string \<Rightarrow> string list option" where
  "parsePlainCommandWords command = wordsFrom [] None command scanInit"

definition isAssignmentPrefix :: "string \<Rightarrow> bool" where
  "isAssignmentPrefix word =
     (case word of [] \<Rightarrow> False
      | c # cs \<Rightarrow> (is_alpha c \<or> c = CHR ''_'')
          \<and> char_at (dropWhile (\<lambda>x. is_alnum x \<or> x = CHR ''_'') cs) 0 = Some (CHR ''=''))"

text \<open>The words of one segment, with the three reasons to give up.\<close>

definition segmentWords :: "string \<Rightarrow> string list option" where
  "segmentWords segment =
     (if js_trim segment = [] then None
      else case parsePlainCommandWords (js_trim segment) of
          None \<Rightarrow> None
        | Some ws \<Rightarrow> if ws = [] \<or> isAssignmentPrefix (hd ws) then None else Some ws)"

fun allSegmentWords :: "string list \<Rightarrow> string list list option" where
  "allSegmentWords [] = Some []"
| "allSegmentWords (segment # segments) =
     (case segmentWords segment of
        None \<Rightarrow> None
      | Some ws \<Rightarrow> map_option (Cons ws) (allSegmentWords segments))"

definition parseScriptPlainCommands :: "string \<Rightarrow> string list list option" where
  "parseScriptPlainCommands script =
     (if containsForbiddenConstruct script then None
      else case splitTopLevelSegments script of
          None \<Rightarrow> None
        | Some segments \<Rightarrow> if segments = [] then None else allSegmentWords segments)"

section \<open>Scripts of an inline shell\<close>

definition KNOWN_SHELLS :: "string list" where
  "KNOWN_SHELLS = [''bash'', ''zsh'', ''sh'']"

definition basename :: "string \<Rightarrow> string" where
  "basename p = rev (takeWhile (\<lambda>c. c \<noteq> CHR ''/'') (rev (map (\<lambda>c. if c = BS then CHR ''/'' else c) p)))"

definition extractBashCommand :: "string list \<Rightarrow> (string \<times> string) option" where
  "extractBashCommand command =
     (case command of
        [shell, flag, script] \<Rightarrow>
          if flag \<noteq> ''-lc'' \<and> flag \<noteq> ''-c'' then None
          else if basename shell \<notin> set KNOWN_SHELLS then None
          else Some (shell, script)
      | _ \<Rightarrow> None)"

definition parseShellLcPlainCommands :: "string list \<Rightarrow> string list list option" where
  "parseShellLcPlainCommands command =
     (case extractBashCommand command of
        None \<Rightarrow> None
      | Some (shell, script) \<Rightarrow> parseScriptPlainCommands script)"

section \<open>The heredoc fallback\<close>

text \<open>
  A match of \<open>/<<[-~]?\s*(['"]?)([A-Za-z_][A-Za-z0-9_]*)\1/\<close> at the front of a text: the delimiter
  and the text after the match.
\<close>

definition heredocName :: "string \<Rightarrow> (string \<times> string) option" where
  "heredocName r =
     (let quoted = (char_at r 0 \<in> {Some SQ, Some DQ});
          r' = (if quoted then drop 1 r else r);
          name = takeWhile (\<lambda>x. is_alnum x \<or> x = CHR ''_'') r';
          after = drop (length name) r'
      in if name = [] \<or> is_digit (hd name) then None
         else if \<not> quoted then Some (name, after)
         else if char_at after 0 = char_at r 0 then Some (name, drop 1 after)
         else None)"

definition heredocAt :: "string \<Rightarrow> (string \<times> string) option" where
  "heredocAt s =
     (if \<not> starts_with ''<<'' s then None
      else let r = drop 2 s
        in heredocName (dropWhile js_ws
             (if char_at r 0 \<in> {Some (CHR ''-''), Some (CHR ''~'')} then drop 1 r else r)))"

lemma heredocName_length: "heredocName r = Some (d, r') \<Longrightarrow> length r' \<le> length r"
  by (auto simp: heredocName_def Let_def split: if_splits)

lemma heredocAt_shorter:
  assumes "heredocAt s = Some (d, r)"
  shows "length r < length s"
proof -
  obtain j where j: "2 \<le> j" "heredocName (dropWhile js_ws (drop j s)) = Some (d, r)"
  proof
    show "2 \<le> (if char_at (drop 2 s) 0 \<in> {Some (CHR ''-''), Some (CHR ''~'')} then 3 else 2::nat)" by simp
    show "heredocName (dropWhile js_ws
        (drop (if char_at (drop 2 s) 0 \<in> {Some (CHR ''-''), Some (CHR ''~'')} then 3 else 2) s)) = Some (d, r)"
      using assms by (auto simp: heredocAt_def Let_def numeral_3_eq_3 split: if_splits)
  qed
  have "2 \<le> length s"
    using assms by (cases s; cases "tl s") (auto simp: heredocAt_def split: if_splits)
  moreover have "length r \<le> length s - j"
    using heredocName_length [OF j(2)] length_dropWhile_le [of js_ws "drop j s"] by simp
  ultimately show ?thesis using j(1) by simp
qed

fun heredocDelimiter :: "string \<Rightarrow> string option" where
  "heredocDelimiter [] = None"
| "heredocDelimiter (c # s) =
     (case heredocAt (c # s) of Some (d, r) \<Rightarrow> Some d | None \<Rightarrow> heredocDelimiter s)"

function removeHeredocOps :: "string \<Rightarrow> string" where
  "removeHeredocOps [] = []"
| "removeHeredocOps (c # s) =
     (case heredocAt (c # s) of Some (d, r) \<Rightarrow> removeHeredocOps r | None \<Rightarrow> c # removeHeredocOps s)"
  by pat_completeness auto
termination by (relation "measure length") (auto dest: heredocAt_shorter)

text \<open>\<open>/<<[-~]?/g\<close> removed, and \<open>/\r?\n/g\<close> replaced by a semicolon.\<close>

fun removeRedirectOps :: "string \<Rightarrow> string" where
  "removeRedirectOps [] = []"
| "removeRedirectOps (c # s) =
     (if c = CHR ''<'' \<and> char_at s 0 = Some (CHR ''<'') then
        (if char_at s 1 \<in> {Some (CHR ''-''), Some (CHR ''~'')} then removeRedirectOps (drop 2 s)
         else removeRedirectOps (drop 1 s))
      else c # removeRedirectOps s)"

fun newlinesToSemicolons :: "string \<Rightarrow> string" where
  "newlinesToSemicolons [] = []"
| "newlinesToSemicolons (c # s) =
     (if c = CR \<and> char_at s 0 = Some LF then CHR '';'' # newlinesToSemicolons (drop 1 s)
      else if c = LF then CHR '';'' # newlinesToSemicolons s
      else c # newlinesToSemicolons s)"

definition stripHeredocBodies :: "string \<Rightarrow> string" where
  "stripHeredocBodies script =
     (case (heredocDelimiter script, index_of script [LF] 0) of
        (Some delimiter, Some headerEnd) \<Rightarrow>
          let header = take headerEnd script;
              lines = js_split [LF] (drop (headerEnd + 1) script);
              after = dropWhile (\<lambda>line. js_trim line \<noteq> delimiter) lines
          in if after = [] then header
             else let tail = js_join [LF] (tl after)
               in if tail \<noteq> [] then header @ [LF] @ tail else header
      | _ \<Rightarrow> script)"

text \<open>\<open>script.includes('<<')\<close>; the regular expression tested before it requires the same text.\<close>

definition hasHeredoc :: "string \<Rightarrow> bool" where
  "hasHeredoc script = str_includes ''<<'' script"

fun redirectFrom :: "string \<Rightarrow> quote_scan \<Rightarrow> bool" where
  "redirectFrom [] q = False"
| "redirectFrom (ch # rest) q =
     (case quoteStep ch q of
        Some q' \<Rightarrow> redirectFrom rest q'
      | None \<Rightarrow>
          if scanSingle q \<or> scanDouble q then redirectFrom rest q
          else if ch = CHR ''>'' \<or> ch = CHR ''<'' then True
          else redirectFrom rest q)"

definition hasFileRedirect :: "string \<Rightarrow> bool" where
  "hasFileRedirect script = redirectFrom (removeRedirectOps (stripHeredocBodies script)) scanInit"

fun expansionFrom :: "string \<Rightarrow> quote_scan \<Rightarrow> bool" where
  "expansionFrom [] q = False"
| "expansionFrom (ch # rest) q =
     (case quoteStep ch q of
        Some q' \<Rightarrow> expansionFrom rest q'
      | None \<Rightarrow>
          if scanSingle q then expansionFrom rest q
          else if ch = CHR ''$'' \<or> ch = BT then True
          else expansionFrom rest q)"

definition containsExpansionOrSubstitution :: "string \<Rightarrow> bool" where
  "containsExpansionOrSubstitution text = expansionFrom text scanInit"

text \<open>\<open>None\<close> for the result \<open>-1\<close>.\<close>

definition countTopLevelCommands :: "string \<Rightarrow> nat option" where
  "countTopLevelCommands script =
     map_option (\<lambda>segments. length (filter (\<lambda>segment. js_trim segment \<noteq> []) segments))
       (splitTopLevelSegments (newlinesToSemicolons script))"

definition parseShellLcSingleCommandPrefix :: "string list \<Rightarrow> string list option" where
  "parseShellLcSingleCommandPrefix command =
     (case extractBashCommand command of
        None \<Rightarrow> None
      | Some (shell, script) \<Rightarrow>
          let withoutBodies = stripHeredocBodies script;
              header = js_trim (take (or_default (index_of script ''<<'' 0) 0) script)
          in if \<not> hasHeredoc script \<or> hasFileRedirect script
                \<or> containsExpansionOrSubstitution withoutBodies
                \<or> countTopLevelCommands (removeHeredocOps withoutBodies) \<noteq> Some 1
                \<or> header = []
                \<or> map_option length (splitTopLevelSegments header) \<noteq> Some 1 then None
             else (case parsePlainCommandWords header of
                 None \<Rightarrow> None
               | Some ws \<Rightarrow> if ws = [] \<or> isAssignmentPrefix (hd ws) then None else Some ws))"

section \<open>Quoted scripts\<close>

definition plain_end :: "char \<Rightarrow> bool" where
  "plain_end c \<longleftrightarrow> c = SQ \<or> quote_safe c \<or> c = SP"

abbreviation in_single_scan :: quote_scan where
  "in_single_scan \<equiv> scanInit\<lparr>scanSingle := True\<rparr>"

lemma quoteStep_safe [simp]: "quote_safe c \<Longrightarrow> quoteStep c scanInit = None"
  using quote_safe_split [of c] by (simp add: quoteStep_def scanInit_def)

lemma quoteStep_simps [simp]:
  "quoteStep SQ scanInit = Some in_single_scan"
  "quoteStep SQ in_single_scan = Some scanInit"
  "quoteStep BS scanInit = Some (scanInit\<lparr>scanEscaped := True\<rparr>)"
  "quoteStep c (scanInit\<lparr>scanEscaped := True\<rparr>) = Some scanInit"
  "c \<noteq> SQ \<Longrightarrow> quoteStep c in_single_scan = None"
  "quoteStep SP scanInit = None" "quoteStep (CHR '';'') scanInit = None"
  "quoteStep (CHR ''&'') scanInit = None" "quoteStep (CHR ''|'') scanInit = None"
  by (simp_all add: quoteStep_def scanInit_def)

lemma scanInit_flags [simp]:
  "\<not> scanSingle scanInit" "\<not> scanDouble scanInit" "\<not> scanEscaped scanInit"
  by (simp_all add: scanInit_def)

text \<open>The reject scan passes a quoted word.\<close>

lemma forbidden_safe1:
  assumes "quote_safe c"
  shows "forbiddenFrom prev (c # rest) scanInit = forbiddenFrom (Some c) rest scanInit"
proof -
  have "c \<noteq> CHR ''$''" "c \<noteq> BT" "c \<noteq> CHR ''>''" "c \<noteq> CHR ''<''" "c \<notin> set ''(){}''" "c \<noteq> CHR ''&''"
    using quote_safe_split [OF assms] by simp_all
  then show ?thesis using assms by simp
qed

lemma forbidden_safe:
  "list_all quote_safe w \<Longrightarrow> w \<noteq> [] \<Longrightarrow>
   forbiddenFrom prev (w @ rest) scanInit = forbiddenFrom (Some (last w)) rest scanInit"
proof (induction w arbitrary: prev)
  case (Cons c w)
  then show ?case
    by (cases "w = []") (simp_all del: forbiddenFrom.simps add: forbidden_safe1)
qed simp

lemma forbidden_body:
  "\<exists>prev'. forbiddenFrom prev (quote_body w @ SQ # rest) in_single_scan
    = forbiddenFrom (Some SQ) rest scanInit"
proof (induction w arbitrary: prev)
  case Nil
  then show ?case by simp
next
  case (Cons c w)
  then show ?case by (cases "c = SQ") simp_all
qed

lemma forbidden_word:
  "\<exists>c. plain_end c \<and> forbiddenFrom prev (shellQuote w @ rest) scanInit
    = forbiddenFrom (Some c) rest scanInit"
proof (cases "w \<noteq> [] \<and> list_all quote_safe w")
  case True
  then have "plain_end (last w)" by (simp add: plain_end_def list_all_iff)
  then show ?thesis using True forbidden_safe [of w prev rest] by (auto simp: shellQuote_def)
next
  case False
  then show ?thesis using forbidden_body [of "Some SQ" w rest]
    by (intro exI [of _ SQ]) (auto simp: shellQuote_def plain_end_def)
qed

lemma forbidden_line:
  "args \<noteq> [] \<Longrightarrow> \<exists>c. plain_end c \<and> forbiddenFrom prev (command_line args @ rest) scanInit
    = forbiddenFrom (Some c) rest scanInit"
proof (induction args arbitrary: prev)
  case (Cons w args)
  show ?case
  proof (cases "args = []")
    case True
    then show ?thesis using forbidden_word by (simp add: command_line_single)
  next
    case False
    obtain c where "forbiddenFrom prev (shellQuote w @ SP # command_line args @ rest) scanInit
        = forbiddenFrom (Some c) (SP # command_line args @ rest) scanInit"
      using forbidden_word by blast
    then show ?thesis using Cons.IH [OF False, of "Some SP"] False by (simp add: command_line_Cons)
  qed
qed simp

text \<open>The splitter keeps it whole.\<close>

lemma segments_safe:
  "list_all quote_safe w \<Longrightarrow>
   segmentsFrom segs cur (w @ rest) scanInit = segmentsFrom segs (cur @ w) rest scanInit"
proof (induction w arbitrary: cur)
  case (Cons c w)
  then show ?case using quote_safe_split [of c] by simp
qed simp

lemma segments_body:
  "segmentsFrom segs cur (quote_body w @ SQ # rest) in_single_scan
    = segmentsFrom segs (cur @ quote_body w @ [SQ]) rest scanInit"
proof (induction w arbitrary: cur)
  case (Cons c w)
  then show ?case by (cases "c = SQ") simp_all
qed simp

lemma segments_word:
  "segmentsFrom segs cur (shellQuote w @ rest) scanInit
    = segmentsFrom segs (cur @ shellQuote w) rest scanInit"
  using segments_safe [of w segs cur rest] segments_body [of segs "cur @ [SQ]" w rest]
  by (auto simp: shellQuote_def)

lemma segments_line:
  "args \<noteq> [] \<Longrightarrow> segmentsFrom segs cur (command_line args @ rest) scanInit
    = segmentsFrom segs (cur @ command_line args) rest scanInit"
proof (induction args arbitrary: cur)
  case (Cons w args)
  then show ?case
    by (cases "args = []") (simp_all add: command_line_single command_line_Cons segments_word)
qed simp

text \<open>The word reader undoes the quoting.\<close>

lemma quote_safe_no_ws: "quote_safe c \<Longrightarrow> \<not> isWhitespace c"
  using quote_safe_plain [of c] by (simp add: isWhitespace_def isShellWhitespace_def)

lemma words_safe:
  "list_all quote_safe w \<Longrightarrow>
   wordsFrom ws (Some cur) (w @ rest) scanInit = wordsFrom ws (Some (cur @ w)) rest scanInit"
proof (induction w arbitrary: cur)
  case (Cons c w)
  then show ?case using quote_safe_plain [of c] by (simp add: quote_safe_no_ws Let_def)
qed simp

lemma words_body:
  "wordsFrom ws (Some cur) (quote_body w @ SQ # rest) in_single_scan
    = wordsFrom ws (Some (cur @ w)) rest scanInit"
proof (induction w arbitrary: cur)
  case Nil
  then show ?case by (simp add: Let_def scanInit_def)
next
  case (Cons c w)
  then show ?case by (cases "c = SQ") (simp_all add: Let_def scanInit_def)
qed

lemma words_word: "wordsFrom ws None (shellQuote w @ rest) scanInit = wordsFrom ws (Some w) rest scanInit"
proof (cases "w \<noteq> [] \<and> list_all quote_safe w")
  case True
  then obtain c w' where w: "w = c # w'" by (cases w) auto
  have "wordsFrom ws None (c # w' @ rest) scanInit = wordsFrom ws (Some [c]) (w' @ rest) scanInit"
    using True w quote_safe_plain [of c] by (simp add: quote_safe_no_ws Let_def)
  then show ?thesis using True w words_safe [of w' ws "[c]" rest] by (simp add: shellQuote_def)
next
  case False
  then show ?thesis using words_body [of ws "[]" w rest]
    by (auto simp: shellQuote_def Let_def)
qed

lemma words_line: "args \<noteq> [] \<Longrightarrow> wordsFrom ws None (command_line args) scanInit = Some (ws @ args)"
proof (induction args arbitrary: ws)
  case (Cons w args)
  show ?case
  proof (cases "args = []")
    case True
    then show ?thesis using words_word [of ws w "[]"] by (simp add: command_line_single)
  next
    case False
    then show ?thesis
      using Cons.IH [of "ws @ [w]"] words_word [of ws w "SP # command_line args"]
      by (simp add: command_line_Cons Let_def isWhitespace_def code_def)
  qed
qed simp

definition plain_argv :: "string list \<Rightarrow> bool" where
  "plain_argv args \<longleftrightarrow> args \<noteq> [] \<and> \<not> isAssignmentPrefix (hd args)"

definition operators :: "string list" where
  "operators = ['';'', ''&&'', ''||'', ''|'']"

lemma segmentWords_line: "plain_argv args \<Longrightarrow> segmentWords (command_line args) = Some args"
  using trim_trimmed [OF command_line_trimmed [of args]] command_line_ends [of args] words_line [of args "[]"]
  by (simp add: segmentWords_def plain_argv_def parsePlainCommandWords_def)

lemma allSegmentWords_lines:
  "list_all plain_argv cmds \<Longrightarrow> allSegmentWords (map command_line cmds) = Some cmds"
  by (induction cmds) (simp_all add: segmentWords_line)

lemma joined_head:
  assumes "list_all plain_argv cmds" "cmds \<noteq> []"
  shows "char_at (js_join sep (map command_line cmds)) 0 \<notin> {Some (CHR ''|''), Some (CHR ''&'')}"
proof -
  obtain c cs where cs: "cmds = c # cs" using assms(2) by (cases cmds) auto
  then have "command_line c \<noteq> []" "hd (command_line c) \<notin> {CHR ''|'', CHR ''&''}"
    using assms command_line_ends [of c] by (auto simp: plain_argv_def dest: quote_safe_split)
  then show ?thesis
    using cs by (cases "command_line c"; cases "cs = []") (auto simp: js_join_Cons)
qed

lemma segments_joined:
  assumes "list_all plain_argv cmds" "cmds \<noteq> []" "sep \<in> set operators"
  shows "segmentsFrom segs [] (js_join sep (map command_line cmds)) scanInit = Some (segs @ map command_line cmds)"
  using assms(1,2)
proof (induction cmds arbitrary: segs)
  case (Cons c cs)
  have c: "c \<noteq> []" "js_trim (command_line c) \<noteq> []"
    using Cons.prems trim_trimmed [OF command_line_trimmed [of c]] command_line_ends [of c]
    by (auto simp: plain_argv_def)
  show ?case
  proof (cases "cs = []")
    case True
    then show ?thesis using c segments_line [of c segs "[]" "[]"] by simp
  next
    case False
    let ?rest = "js_join sep (map command_line cs)"
    have "segmentsFrom segs (command_line c) (sep @ ?rest) scanInit
        = segmentsFrom (segs @ [command_line c]) [] ?rest scanInit"
      using assms(3) c(2) joined_head [of cs sep] Cons.prems False by (auto simp: operators_def)
    then show ?thesis
      using c Cons False segments_line [of c segs "[]" "sep @ ?rest"] by (simp add: js_join_Cons)
  qed
qed simp

lemma forbidden_joined:
  assumes "list_all plain_argv cmds" "cmds \<noteq> []" "sep \<in> set operators"
  shows "\<not> forbiddenFrom prev (js_join sep (map command_line cmds)) scanInit"
  using assms(1,2)
proof (induction cmds arbitrary: prev)
  case (Cons c cs)
  have c: "c \<noteq> []" using Cons.prems by (simp add: plain_argv_def)
  show ?case
  proof (cases "cs = []")
    case True
    then show ?thesis using forbidden_line [OF c, of prev "[]"] by auto
  next
    case False
    let ?rest = "js_join sep (map command_line cs)"
    obtain d where d: "forbiddenFrom prev (command_line c @ sep @ ?rest) scanInit
        = forbiddenFrom (Some d) (sep @ ?rest) scanInit"
      using forbidden_line [OF c] by blast
    have "forbiddenFrom (Some d) (sep @ ?rest) scanInit = forbiddenFrom (Some (last sep)) ?rest scanInit"
      using assms(3) by (auto simp: operators_def)
    then show ?thesis using d Cons.IH [of "Some (last sep)"] Cons.prems False by (simp add: js_join_Cons)
  qed
qed simp

lemma parse_joined:
  assumes "list_all plain_argv cmds" "cmds \<noteq> []" "sep \<in> set operators"
  shows "parseScriptPlainCommands (js_join sep (map command_line cmds)) = Some cmds"
  using forbidden_joined [OF assms] segments_joined [OF assms, of "[]"] allSegmentWords_lines [OF assms(1)] assms(2)
  by (simp add: parseScriptPlainCommands_def containsForbiddenConstruct_def splitTopLevelSegments_def)

section \<open>Properties\<close>

text \<open>
  A script built from quoted arguments and plain operators parses to exactly the argument
  vectors it was built from, whatever the arguments contain (expansions, operators, quotes and
  newlines included); only a leading assignment is refused.
\<close>

theorem parse_quoted_script:
  "list_all plain_argv cmds \<Longrightarrow> cmds \<noteq> [] \<Longrightarrow> sep \<in> set operators \<Longrightarrow>
   parseScriptPlainCommands (js_join sep (map command_line cmds)) = Some cmds"
  by (rule parse_joined)

lemma parse_quoted_script_witness:
  "parseScriptPlainCommands (js_join ''|'' (map command_line [[''echo'', ''$(x) && '' @ [SQ]], [''wc'', []]]))
    = Some [[''echo'', ''$(x) && '' @ [SQ]], [''wc'', []]]"
  by (rule parse_quoted_script) (simp_all add: plain_argv_def isAssignmentPrefix_def operators_def)

text \<open>
  An unquoted newline separates commands in a shell, but the parser reads it as white space inside
  one command.
\<close>

lemma newline_is_not_a_separator:
  "parseScriptPlainCommands (''ls'' @ [LF] @ ''rm x'') = Some [[''ls'', ''rm'', ''x'']]"
  by (simp add: parseScriptPlainCommands_def containsForbiddenConstruct_def splitTopLevelSegments_def
      quoteStep_def scanInit_def segmentWords_def parsePlainCommandWords_def isWhitespace_def code_def
      js_trim_def js_ws_def isAssignmentPrefix_def Let_def)

end
