(* ===== verification/SafeCommand.thy ===== *)
theory SafeCommand
  imports ShellAst
begin

text \<open>
  The whitelist of read-only commands:
  \<open>packages/agent-modules/permission/src/tools/safe-command.ts\<close>.  A command it accepts is
  approved without asking, so what matters is what acceptance implies.
\<close>

section \<open>Executables\<close>

definition executableNameLookupKey :: "string \<Rightarrow> string option" where
  "executableNameLookupKey raw =
     (let normalized = map (\<lambda>c. if c = BS then CHR ''/'' else c) raw;
          name = rev (takeWhile (\<lambda>c. c \<noteq> CHR ''/'') (rev normalized))
      in if name \<noteq> [] then Some name else None)"

definition ALWAYS_SAFE_COMMANDS :: "string list" where
  "ALWAYS_SAFE_COMMANDS =
     [''cat'', ''cd'', ''cut'', ''echo'', ''expr'', ''false'', ''grep'', ''head'', ''id'', ''ls'', ''nl'',
      ''paste'', ''pwd'', ''rev'', ''seq'', ''stat'', ''tail'', ''tr'', ''true'', ''uname'', ''uniq'', ''wc'',
      ''which'', ''whoami'']"

section \<open>base64, find, rg and sed\<close>

definition isSafeBase64 :: "string list \<Rightarrow> bool" where
  "isSafeBase64 command =
     (\<not> list_ex (\<lambda>arg. arg \<in> {''-o'', ''--output''} \<or> starts_with ''--output='' arg
          \<or> (starts_with ''-o'' arg \<and> arg \<noteq> ''-o'')) (drop 1 command))"

definition UNSAFE_FIND_OPTIONS :: "string list" where
  "UNSAFE_FIND_OPTIONS =
     [''-exec'', ''-execdir'', ''-ok'', ''-okdir'', ''-delete'', ''-fls'', ''-fprint'', ''-fprint0'', ''-fprintf'']"

definition isSafeFind :: "string list \<Rightarrow> bool" where
  "isSafeFind command = (\<not> list_ex (\<lambda>arg. arg \<in> set UNSAFE_FIND_OPTIONS) command)"

definition isSafeRipgrep :: "string list \<Rightarrow> bool" where
  "isSafeRipgrep command =
     (\<not> list_ex (\<lambda>arg. arg \<in> {''--search-zip'', ''-z''}
          \<or> list_ex (\<lambda>opt. arg = opt \<or> starts_with (opt @ ''='') arg) [''--pre'', ''--hostname-bin'']) command)"

definition isNum :: "string \<Rightarrow> bool" where
  "isNum s \<longleftrightarrow> s \<noteq> [] \<and> list_all is_digit s"

definition isValidSedNArg :: "string option \<Rightarrow> bool" where
  "isValidSedNArg arg =
     (case arg of
        None \<Rightarrow> False
      | Some a \<Rightarrow>
          if \<not> ends_with ''p'' a then False
          else (case js_split '','' (take (length a - 1) a) of
              [x] \<Rightarrow> isNum x
            | [x, y] \<Rightarrow> isNum x \<and> isNum y
            | _ \<Rightarrow> False))"

definition arg_at :: "string list \<Rightarrow> nat \<Rightarrow> string option" where
  "arg_at command i = (if i < length command then Some (command ! i) else None)"

definition isSafeSed :: "string list \<Rightarrow> bool" where
  "isSafeSed command =
     (length command \<le> 4 \<and> arg_at command 1 = Some ''-n'' \<and> isValidSedNArg (arg_at command 2))"

section \<open>git\<close>

definition GIT_READ_ONLY_SUBCOMMANDS :: "string list" where
  "GIT_READ_ONLY_SUBCOMMANDS = [''status'', ''log'', ''diff'', ''show'', ''branch'']"

datatype git_option_pattern = GitExact string | GitShortInline string | GitPrefix string

definition UNSAFE_GIT_GLOBAL_OPTIONS :: "git_option_pattern list" where
  "UNSAFE_GIT_GLOBAL_OPTIONS =
     [GitExact ''-C'', GitShortInline ''-C'', GitExact ''-c'', GitShortInline ''-c'', GitExact ''-p'',
      GitExact ''--config-env'', GitPrefix ''--config-env='', GitExact ''--exec-path'',
      GitPrefix ''--exec-path='', GitExact ''--git-dir'', GitPrefix ''--git-dir='',
      GitExact ''--namespace'', GitPrefix ''--namespace='', GitExact ''--paginate'',
      GitExact ''--super-prefix'', GitPrefix ''--super-prefix='', GitExact ''--work-tree'',
      GitPrefix ''--work-tree='']"

definition UNSAFE_GIT_SUBCOMMAND_OPTIONS :: "git_option_pattern list" where
  "UNSAFE_GIT_SUBCOMMAND_OPTIONS =
     [GitExact ''--output'', GitPrefix ''--output='', GitExact ''--ext-diff'', GitExact ''--textconv'',
      GitExact ''--exec'', GitPrefix ''--exec='']"

fun gitOptionMatches :: "string \<Rightarrow> git_option_pattern \<Rightarrow> bool" where
  "gitOptionMatches arg (GitExact opt) = (arg = opt)"
| "gitOptionMatches arg (GitShortInline opt) = (starts_with opt arg \<and> length opt < length arg)"
| "gitOptionMatches arg (GitPrefix prefix) = starts_with prefix arg"

definition gitMatchesAny :: "string \<Rightarrow> git_option_pattern list \<Rightarrow> bool" where
  "gitMatchesAny arg patterns = list_ex (gitOptionMatches arg) patterns"

definition isGitGlobalOptionWithValue :: "string \<Rightarrow> bool" where
  "isGitGlobalOptionWithValue arg =
     (arg \<in> set [''-C'', ''-c'', ''--config-env'', ''--exec-path'', ''--git-dir'', ''--namespace'',
        ''--super-prefix'', ''--work-tree''])"

definition isGitGlobalOptionWithInlineValue :: "string \<Rightarrow> bool" where
  "isGitGlobalOptionWithInlineValue arg =
     (starts_with ''--config-env='' arg \<or> starts_with ''--exec-path='' arg
      \<or> starts_with ''--git-dir='' arg \<or> starts_with ''--namespace='' arg
      \<or> starts_with ''--super-prefix='' arg \<or> starts_with ''--work-tree='' arg
      \<or> ((starts_with ''-C'' arg \<or> starts_with ''-c'' arg) \<and> 2 < length arg))"

text \<open>The loop of \<open>findGitSubcommand\<close> over the arguments from index \<open>idx\<close>.\<close>

fun gitSubcommandFrom :: "string list \<Rightarrow> nat \<Rightarrow> string list \<Rightarrow> bool \<Rightarrow> (nat \<times> string) option" where
  "gitSubcommandFrom subcommands idx [] skipNext = None"
| "gitSubcommandFrom subcommands idx (arg # rest) skipNext =
     (if skipNext then gitSubcommandFrom subcommands (idx + 1) rest False
      else if isGitGlobalOptionWithInlineValue arg then gitSubcommandFrom subcommands (idx + 1) rest False
      else if isGitGlobalOptionWithValue arg then gitSubcommandFrom subcommands (idx + 1) rest True
      else if arg = ''--'' \<or> starts_with ''-'' arg then gitSubcommandFrom subcommands (idx + 1) rest False
      else if arg \<in> set subcommands then Some (idx, arg)
      else None)"

definition findGitSubcommand :: "string list \<Rightarrow> string list \<Rightarrow> (nat \<times> string) option" where
  "findGitSubcommand command subcommands =
     (case command of
        [] \<Rightarrow> None
      | cmd0 # args \<Rightarrow>
          if executableNameLookupKey cmd0 \<noteq> Some ''git'' then None
          else gitSubcommandFrom subcommands 1 args False)"

definition gitSubcommandArgsAreReadOnly :: "string list \<Rightarrow> bool" where
  "gitSubcommandArgsAreReadOnly args = (\<not> list_ex (\<lambda>arg. gitMatchesAny arg UNSAFE_GIT_SUBCOMMAND_OPTIONS) args)"

definition branch_list_flag :: "string \<Rightarrow> bool" where
  "branch_list_flag arg \<longleftrightarrow>
     arg \<in> set [''--list'', ''-l'', ''--show-current'', ''-a'', ''--all'', ''-r'', ''--remotes'', ''-v'', ''-vv'',
       ''--verbose''] \<or> starts_with ''--format='' arg"

fun gitBranchFrom :: "string list \<Rightarrow> bool \<Rightarrow> bool" where
  "gitBranchFrom [] sawReadOnlyFlag = sawReadOnlyFlag"
| "gitBranchFrom (arg # rest) sawReadOnlyFlag =
     (if branch_list_flag arg then gitBranchFrom rest True else False)"

definition gitBranchIsReadOnly :: "string list \<Rightarrow> bool" where
  "gitBranchIsReadOnly branchArgs = (if branchArgs = [] then True else gitBranchFrom branchArgs False)"

definition isSafeGitCommand :: "string list \<Rightarrow> bool" where
  "isSafeGitCommand command =
     (case findGitSubcommand command GIT_READ_ONLY_SUBCOMMANDS of
        None \<Rightarrow> False
      | Some (index, subcommand) \<Rightarrow>
          let globalArgs = take (index - 1) (drop 1 command); subArgs = drop (index + 1) command
          in if list_ex (\<lambda>arg. gitMatchesAny arg UNSAFE_GIT_GLOBAL_OPTIONS) globalArgs then False
             else if subcommand \<in> set [''status'', ''log'', ''diff'', ''show'']
               then gitSubcommandArgsAreReadOnly subArgs
             else if subcommand = ''branch''
               then gitSubcommandArgsAreReadOnly subArgs \<and> gitBranchIsReadOnly subArgs
             else False)"

section \<open>The two entry points\<close>

definition isSafeToCallWithExec :: "string list \<Rightarrow> bool" where
  "isSafeToCallWithExec command =
     (case command of
        [] \<Rightarrow> False
      | cmd0 # _ \<Rightarrow>
          (case executableNameLookupKey cmd0 of
             None \<Rightarrow> False
           | Some key \<Rightarrow>
               if key \<in> set ALWAYS_SAFE_COMMANDS then True
               else if key = ''base64'' then isSafeBase64 command
               else if key = ''find'' then isSafeFind command
               else if key = ''rg'' then isSafeRipgrep command
               else if key = ''git'' then isSafeGitCommand command
               else if key = ''sed'' then isSafeSed command
               else False))"

definition isKnownSafeCommand :: "string list \<Rightarrow> bool" where
  "isKnownSafeCommand command =
     (let normalized = map (\<lambda>token. if token = ''zsh'' then ''bash'' else token) command
      in if isSafeToCallWithExec normalized then True
         else (case parseShellLcPlainCommands normalized of
             None \<Rightarrow> False
           | Some allCommands \<Rightarrow> allCommands \<noteq> [] \<and> list_all isSafeToCallWithExec allCommands))"

section \<open>PowerShell\<close>

definition POWERSHELL_READ_ONLY_COMMANDS :: "string list" where
  "POWERSHELL_READ_ONLY_COMMANDS =
     [''get-childitem'', ''get-command'', ''get-content'', ''get-help'', ''get-item'', ''get-location'',
      ''get-member'', ''get-variable'', ''measure-object'', ''resolve-path'', ''select-string'', ''test-path'']"

fun powerShellFrom :: "string list \<Rightarrow> string \<Rightarrow> char option \<Rightarrow> string \<Rightarrow> string list option" where
  "powerShellFrom tokens token quote [] =
     (if quote \<noteq> None then None else Some (if token \<noteq> [] then tokens @ [token] else tokens))"
| "powerShellFrom tokens token quote (ch # rest) =
     (if ch = CR \<or> ch = LF then None
      else (case quote of
          Some q \<Rightarrow>
            if ch = q then powerShellFrom tokens token None rest
            else if q = DQ \<and> (ch = CHR ''$'' \<or> ch = BT) then None
            else powerShellFrom tokens (token @ [ch]) quote rest
        | None \<Rightarrow>
            if ch = SQ \<or> ch = DQ then powerShellFrom tokens token (Some ch) rest
            else if js_ws ch then
              (if token \<noteq> [] then powerShellFrom (tokens @ [token]) [] None rest
               else powerShellFrom tokens token None rest)
            else if ch \<in> set '';|><&{}()=$'' \<or> ch = BT then None
            else powerShellFrom tokens (token @ [ch]) None rest))"

definition tokenizeSimplePowerShell :: "string \<Rightarrow> string list option" where
  "tokenizeSimplePowerShell command = powerShellFrom [] [] None command"

definition isKnownSafePowerShellCommand :: "string \<Rightarrow> bool" where
  "isKnownSafePowerShellCommand command =
     (case tokenizeSimplePowerShell command of
        None \<Rightarrow> False
      | Some [] \<Rightarrow> False
      | Some (t # ts) \<Rightarrow>
          let executable = to_lower t;
              native = (if ends_with ''.exe'' executable then take (length executable - 4) executable
                        else executable)
          in if executable \<in> set POWERSHELL_READ_ONLY_COMMANDS then True
             else if native \<noteq> ''git'' \<and> native \<noteq> ''rg'' then False
             else isSafeToCallWithExec (native # ts))"

section \<open>What acceptance of git means\<close>

lemma value_option_unsafe:
  "isGitGlobalOptionWithValue arg \<Longrightarrow> gitMatchesAny arg UNSAFE_GIT_GLOBAL_OPTIONS"
  by (auto simp: isGitGlobalOptionWithValue_def gitMatchesAny_def UNSAFE_GIT_GLOBAL_OPTIONS_def)

lemma inline_option_flag: "isGitGlobalOptionWithInlineValue arg \<Longrightarrow> starts_with ''-'' arg"
  by (cases arg) (auto simp: isGitGlobalOptionWithInlineValue_def)

lemma subcommand_position:
  "gitSubcommandFrom subs idx args False = Some (i, sub) \<Longrightarrow>
   \<not> list_ex (\<lambda>arg. gitMatchesAny arg UNSAFE_GIT_GLOBAL_OPTIONS) (take (i - idx) args) \<Longrightarrow>
   idx \<le> i \<and> i - idx < length args \<and> args ! (i - idx) = sub \<and> sub \<in> set subs
   \<and> list_all (starts_with ''-'') (take (i - idx) args)"
proof (induction args arbitrary: idx)
  case (Cons arg args)
  show ?case
  proof (cases "isGitGlobalOptionWithInlineValue arg \<or> isGitGlobalOptionWithValue arg \<or> arg = ''--''
      \<or> starts_with ''-'' arg")
    case False
    then have "i = idx \<and> sub = arg \<and> arg \<in> set subs"
      using Cons.prems(1) by (auto split: if_splits)
    then show ?thesis by simp
  next
    case True
    have later: "idx < i"
    proof -
      have mono: "gitSubcommandFrom subs k as sk = Some (i, sub) \<Longrightarrow> k \<le> i" for k as sk
        by (induction as arbitrary: k sk) (fastforce split: if_splits)+
      show ?thesis using Cons.prems(1) True mono by (auto split: if_splits dest: mono)
    qed
    then obtain d where d: "i - idx = Suc d" "i - Suc idx = d" by (cases "i - idx") auto
    have notval: "\<not> isGitGlobalOptionWithValue arg"
      using Cons.prems(2) d value_option_unsafe by auto
    then have "gitSubcommandFrom subs (Suc idx) args False = Some (i, sub)" "starts_with ''-'' arg"
      using Cons.prems(1) True inline_option_flag by (auto split: if_splits)
    then show ?thesis using Cons.IH [of "Suc idx"] Cons.prems(2) d later by auto
  qed
qed simp

definition git_read_only_shape :: "string list \<Rightarrow> bool" where
  "git_read_only_shape args \<longleftrightarrow> (\<exists>globals sub rest. args = globals @ sub # rest
     \<and> sub \<in> set GIT_READ_ONLY_SUBCOMMANDS
     \<and> list_all (\<lambda>arg. starts_with ''-'' arg \<and> \<not> gitMatchesAny arg UNSAFE_GIT_GLOBAL_OPTIONS) globals
     \<and> list_all (\<lambda>arg. \<not> gitMatchesAny arg UNSAFE_GIT_SUBCOMMAND_OPTIONS) rest
     \<and> (sub \<noteq> ''branch'' \<or> list_all branch_list_flag rest))"

lemma gitBranchFrom_flags: "gitBranchFrom args saw \<Longrightarrow> list_all branch_list_flag args"
  by (induction args arbitrary: saw) (auto split: if_splits)

lemma safe_git_shape:
  assumes "isSafeGitCommand (cmd0 # args)"
  shows "git_read_only_shape args"
proof -
  obtain i sub where f: "gitSubcommandFrom GIT_READ_ONLY_SUBCOMMANDS 1 args False = Some (i, sub)"
    and g: "\<not> list_ex (\<lambda>arg. gitMatchesAny arg UNSAFE_GIT_GLOBAL_OPTIONS) (take (i - 1) args)"
    and r: "gitSubcommandArgsAreReadOnly (drop i args)" "sub = ''branch'' \<longrightarrow> gitBranchIsReadOnly (drop i args)"
    using assms
    by (auto simp: isSafeGitCommand_def findGitSubcommand_def Let_def split: option.splits if_splits)
  have p: "1 \<le> i" "i - 1 < length args" "args ! (i - 1) = sub" "sub \<in> set GIT_READ_ONLY_SUBCOMMANDS"
    "list_all (starts_with ''-'') (take (i - 1) args)"
    using subcommand_position [OF f g] by auto
  have "args = take (i - 1) args @ sub # drop i args"
    using p(1-3) id_take_nth_drop [of "i - 1" args] by simp
  moreover have "sub \<noteq> ''branch'' \<or> list_all branch_list_flag (drop i args)"
    using r(2) gitBranchFrom_flags by (auto simp: gitBranchIsReadOnly_def split: if_splits)
  ultimately show ?thesis
    using p(4,5) g r(1) unfolding git_read_only_shape_def
    by (intro exI [of _ "take (i - 1) args"] exI [of _ sub] exI [of _ "drop i args"])
       (auto simp: list_all_iff list_ex_iff gitSubcommandArgsAreReadOnly_def)
qed

section \<open>Properties\<close>

lemma lookup_git: "executableNameLookupKey ''git'' = Some ''git''"
  by (simp add: executableNameLookupKey_def)

lemma safe_git: "isSafeToCallWithExec (''git'' # args) = isSafeGitCommand (''git'' # args)"
  by (simp add: isSafeToCallWithExec_def lookup_git ALWAYS_SAFE_COMMANDS_def)

text \<open>
  C23: a git invocation is accepted only if it consists of global flags none of which is one of the
  unsafe ones, a read-only subcommand, and arguments without the options that write or execute; for
  \<open>branch\<close> the arguments are list flags only.
\<close>

theorem accepted_git_is_read_only:
  "isSafeToCallWithExec (''git'' # args) \<Longrightarrow> git_read_only_shape args"
  unfolding safe_git by (rule safe_git_shape)

lemma accepted_git_is_read_only_witness: "git_read_only_shape [''--no-pager'', ''log'', ''-p'']"
  by (rule accepted_git_is_read_only)
     (simp add: safe_git isSafeGitCommand_def findGitSubcommand_def lookup_git
        isGitGlobalOptionWithInlineValue_def isGitGlobalOptionWithValue_def GIT_READ_ONLY_SUBCOMMANDS_def
        gitMatchesAny_def UNSAFE_GIT_GLOBAL_OPTIONS_def UNSAFE_GIT_SUBCOMMAND_OPTIONS_def
        gitSubcommandArgsAreReadOnly_def)

lemma shells_not_safe:
  "sh \<in> set KNOWN_SHELLS \<Longrightarrow> sh' = (if sh = ''zsh'' then ''bash'' else sh) \<Longrightarrow>
   \<not> isSafeToCallWithExec (sh' # args) \<and> basename sh' \<in> set KNOWN_SHELLS"
  by (auto simp: KNOWN_SHELLS_def isSafeToCallWithExec_def executableNameLookupKey_def
      ALWAYS_SAFE_COMMANDS_def basename_def)

lemma zsh_script:
  assumes "list_all plain_argv cmds" "cmds \<noteq> []" "sep \<in> set operators"
    and "js_join sep (map command_line cmds) = ''zsh''"
  shows "list_all isSafeToCallWithExec cmds
    \<longleftrightarrow> (\<exists>c. parseScriptPlainCommands ''bash'' = Some c \<and> c \<noteq> [] \<and> list_all isSafeToCallWithExec c)"
proof -
  have "parseScriptPlainCommands ''zsh'' = Some [[''zsh'']]"
    using parse_joined [of "[[''zsh'']]" "'';''"]
    by (simp add: plain_argv_def isAssignmentPrefix_def operators_def command_line_def shellQuote_def
        quote_safe_def is_alnum_def is_alpha_def is_lower_def code_def)
  then have "cmds = [[''zsh'']]" using parse_joined [OF assms(1-3)] assms(4) by simp
  moreover have "parseScriptPlainCommands ''bash'' = Some [[''bash'']]"
    using parse_joined [of "[[''bash'']]" "'';''"]
    by (simp add: plain_argv_def isAssignmentPrefix_def operators_def command_line_def shellQuote_def
        quote_safe_def is_alnum_def is_alpha_def is_lower_def code_def)
  ultimately show ?thesis
    using shells_not_safe [of "''zsh''" "''bash''" "[]"]
    by (simp add: KNOWN_SHELLS_def isSafeToCallWithExec_def executableNameLookupKey_def ALWAYS_SAFE_COMMANDS_def)
qed

lemma safe_script:
  assumes "sh \<in> set KNOWN_SHELLS" "flag = ''-c'' \<or> flag = ''-lc''"
    and "list_all plain_argv cmds" "cmds \<noteq> []" "sep \<in> set operators"
  shows "isKnownSafeCommand [sh, flag, js_join sep (map command_line cmds)]
    \<longleftrightarrow> list_all isSafeToCallWithExec cmds"
proof -
  let ?script = "js_join sep (map command_line cmds)"
  let ?sh = "if sh = ''zsh'' then ''bash'' else sh"
  let ?script' = "if ?script = ''zsh'' then ''bash'' else ?script"
  have flag: "flag \<noteq> ''zsh''" using assms(2) by auto
  have "parseShellLcPlainCommands [?sh, flag, ?script'] = parseScriptPlainCommands ?script'"
    using shells_not_safe [OF assms(1) refl] assms(2)
    by (auto simp: parseShellLcPlainCommands_def extractBashCommand_def)
  then have "isKnownSafeCommand [sh, flag, ?script] \<longleftrightarrow>
      (\<exists>c. parseScriptPlainCommands ?script' = Some c \<and> c \<noteq> [] \<and> list_all isSafeToCallWithExec c)"
    using shells_not_safe [OF assms(1) refl] flag
    by (auto simp: isKnownSafeCommand_def Let_def split: option.splits)
  also have "\<dots> \<longleftrightarrow> list_all isSafeToCallWithExec cmds"
    using zsh_script [OF assms(3-5)] parse_joined [OF assms(3-5)] assms(4) by auto
  finally show ?thesis .
qed

text \<open>
  C24: an inline script of quoted commands joined by plain operators is accepted exactly when every
  one of its commands is accepted on its own.
\<close>

theorem accepted_script:
  "sh \<in> set KNOWN_SHELLS \<Longrightarrow> flag = ''-c'' \<or> flag = ''-lc'' \<Longrightarrow>
   list_all plain_argv cmds \<Longrightarrow> cmds \<noteq> [] \<Longrightarrow> sep \<in> set operators \<Longrightarrow>
   isKnownSafeCommand [sh, flag, js_join sep (map command_line cmds)]
     \<longleftrightarrow> list_all isSafeToCallWithExec cmds"
  by (rule safe_script)

lemma accepted_script_witness:
  "\<not> isKnownSafeCommand [''zsh'', ''-lc'', js_join '';'' (map command_line [[''ls'', ''a; b''], [''rm'', ''x'']])]"
  using accepted_script [of "''zsh''" "''-lc''" "[[''ls'', ''a; b''], [''rm'', ''x'']]" "'';''"]
  by (simp add: KNOWN_SHELLS_def plain_argv_def isAssignmentPrefix_def operators_def
      isSafeToCallWithExec_def executableNameLookupKey_def ALWAYS_SAFE_COMMANDS_def)

text \<open>
  The shell runs two commands here and the second deletes a file, but the parser takes the newline
  for white space, so the script counts as one harmless \<open>ls\<close>.
\<close>

lemma newline_script_accepted: "isKnownSafeCommand [''bash'', ''-lc'', ''ls'' @ [LF] @ ''rm x'']"
proof -
  have "parseShellLcPlainCommands [''bash'', ''-lc'', ''ls'' @ [LF] @ ''rm x'']
      = Some [[''ls'', ''rm'', ''x'']]"
    using newline_is_not_a_separator
    by (simp add: parseShellLcPlainCommands_def extractBashCommand_def basename_def KNOWN_SHELLS_def)
  then show ?thesis
    by (simp add: isKnownSafeCommand_def isSafeToCallWithExec_def executableNameLookupKey_def
        ALWAYS_SAFE_COMMANDS_def)
qed

end
