(* ===== verification/JsonText.thy ===== *)
theory JsonText
  imports Prelude
begin

text \<open>
  The part of the standard \<open>JSON\<close> object the code uses: the text of strings as \<open>JSON.stringify\<close>
  writes it, and \<open>JSON.parse\<close> restricted to non-empty arrays of strings.  An escape of a character
  beyond the 8-bit ones of this model is not read.
\<close>

section \<open>Writing strings\<close>

definition hex_digit :: "nat \<Rightarrow> char" where
  "hex_digit n = char_of (if n < 10 then 48 + n else 87 + n)"

definition json_escape :: "char \<Rightarrow> string" where
  "json_escape c =
     (if c = DQ \<or> c = BS then [BS, c]
      else if code c = 8 then BS # ''b''
      else if c = TAB then BS # ''t''
      else if c = LF then BS # ''n''
      else if code c = 12 then BS # ''f''
      else if c = CR then BS # ''r''
      else if code c < 32 then BS # ''u00'' @ [hex_digit (code c div 16), hex_digit (code c mod 16)]
      else [c])"

definition json_quote :: "string \<Rightarrow> string" where
  "json_quote s = DQ # concat (map json_escape s) @ [DQ]"

definition json_of_strings :: "string list \<Rightarrow> string" where
  "json_of_strings xs = ''['' @ js_join '','' (map json_quote xs) @ '']''"

section \<open>Reading arrays of strings\<close>

definition hex_value :: "char \<Rightarrow> nat option" where
  "hex_value c =
     (if is_digit c then Some (code c - 48)
      else if 97 \<le> code c \<and> code c \<le> 102 then Some (code c - 87)
      else if 65 \<le> code c \<and> code c \<le> 70 then Some (code c - 55)
      else None)"

fun unicode_escape :: "char list \<Rightarrow> char option" where
  "unicode_escape [a, b, c, d] =
     (case (hex_value a, hex_value b, hex_value c, hex_value d) of
        (Some w, Some x, Some y, Some z) \<Rightarrow>
          if w = 0 \<and> x = 0 then Some (char_of (16 * y + z)) else None
      | _ \<Rightarrow> None)"
| "unicode_escape _ = None"

definition simple_escape :: "char \<Rightarrow> char option" where
  "simple_escape e =
     (if e = DQ \<or> e = BS \<or> e = CHR ''/'' then Some e
      else map_of [(CHR ''b'', char_of (8 :: nat)), (CHR ''f'', char_of (12 :: nat)),
        (CHR ''n'', LF), (CHR ''r'', CR), (CHR ''t'', TAB)] e)"

text \<open>The characters of a string after its opening quote, and the text after the closing one.\<close>

function json_body :: "string \<Rightarrow> (string \<times> string) option" where
  "json_body [] = None"
| "json_body (c # s) =
     (if c = DQ then Some ([], s)
      else if c = BS then
        (case s of
           [] \<Rightarrow> None
         | e # r \<Rightarrow>
             if e = CHR ''u'' then
               (case unicode_escape (take 4 r) of
                  None \<Rightarrow> None
                | Some x \<Rightarrow> map_option (apfst (Cons x)) (json_body (drop 4 r)))
             else
               (case simple_escape e of
                  None \<Rightarrow> None
                | Some x \<Rightarrow> map_option (apfst (Cons x)) (json_body r)))
      else if code c < 32 then None
      else map_option (apfst (Cons c)) (json_body s))"
  by pat_completeness auto
termination by (relation "measure length") auto

lemma json_body_shorter: "json_body s = Some (x, r) \<Longrightarrow> length r < length s"
  by (induction s arbitrary: x rule: json_body.induct)
    (fastforce split: if_splits option.splits list.splits)+

definition json_ws :: "char \<Rightarrow> bool" where
  "json_ws c \<longleftrightarrow> c = SP \<or> c = TAB \<or> c = LF \<or> c = CR"

function json_items :: "string \<Rightarrow> string list option" where
  "json_items s =
     (case dropWhile json_ws s of
        [] \<Rightarrow> None
      | q # r \<Rightarrow>
          if q \<noteq> DQ then None
          else (case json_body r of
              None \<Rightarrow> None
            | Some (x, r1) \<Rightarrow>
                (case dropWhile json_ws r1 of
                   [] \<Rightarrow> None
                 | d # r2 \<Rightarrow>
                     if d = CHR '','' then map_option (Cons x) (json_items r2)
                     else if d = CHR '']'' \<and> dropWhile json_ws r2 = [] then Some [x]
                     else None)))"
  by pat_completeness auto
termination
proof (relation "measure length", simp)
  fix s q r r1 d r2 and p :: "string \<times> string" and x :: string
  assume "dropWhile json_ws s = q # r" "json_body r = Some p" "(x, r1) = p" "dropWhile json_ws r1 = d # r2"
  then have "length (q # r) \<le> length s" "length r1 < length r" "length (d # r2) \<le> length r1"
    using length_dropWhile_le [of json_ws s] length_dropWhile_le [of json_ws r1]
    by (auto dest: json_body_shorter)
  then show "(r2, s) \<in> measure length" by simp
qed

declare json_items.simps [simp del]

text \<open>What \<open>JSON.parse\<close> gives when the result is a non-empty array of strings, and \<open>None\<close> otherwise.\<close>

definition json_string_array :: "string \<Rightarrow> string list option" where
  "json_string_array s =
     (case dropWhile json_ws s of
        [] \<Rightarrow> None
      | b # r \<Rightarrow> if b = CHR ''['' then json_items r else None)"

section \<open>Round trip\<close>

lemma hex_value_digit: "n < 16 \<Longrightarrow> hex_value (hex_digit n) = Some n"
  by (auto simp: hex_value_def hex_digit_def is_digit_def code_def of_char_of)

lemma char_of_code [simp]: "char_of (code c) = c"
  by (simp add: code_def)

lemma json_body_escape:
  "json_body (json_escape c @ s) = map_option (apfst (Cons c)) (json_body s)"
proof -
  have u: "unicode_escape [CHR ''0'', CHR ''0'', hex_digit (code c div 16), hex_digit (code c mod 16)] = Some c"
    if "code c < 32"
    using that by (simp add: hex_value_digit) (simp add: hex_value_def is_digit_def code_def)
  have eq: "c = char_of (8 :: nat)" if "code c = 8" using that char_of_code [of c] by simp
  have eq': "c = char_of (12 :: nat)" if "code c = 12" using that char_of_code [of c] by simp
  show ?thesis
    using u eq eq' by (auto simp: json_escape_def simple_escape_def)
qed

lemma json_body_quote: "json_body (concat (map json_escape s) @ DQ # rest) = Some (s, rest)"
  by (induction s) (simp_all add: json_body_escape)

lemma json_items_join:
  "xs \<noteq> [] \<Longrightarrow> json_items (js_join '','' (map json_quote xs) @ '']'') = Some xs"
proof (induction xs rule: list_nonempty_induct)
  case (single x)
  then show ?case
    by (subst json_items.simps) (simp add: json_quote_def json_ws_def json_body_quote)
next
  case (cons x xs)
  then have "js_join '','' (map json_quote (x # xs)) @ '']'' =
      DQ # concat (map json_escape x) @ DQ # CHR '','' # js_join '','' (map json_quote xs) @ '']''"
    by (simp add: js_join_Cons json_quote_def)
  with cons.IH show ?case
    by (subst json_items.simps) (simp add: json_ws_def json_body_quote)
qed

lemma json_strings_round: "xs \<noteq> [] \<Longrightarrow> json_string_array (json_of_strings xs) = Some xs"
  by (simp add: json_string_array_def json_of_strings_def json_ws_def json_items_join)

end
