(* ===== verification/RuleMatch.thy ===== *)
theory RuleMatch
  imports PermissionTypes ShellAst JsonText "HOL-Library.Sublist"
begin

text \<open>
  Parsing and matching of shell permission rules (\<open>bash-rule-match.ts\<close>): exact, prefix, wildcard
  and argument-vector rules.  A regular expression is its source text, the flag \<open>i\<close> understood; the
  expressions the module builds from a pattern without stray backslashes are read and matched here,
  and \<open>other\<close> stands for the constructor of \<open>RegExp\<close> on all other sources (\<open>None\<close> when it throws).
\<close>

section \<open>Replacement in strings\<close>

text \<open>\<open>s.replace(/needle/g, repl)\<close> for a literal, non-empty needle.\<close>

fun replace_all :: "string \<Rightarrow> string \<Rightarrow> string \<Rightarrow> string" where
  "replace_all needle repl [] = []"
| "replace_all needle repl (c # s) =
     (if starts_with needle (c # s) then repl @ replace_all needle repl (drop (length needle - 1) s)
      else c # replace_all needle repl s)"

section \<open>Regular expressions\<close>

datatype regex_atom = RLit char | RAnyText

text \<open>A source \<open>^...$\<close> made of literals, escaped punctuation and \<open>.*\<close>; \<open>None\<close> for any other source.\<close>

fun regex_atoms :: "string \<Rightarrow> regex_atom list option" where
  "regex_atoms [] = None"
| "regex_atoms [c] = (if c = CHR ''$'' then Some [] else None)"
| "regex_atoms (c # d # s) =
     (if c = BS then (if is_alnum d then None else map_option (Cons (RLit d)) (regex_atoms s))
      else if c = CHR ''.'' then
        (if d = CHR ''*'' then map_option (Cons RAnyText) (regex_atoms s) else None)
      else if c \<in> set ''^$*+?()[]{}|'' then None
      else map_option (Cons (RLit c)) (regex_atoms (d # s)))"

definition regex_source :: "string \<Rightarrow> regex_atom list option" where
  "regex_source src =
     (case src of [] \<Rightarrow> None | c # s \<Rightarrow> if c = CHR ''^'' then regex_atoms s else None)"

text \<open>Case folding of 8-bit characters, by upper case, and the characters a dot does not match.\<close>

definition canonical :: "char \<Rightarrow> char" where
  "canonical c =
     (if is_lower c \<or> (224 \<le> code c \<and> code c \<le> 254 \<and> code c \<noteq> 247)
      then char_of (code c - 32) else c)"

definition line_end :: "char \<Rightarrow> bool" where
  "line_end c \<longleftrightarrow> c = LF \<or> c = CR"

fun match_atoms :: "regex_atom list \<Rightarrow> string \<Rightarrow> bool" where
  "match_atoms [] s = (s = [])"
| "match_atoms (RLit c # as) [] = False"
| "match_atoms (RLit c # as) (x # s) = (canonical x = canonical c \<and> match_atoms as s)"
| "match_atoms (RAnyText # as) [] = match_atoms as []"
| "match_atoms (RAnyText # as) (x # s) =
     (match_atoms as (x # s) \<or> (\<not> line_end x \<and> match_atoms (RAnyText # as) s))"

type_synonym regexp = "string \<Rightarrow> bool"

definition new_RegExp :: "(string \<Rightarrow> regexp option) \<Rightarrow> string \<Rightarrow> regexp option" where
  "new_RegExp other src =
     (case regex_source src of Some as \<Rightarrow> Some (match_atoms as) | None \<Rightarrow> other src)"

section \<open>Argument-vector rules\<close>

definition encodeArgvPrefixRule :: "string list \<Rightarrow> string" where
  "encodeArgvPrefixRule argv = json_of_strings argv"

definition tryDecodeArgvPrefix :: "string \<Rightarrow> string list option" where
  "tryDecodeArgvPrefix content =
     (let trimmed = js_trim content
      in if \<not> starts_with ''['' trimmed \<or> \<not> ends_with '']'' trimmed then None
         else json_string_array trimmed)"

section \<open>Parsing a rule\<close>

fun unescapedWildcardFrom :: "char option \<Rightarrow> string \<Rightarrow> bool" where
  "unescapedWildcardFrom prev [] = False"
| "unescapedWildcardFrom prev (c # s) =
     (c = CHR ''*'' \<and> prev \<noteq> Some BS \<or> unescapedWildcardFrom (Some c) s)"

definition containsUnescapedWildcard :: "string \<Rightarrow> bool" where
  "containsUnescapedWildcard s = unescapedWildcardFrom None s"

text \<open>The first group of \<open>/^(.+):\*$/\<close>.\<close>

definition prefixMatch :: "string \<Rightarrow> string option" where
  "prefixMatch content =
     (let p = take (length content - 2) content
      in if ends_with '':*'' content \<and> p \<noteq> [] \<and> list_all (\<lambda>c. \<not> line_end c) p then Some p else None)"

definition parseShellRule :: "string \<Rightarrow> shell_permission_rule" where
  "parseShellRule content =
     (case tryDecodeArgvPrefix content of
        Some argv \<Rightarrow> ShellArgvPrefix argv
      | None \<Rightarrow>
          (case prefixMatch content of
             Some p \<Rightarrow>
               if \<not> containsUnescapedWildcard p then ShellPrefix p
               else if containsUnescapedWildcard content then ShellWildcard content
               else ShellExact content
           | None \<Rightarrow>
               if containsUnescapedWildcard content then ShellWildcard content
               else ShellExact content))"

section \<open>Wildcards\<close>

abbreviation NUL :: char where "NUL \<equiv> CHR 0x00"

definition ESCAPED_STAR_SENTINEL :: string where
  "ESCAPED_STAR_SENTINEL = NUL # ''STAR'' @ [NUL]"

definition ESCAPED_BACKSLASH_SENTINEL :: string where
  "ESCAPED_BACKSLASH_SENTINEL = NUL # ''BSLASH'' @ [NUL]"

definition regex_special :: "char \<Rightarrow> bool" where
  "regex_special c \<longleftrightarrow> c \<in> set ''.+?^${}()|[]''"

text \<open>The sentinels hold no special characters, so the expressions made of them by \<open>escapeRegExp\<close> are literal.\<close>

definition escapeRegExp :: "string \<Rightarrow> string" where
  "escapeRegExp s = concat (map (\<lambda>c. if regex_special c \<or> c = CHR ''*'' \<or> c = BS then [BS, c] else [c]) s)"

definition wildcardSource :: "string \<Rightarrow> string" where
  "wildcardSource pattern =
     (let s1 = replace_all [BS, CHR ''*''] ESCAPED_STAR_SENTINEL
            (replace_all [BS, BS] ESCAPED_BACKSLASH_SENTINEL pattern);
          s2 = concat (map (\<lambda>c. if regex_special c then [BS, c] else [c]) s1);
          s3 = replace_all ''*'' ''.*'' s2;
          s4 = replace_all ESCAPED_BACKSLASH_SENTINEL [BS, BS]
            (replace_all ESCAPED_STAR_SENTINEL [BS, CHR ''*''] s3)
      in ''^'' @ s4 @ ''$'')"

definition compileWildcardPattern :: "(string \<Rightarrow> regexp option) \<Rightarrow> string \<Rightarrow> regexp option" where
  "compileWildcardPattern other pattern = new_RegExp other (wildcardSource pattern)"

definition matchWildcardPattern :: "(string \<Rightarrow> regexp option) \<Rightarrow> string \<Rightarrow> string \<Rightarrow> bool" where
  "matchWildcardPattern other command pattern =
     (case compileWildcardPattern other pattern of Some re \<Rightarrow> re command | None \<Rightarrow> False)"

section \<open>Matching\<close>

datatype compiled_rule =
    PlainRule shell_permission_rule
  | CompiledWildcard string "regexp option"

definition compileShellRule :: "(string \<Rightarrow> regexp option) \<Rightarrow> string \<Rightarrow> compiled_rule" where
  "compileShellRule other content =
     (case parseShellRule content of
        ShellWildcard pattern \<Rightarrow> CompiledWildcard pattern (compileWildcardPattern other pattern)
      | rule \<Rightarrow> PlainRule rule)"

definition matchArgvPrefix :: "string \<Rightarrow> string list \<Rightarrow> bool" where
  "matchArgvPrefix command argv =
     (case parseScriptPlainCommands command of
        None \<Rightarrow> False
      | Some commands \<Rightarrow>
          if length commands \<noteq> 1 then False
          else (let target = hd commands
            in if length argv > length target then False
               else list_all (\<lambda>i. argv ! i = target ! i) [0..<length argv]))"

fun matchShellRule :: "(string \<Rightarrow> regexp option) \<Rightarrow> string \<Rightarrow> compiled_rule \<Rightarrow> bool" where
  "matchShellRule other command (PlainRule (ShellExact c)) = (command = c)"
| "matchShellRule other command (PlainRule (ShellPrefix p)) =
     (command = p \<or> starts_with (p @ '' '') command)"
| "matchShellRule other command (PlainRule (ShellArgvPrefix argv)) = matchArgvPrefix command argv"
| "matchShellRule other command (PlainRule (ShellWildcard pattern)) = matchWildcardPattern other command pattern"
| "matchShellRule other command (CompiledWildcard pattern regex) =
     (case regex of Some re \<Rightarrow> re command | None \<Rightarrow> False)"

section \<open>Compiling a rule first\<close>

lemma match_compiled:
  "matchShellRule other command (compileShellRule other content)
    = matchShellRule other command (PlainRule (parseShellRule content))"
  by (simp add: compileShellRule_def matchWildcardPattern_def split: shell_permission_rule.split)

lemma matchArgvPrefix_prefix:
  "parseScriptPlainCommands command = Some [target] \<Longrightarrow> matchArgvPrefix command argv \<longleftrightarrow> prefix argv target"
proof -
  assume p: "parseScriptPlainCommands command = Some [target]"
  have "prefix argv target \<longleftrightarrow> length argv \<le> length target \<and> (\<forall>i < length argv. argv ! i = target ! i)"
    by (metis append_eq_conv_conj nth_take_lemma order_refl prefix_def prefix_length_le nth_append take_all_iff)
  with p show ?thesis by (auto simp: matchArgvPrefix_def list_all_iff)
qed

lemma tryDecode_encode: "argv \<noteq> [] \<Longrightarrow> tryDecodeArgvPrefix (encodeArgvPrefixRule argv) = Some argv"
proof -
  assume ne: "argv \<noteq> []"
  have "js_trim (json_of_strings argv) = json_of_strings argv"
    by (simp add: json_of_strings_def js_trim_def js_ws_def)
  moreover have "starts_with ''['' (json_of_strings argv)" "ends_with '']'' (json_of_strings argv)"
    by (simp_all add: json_of_strings_def ends_with_def)
  ultimately show ?thesis
    using ne by (simp add: tryDecodeArgvPrefix_def encodeArgvPrefixRule_def json_strings_round)
qed

section \<open>The meaning of a wildcard pattern\<close>

text \<open>
  The documented reading of a pattern, from left to right: a star is any text within one line, and a
  backslash makes a star or a backslash literal.  Other backslashes have no documented meaning.
\<close>

datatype glob_token = AnyText | StarChar | BackslashChar | Literal char

fun glob_tokens :: "string \<Rightarrow> glob_token list option" where
  "glob_tokens [] = Some []"
| "glob_tokens (c # s) =
     (if c = CHR ''*'' then map_option (Cons AnyText) (glob_tokens s)
      else if c = BS then
        (case s of
           [] \<Rightarrow> None
         | d # r \<Rightarrow>
             if d = BS then map_option (Cons BackslashChar) (glob_tokens r)
             else if d = CHR ''*'' then map_option (Cons StarChar) (glob_tokens r)
             else None)
      else map_option (Cons (Literal c)) (glob_tokens s))"

fun piece_matches :: "string \<Rightarrow> glob_token \<Rightarrow> bool" where
  "piece_matches p AnyText = list_all (\<lambda>c. \<not> line_end c) p"
| "piece_matches p StarChar = (p = ''*'')"
| "piece_matches p BackslashChar = (p = [BS])"
| "piece_matches p (Literal c) = (\<exists>d. p = [d] \<and> canonical d = canonical c)"

definition glob_matches :: "glob_token list \<Rightarrow> string \<Rightarrow> bool" where
  "glob_matches ts s \<longleftrightarrow> (\<exists>ps. concat ps = s \<and> list_all2 piece_matches ps ts)"

subsection \<open>Rendering tokens at each stage of the compilation\<close>

fun token_text :: "glob_token \<Rightarrow> string" where
  "token_text AnyText = ''*''"
| "token_text StarChar = [BS, CHR ''*'']"
| "token_text BackslashChar = [BS, BS]"
| "token_text (Literal c) = [c]"

definition render :: "string \<Rightarrow> string \<Rightarrow> string \<Rightarrow> (char \<Rightarrow> string) \<Rightarrow> glob_token list \<Rightarrow> string" where
  "render any star bs lit ts =
     concat (map (\<lambda>t. case t of AnyText \<Rightarrow> any | StarChar \<Rightarrow> star | BackslashChar \<Rightarrow> bs | Literal c \<Rightarrow> lit c) ts)"

lemma render_simps [simp]:
  "render any star bs lit [] = []"
  "render any star bs lit (AnyText # ts) = any @ render any star bs lit ts"
  "render any star bs lit (StarChar # ts) = star @ render any star bs lit ts"
  "render any star bs lit (BackslashChar # ts) = bs @ render any star bs lit ts"
  "render any star bs lit (Literal c # ts) = lit c @ render any star bs lit ts"
  by (simp_all add: render_def)

fun plain_token :: "glob_token \<Rightarrow> bool" where
  "plain_token (Literal c) = (c \<noteq> BS \<and> c \<noteq> CHR ''*'' \<and> c \<noteq> NUL)"
| "plain_token _ = True"

lemma glob_tokens_cases:
  assumes "glob_tokens (c # s) = Some ts"
  obtains ts' where "c = CHR ''*''" "glob_tokens s = Some ts'" "ts = AnyText # ts'"
  | r ts' where "c = BS" "s = BS # r" "glob_tokens r = Some ts'" "ts = BackslashChar # ts'"
  | r ts' where "c = BS" "s = CHR ''*'' # r" "glob_tokens r = Some ts'" "ts = StarChar # ts'"
  | ts' where "c \<noteq> CHR ''*''" "c \<noteq> BS" "glob_tokens s = Some ts'" "ts = Literal c # ts'"
proof (cases "c = BS")
  case True
  then obtain d r where s: "s = d # r" using assms by (cases s) simp_all
  show ?thesis
  proof (cases "d = BS")
    case True
    then show ?thesis using assms \<open>c = BS\<close> s by (auto intro: that(2))
  next
    case False
    then have "d = CHR ''*''" using assms \<open>c = BS\<close> s by (simp split: if_splits)
    then show ?thesis using assms \<open>c = BS\<close> s by (auto intro: that(3))
  qed
next
  case False
  show ?thesis
  proof (cases "c = CHR ''*''")
    case True
    then show ?thesis using assms by (auto intro: that(1))
  next
    case False
    then show ?thesis using assms \<open>c \<noteq> BS\<close> by (auto intro: that(4))
  qed
qed

lemma glob_tokens_text:
  "glob_tokens s = Some ts \<Longrightarrow>
   render ''*'' [BS, CHR ''*''] [BS, BS] (\<lambda>c. [c]) ts = s \<and> (NUL \<notin> set s \<longrightarrow> list_all plain_token ts)"
proof (induction s arbitrary: ts rule: length_induct)
  case (1 s)
  show ?case
  proof (cases s)
    case Nil
    with 1 show ?thesis by simp
  next
    case (Cons c s')
    from "1.prems" [unfolded Cons] show ?thesis
      by (cases rule: glob_tokens_cases) (use "1.IH" Cons in \<open>force+\<close>)
  qed
qed

definition escape_special :: "char \<Rightarrow> string" where
  "escape_special c = (if regex_special c then [BS, c] else [c])"

lemma replace_skip: "n \<notin> set u \<Longrightarrow> replace_all (n # ns) r (u @ s) = u @ replace_all (n # ns) r s"
  by (induction u) auto

lemma replace_hit [simp]: "replace_all (n # ns) r (n # ns @ s) = r @ replace_all (n # ns) r s"
  by simp

lemma stage_backslashes:
  "list_all plain_token ts \<Longrightarrow>
   replace_all [BS, BS] b (render ''*'' [BS, CHR ''*''] [BS, BS] (\<lambda>c. [c]) ts)
     = render ''*'' [BS, CHR ''*''] b (\<lambda>c. [c]) ts"
proof (induction ts)
  case (Cons t ts)
  then show ?case by (cases t) auto
qed simp

lemma stage_stars:
  "list_all plain_token ts \<Longrightarrow> BS \<notin> set b \<Longrightarrow>
   replace_all [BS, CHR ''*''] a (render ''*'' [BS, CHR ''*''] b (\<lambda>c. [c]) ts)
     = render ''*'' a b (\<lambda>c. [c]) ts"
proof (induction ts)
  case (Cons t ts)
  then show ?case by (cases t) (auto simp: replace_skip)
qed simp

lemma stage_special:
  "concat (map escape_special a) = a \<Longrightarrow> concat (map escape_special b) = b \<Longrightarrow>
   concat (map escape_special (render ''*'' a b (\<lambda>c. [c]) ts)) = render ''*'' a b escape_special ts"
proof (induction ts)
  case (Cons t ts)
  then show ?case by (cases t) (auto simp: escape_special_def regex_special_def)
qed simp

lemma stage_any:
  "list_all plain_token ts \<Longrightarrow> CHR ''*'' \<notin> set a \<Longrightarrow> CHR ''*'' \<notin> set b \<Longrightarrow>
   replace_all ''*'' ''.*'' (render ''*'' a b escape_special ts) = render ''.*'' a b escape_special ts"
proof (induction ts)
  case (Cons t ts)
  then show ?case by (cases t) (auto simp: replace_skip escape_special_def)
qed simp


text \<open>
  A sentinel can also appear by accident, across the end of a backslash sentinel: this needs the text
  \<open>STAR\<close> between an escaped backslash and another escape.
\<close>

definition sentinel_clash :: string where
  "sentinel_clash = [BS, BS] @ ''STAR'' @ [BS]"

lemma escape_no_nul: "c \<noteq> NUL \<Longrightarrow> NUL \<notin> set (escape_special c)"
  by (auto simp: escape_special_def)

lemma render_letter:
  assumes "starts_with (c # w) (render ''.*'' ESCAPED_STAR_SENTINEL ESCAPED_BACKSLASH_SENTINEL escape_special ts)"
    and "is_alpha c"
  shows "\<exists>ts'. ts = Literal c # ts'
    \<and> starts_with w (render ''.*'' ESCAPED_STAR_SENTINEL ESCAPED_BACKSLASH_SENTINEL escape_special ts')"
proof (cases ts)
  case Nil
  with assms show ?thesis by simp
next
  case (Cons t ts')
  have ne: "c \<noteq> BS" "c \<noteq> CHR ''.''" "c \<noteq> NUL"
    using assms(2) by (auto simp: is_alpha_def is_upper_def is_lower_def code_def)
  show ?thesis
  proof (cases t)
    case (Literal x)
    have "escape_special x = [x] \<or> escape_special x = [BS, x]" by (simp add: escape_special_def)
    then show ?thesis using assms(1) ne Cons Literal by auto
  qed (use assms(1) ne Cons in \<open>simp_all add: ESCAPED_STAR_SENTINEL_def ESCAPED_BACKSLASH_SENTINEL_def\<close>)
qed

lemma no_clash_tail:
  assumes "\<not> starts_with (''STAR'' @ [BS]) (render ''*'' [BS, CHR ''*''] [BS, BS] (\<lambda>c. [c]) ts)"
    "list_all plain_token ts"
  shows "\<not> starts_with (''STAR'' @ [NUL])
     (render ''.*'' ESCAPED_STAR_SENTINEL ESCAPED_BACKSLASH_SENTINEL escape_special ts)"
    (is "\<not> starts_with _ (?r ts)")
proof
  note d = is_alpha_def is_upper_def code_def
  assume "starts_with (''STAR'' @ [NUL]) (?r ts)"
  then obtain ts1 where 1: "ts = Literal (CHR ''S'') # ts1" "starts_with (''TAR'' @ [NUL]) (?r ts1)"
    using render_letter [of "CHR ''S''" "''TAR'' @ [NUL]"] by (auto simp: d)
  then obtain ts2 where 2: "ts1 = Literal (CHR ''T'') # ts2" "starts_with (''AR'' @ [NUL]) (?r ts2)"
    using render_letter [of "CHR ''T''" "''AR'' @ [NUL]"] by (auto simp: d)
  then obtain ts3 where 3: "ts2 = Literal (CHR ''A'') # ts3" "starts_with (''R'' @ [NUL]) (?r ts3)"
    using render_letter [of "CHR ''A''" "''R'' @ [NUL]"] by (auto simp: d)
  then obtain ts4 where 4: "ts3 = Literal (CHR ''R'') # ts4" "starts_with [NUL] (?r ts4)"
    using render_letter [of "CHR ''R''" "[NUL]"] by (auto simp: d)
  obtain t ts5 where 5: "ts4 = t # ts5" using 4(2) by (cases ts4) simp_all
  have "t = StarChar \<or> t = BackslashChar"
  proof (cases t)
    case (Literal x)
    then have "x \<noteq> NUL" using 1 2 3 4(1) 5 assms(2) by simp
    then have "hd (escape_special x) \<noteq> NUL" "escape_special x \<noteq> []"
      by (auto simp: escape_special_def)
    with 4(2) 5 Literal show ?thesis by (cases "escape_special x") auto
  qed (use 4(2) 5 in simp_all)
  with assms(1) 1 2 3 4(1) 5 show False by auto
qed

lemma stage_restore_stars:
  assumes "list_all plain_token ts"
    "\<not> str_includes sentinel_clash (render ''*'' [BS, CHR ''*''] [BS, BS] (\<lambda>c. [c]) ts)"
  shows "replace_all ESCAPED_STAR_SENTINEL r
       (render ''.*'' ESCAPED_STAR_SENTINEL ESCAPED_BACKSLASH_SENTINEL escape_special ts)
     = render ''.*'' r ESCAPED_BACKSLASH_SENTINEL escape_special ts"
  using assms
proof (induction ts)
  case (Cons t ts)
  note d = ESCAPED_STAR_SENTINEL_def ESCAPED_BACKSLASH_SENTINEL_def
  have IH: "replace_all ESCAPED_STAR_SENTINEL r
       (render ''.*'' ESCAPED_STAR_SENTINEL ESCAPED_BACKSLASH_SENTINEL escape_special ts)
     = render ''.*'' r ESCAPED_BACKSLASH_SENTINEL escape_special ts"
    using Cons by (cases t) auto
  show ?case
  proof (cases t)
    case BackslashChar
    have "\<not> starts_with (''STAR'' @ [BS]) (render ''*'' [BS, CHR ''*''] [BS, BS] (\<lambda>c. [c]) ts)"
      using Cons.prems(2) BackslashChar by (auto simp: sentinel_clash_def)
    then have "\<not> starts_with (''STAR'' @ [NUL])
        (render ''.*'' ESCAPED_STAR_SENTINEL ESCAPED_BACKSLASH_SENTINEL escape_special ts)"
      using no_clash_tail Cons.prems(1) by simp
    with IH BackslashChar show ?thesis by (simp add: d)
  next
    case AnyText
    with IH show ?thesis by (simp add: d)
  next
    case StarChar
    with IH show ?thesis by (simp add: d)
  next
    case (Literal c)
    with IH Cons.prems(1) show ?thesis by (simp add: d replace_skip escape_no_nul)
  qed
qed (simp add: ESCAPED_STAR_SENTINEL_def)

lemma stage_restore_backslashes:
  "list_all plain_token ts \<Longrightarrow>
   replace_all ESCAPED_BACKSLASH_SENTINEL r
       (render ''.*'' [BS, CHR ''*''] ESCAPED_BACKSLASH_SENTINEL escape_special ts)
     = render ''.*'' [BS, CHR ''*''] r escape_special ts"
proof (induction ts)
  case (Cons t ts)
  then show ?case
    by (cases t) (simp_all add: ESCAPED_BACKSLASH_SENTINEL_def replace_skip escape_no_nul)
qed (simp add: ESCAPED_BACKSLASH_SENTINEL_def)

lemma wildcardSource_tokens:
  assumes "glob_tokens pattern = Some ts" "NUL \<notin> set pattern" "\<not> str_includes sentinel_clash pattern"
  shows "wildcardSource pattern = ''^'' @ render ''.*'' [BS, CHR ''*''] [BS, BS] escape_special ts @ ''$''"
proof -
  note form = glob_tokens_text [OF assms(1)]
  have plain: "list_all plain_token ts" using form assms(2) by simp
  have noclash: "\<not> str_includes sentinel_clash (render ''*'' [BS, CHR ''*''] [BS, BS] (\<lambda>c. [c]) ts)"
    using form assms(3) by simp
  have f: "BS \<notin> set ESCAPED_BACKSLASH_SENTINEL" "CHR ''*'' \<notin> set ESCAPED_STAR_SENTINEL"
    "CHR ''*'' \<notin> set ESCAPED_BACKSLASH_SENTINEL"
    "concat (map escape_special ESCAPED_STAR_SENTINEL) = ESCAPED_STAR_SENTINEL"
    "concat (map escape_special ESCAPED_BACKSLASH_SENTINEL) = ESCAPED_BACKSLASH_SENTINEL"
    by (simp_all add: ESCAPED_STAR_SENTINEL_def ESCAPED_BACKSLASH_SENTINEL_def escape_special_def regex_special_def)
  have "wildcardSource (render ''*'' [BS, CHR ''*''] [BS, BS] (\<lambda>c. [c]) ts)
      = ''^'' @ render ''.*'' [BS, CHR ''*''] [BS, BS] escape_special ts @ ''$''"
    unfolding wildcardSource_def Let_def escape_special_def [symmetric] fun_eq_iff
    by (simp add: stage_backslashes plain stage_stars f stage_special stage_any stage_restore_stars noclash
        stage_restore_backslashes del: replace_all.simps)
  then show ?thesis using form by simp
qed


subsection \<open>Matching the compiled expression\<close>

fun token_atom :: "glob_token \<Rightarrow> regex_atom" where
  "token_atom AnyText = RAnyText"
| "token_atom StarChar = RLit (CHR ''*'')"
| "token_atom BackslashChar = RLit BS"
| "token_atom (Literal c) = RLit c"

lemma regex_atoms_literal:
  "s \<noteq> [] \<Longrightarrow> \<not> regex_special c \<Longrightarrow> c \<noteq> BS \<Longrightarrow> c \<noteq> CHR ''*'' \<Longrightarrow>
   regex_atoms (c # s) = map_option (Cons (RLit c)) (regex_atoms s)"
  by (cases s) (auto simp: regex_special_def)

lemma special_not_alnum: "regex_special c \<Longrightarrow> \<not> is_alnum c"
  by (auto simp: regex_special_def is_alnum_def is_alpha_def is_upper_def is_lower_def is_digit_def code_def)

lemma escapes_not_alnum: "\<not> is_alnum BS" "\<not> is_alnum (CHR ''*'')"
  by (simp_all add: is_alnum_def is_alpha_def is_upper_def is_lower_def is_digit_def code_def)

lemma regex_atoms_render:
  "list_all plain_token ts \<Longrightarrow>
   regex_atoms (render ''.*'' [BS, CHR ''*''] [BS, BS] escape_special ts @ ''$'') = Some (map token_atom ts)"
proof (induction ts)
  case (Cons t ts)
  then show ?case
    by (cases t)
      (auto simp: escape_special_def regex_atoms_literal special_not_alnum escapes_not_alnum)
qed simp

lemma code_char_of: "n < 256 \<Longrightarrow> code (char_of n) = n"
  by (simp add: code_def)

lemma code_eq_iff: "code a = code b \<longleftrightarrow> a = b"
  by (metis char_of_code)

lemma canonical_fixed:
  "code c < 65 \<or> code c = 92 \<Longrightarrow> canonical x = canonical c \<longleftrightarrow> x = c"
  by (auto simp: canonical_def is_lower_def code_char_of code_eq_iff [symmetric])

lemma glob_matches_Nil: "glob_matches [] s \<longleftrightarrow> s = []"
  by (auto simp: glob_matches_def)

lemma glob_matches_Cons:
  "glob_matches (t # ts) s \<longleftrightarrow> (\<exists>p r. s = p @ r \<and> piece_matches p t \<and> glob_matches ts r)"
proof
  assume "glob_matches (t # ts) s"
  then obtain p ps where "concat (p # ps) = s" "piece_matches p t" "list_all2 piece_matches ps ts"
    by (auto simp: glob_matches_def list_all2_Cons2)
  then have "s = p @ concat ps \<and> piece_matches p t \<and> glob_matches ts (concat ps)"
    by (auto simp: glob_matches_def)
  then show "\<exists>p r. s = p @ r \<and> piece_matches p t \<and> glob_matches ts r" by blast
next
  assume "\<exists>p r. s = p @ r \<and> piece_matches p t \<and> glob_matches ts r"
  then obtain p ps where "s = concat (p # ps)" "list_all2 piece_matches (p # ps) (t # ts)"
    by (auto simp: glob_matches_def)
  then show "glob_matches (t # ts) s" unfolding glob_matches_def by blast
qed

lemmas glob_matches_simps = glob_matches_Nil glob_matches_Cons

lemma glob_matches_char:
  "(\<And>p. piece_matches p t \<longleftrightarrow> (\<exists>d. p = [d] \<and> canonical d = canonical c)) \<Longrightarrow>
   glob_matches (t # ts) s \<longleftrightarrow> (\<exists>d r. s = d # r \<and> canonical d = canonical c \<and> glob_matches ts r)"
  by (auto simp: glob_matches_Cons) (metis append_Cons append_Nil)

lemma match_char:
  "match_atoms (RLit c # as) s \<longleftrightarrow> (\<exists>d r. s = d # r \<and> canonical d = canonical c \<and> match_atoms as r)"
  by (cases s) auto

lemma glob_matches_any:
  "glob_matches (AnyText # ts) [] \<longleftrightarrow> glob_matches ts []"
  "glob_matches (AnyText # ts) (x # s) \<longleftrightarrow>
     glob_matches ts (x # s) \<or> (\<not> line_end x \<and> glob_matches (AnyText # ts) s)"
proof -
  show "glob_matches (AnyText # ts) [] \<longleftrightarrow> glob_matches ts []"
    by (simp add: glob_matches_simps)
  have "(\<exists>p r. x # s = p @ r \<and> list_all (\<lambda>c. \<not> line_end c) p \<and> glob_matches ts r) \<longleftrightarrow>
      glob_matches ts (x # s) \<or>
      (\<not> line_end x \<and> (\<exists>p r. s = p @ r \<and> list_all (\<lambda>c. \<not> line_end c) p \<and> glob_matches ts r))"
    (is "?l \<longleftrightarrow> ?r")
  proof
    assume ?l
    then obtain p r where "x # s = p @ r" "list_all (\<lambda>c. \<not> line_end c) p" "glob_matches ts r" by blast
    then show ?r by (cases p) auto
  next
    assume ?r
    then show ?l
    proof (elim disjE conjE exE)
      assume "glob_matches ts (x # s)"
      then have "x # s = [] @ x # s \<and> list_all (\<lambda>c. \<not> line_end c) [] \<and> glob_matches ts (x # s)" by simp
      then show ?l by blast
    next
      fix p r assume "\<not> line_end x" "s = p @ r" "list_all (\<lambda>c. \<not> line_end c) p" "glob_matches ts r"
      then have "x # s = (x # p) @ r \<and> list_all (\<lambda>c. \<not> line_end c) (x # p) \<and> glob_matches ts r" by simp
      then show ?l by blast
    qed
  qed
  then show "glob_matches (AnyText # ts) (x # s) \<longleftrightarrow>
     glob_matches ts (x # s) \<or> (\<not> line_end x \<and> glob_matches (AnyText # ts) s)"
    by (simp add: glob_matches_simps)
qed

lemma piece_char:
  "piece_matches p StarChar \<longleftrightarrow> (\<exists>d. p = [d] \<and> canonical d = canonical (CHR ''*''))"
  "piece_matches p BackslashChar \<longleftrightarrow> (\<exists>d. p = [d] \<and> canonical d = canonical BS)"
  by (simp_all add: canonical_fixed code_def)

lemma match_tokens: "match_atoms (map token_atom ts) s \<longleftrightarrow> glob_matches ts s"
proof (induction ts arbitrary: s)
  case Nil
  then show ?case by (simp add: glob_matches_simps)
next
  case (Cons t ts)
  show ?case
  proof (cases t)
    case AnyText
    show ?thesis
      by (induction s) (simp_all add: AnyText Cons.IH [symmetric] glob_matches_any)
  qed (simp_all only: list.map token_atom.simps match_char Cons.IH,
      simp_all only: glob_matches_char [OF piece_char(1)] glob_matches_char [OF piece_char(2)]
        glob_matches_char [OF piece_matches.simps(4)])
qed


section \<open>Properties\<close>

text \<open>
  C36: a wildcard rule matches exactly what its pattern is documented to mean: a star is any text
  within a line, escaped stars and backslashes are literal, everything else is compared without case;
  for every pattern without stray backslashes, NUL characters and the accidental sentinel.
\<close>

theorem wildcard_meaning:
  "glob_tokens pattern = Some ts \<Longrightarrow> NUL \<notin> set pattern \<Longrightarrow> \<not> str_includes sentinel_clash pattern \<Longrightarrow>
   matchWildcardPattern other command pattern \<longleftrightarrow> glob_matches ts command"
proof -
  assume p: "glob_tokens pattern = Some ts" "NUL \<notin> set pattern" "\<not> str_includes sentinel_clash pattern"
  then have "list_all plain_token ts" using glob_tokens_text by blast
  then have "regex_source (wildcardSource pattern) = Some (map token_atom ts)"
    by (simp add: wildcardSource_tokens [OF p] regex_source_def regex_atoms_render)
  then show ?thesis
    by (simp add: matchWildcardPattern_def compileWildcardPattern_def new_RegExp_def match_tokens)
qed

lemma wildcard_meaning_witness: "matchWildcardPattern (\<lambda>_. None) ''NPM run test'' ''npm run *''"
proof -
  have "matchWildcardPattern (\<lambda>_. None) ''NPM run test'' ''npm run *''
      \<longleftrightarrow> glob_matches (map Literal ''npm run '' @ [AnyText]) ''NPM run test''"
    by (rule wildcard_meaning) (simp_all add: sentinel_clash_def)
  moreover have "match_atoms (map token_atom (map Literal ''npm run '' @ [AnyText])) ''NPM run test''"
    by code_simp
  ultimately show ?thesis by (simp only: match_tokens)
qed

text \<open>
  C37: an argument-vector rule survives being stored as text, and on a command line of quoted
  arguments it matches exactly the vectors it is a prefix of; a line of several such commands joined
  by one of the operators \<open>;\<close>, \<open>&&\<close>, \<open>||\<close> and \<open>|\<close> it never matches.  (A newline is not among them.)
\<close>

theorem argv_rule_matches:
  "argv \<noteq> [] \<Longrightarrow> list_all plain_argv cmds \<Longrightarrow> cmds \<noteq> [] \<Longrightarrow> sep \<in> set operators \<Longrightarrow>
   matchShellRule other (js_join sep (map command_line cmds)) (compileShellRule other (encodeArgvPrefixRule argv))
     \<longleftrightarrow> length cmds = 1 \<and> prefix argv (hd cmds)"
proof -
  assume argv: "argv \<noteq> []" and cmds: "list_all plain_argv cmds" "cmds \<noteq> []" "sep \<in> set operators"
  have "parseShellRule (encodeArgvPrefixRule argv) = ShellArgvPrefix argv"
    using argv by (simp add: parseShellRule_def tryDecode_encode)
  moreover have "parseScriptPlainCommands (js_join sep (map command_line cmds)) = Some cmds"
    using cmds by (rule parse_joined)
  moreover have "matchArgvPrefix (js_join sep (map command_line cmds)) argv \<longleftrightarrow> length cmds = 1 \<and> prefix argv (hd cmds)"
  proof (cases "length cmds = 1")
    case True
    then obtain a where "cmds = [a]" by (cases cmds) auto
    with calculation(2) show ?thesis by (simp add: matchArgvPrefix_prefix)
  next
    case False
    with calculation(2) show ?thesis by (simp add: matchArgvPrefix_def)
  qed
  ultimately show ?thesis by (simp add: match_compiled)
qed

lemma argv_rule_matches_witness:
  "\<not> matchShellRule (\<lambda>_. None) (js_join ''&&'' (map command_line [[''ls''], [''rm'', ''x'']]))
      (compileShellRule (\<lambda>_. None) (encodeArgvPrefixRule [''ls'']))"
  using argv_rule_matches [of "[''ls'']" "[[''ls''], [''rm'', ''x'']]" "''&&''" "\<lambda>_. None"]
  by (simp add: plain_argv_def isAssignmentPrefix_def operators_def)

section \<open>Limits\<close>

text \<open>
  A newline does not make a line compound for the parser, so a stored rule for \<open>ls\<close> matches two
  commands.  A backslash the pattern reading gives no meaning is passed on to the expression: the last
  one escapes the end anchor.  The text \<open>STAR\<close> between escapes is taken for a sentinel.
\<close>

lemma argv_rule_matches_two_lines:
  "matchShellRule other (''ls'' @ [LF] @ ''rm x'') (compileShellRule other (encodeArgvPrefixRule [''ls'']))"
  using newline_is_not_a_separator tryDecode_encode [of "[''ls'']"]
  by (simp add: match_compiled parseShellRule_def matchArgvPrefix_def)

lemma final_backslash_unanchors: "wildcardSource (''a*'' @ [BS]) = ''^a.*'' @ [BS, CHR ''$'']"
  by (simp add: wildcardSource_def ESCAPED_STAR_SENTINEL_def ESCAPED_BACKSLASH_SENTINEL_def regex_special_def)

lemma sentinel_by_accident:
  "wildcardSource ([BS, BS] @ ''STAR'' @ [BS, BS, CHR ''*''])
    = ''^'' @ [NUL] @ ''BSLASH'' @ [BS, CHR ''*''] @ ''BSLASH'' @ [NUL] @ ''.*$''"
  by (simp add: wildcardSource_def ESCAPED_STAR_SENTINEL_def ESCAPED_BACKSLASH_SENTINEL_def regex_special_def)

lemma escaped_backslash_star_is_exact:
  "parseShellRule (''C:'' @ [BS, BS, CHR ''*'']) = ShellExact (''C:'' @ [BS, BS, CHR ''*''])"
  by (simp add: parseShellRule_def tryDecodeArgvPrefix_def js_trim_def js_ws_def prefixMatch_def
      ends_with_def containsUnescapedWildcard_def)

end
