(* ===== verification/SessionGate.thy ===== *)
theory SessionGate
  imports Prelude
begin

text \<open>
  The gate between ordinary operations on a session and exclusive or deleting ones
  (\<open>session-operation-gate.ts\<close> of \<open>local-runtime-v2\<close>).  The state objects are kept in a heap, because
  the closures handed out keep a reference to the object of the session, which the map may have
  dropped; so are the promises, of which only the resolved ones are recorded.  The \<open>released\<close> flags
  are the local variables of the closures.
\<close>

section \<open>State\<close>

record operation_state =
  opActive :: int
  opDeleting :: bool
  opMutation :: "nat option"
  opSharedDrain :: "nat option"
  opFullDrain :: "nat option"

record permit =
  permitSession :: string
  permitState :: nat
  permitReleased :: bool

record lease =
  leaseSession :: string
  leaseState :: nat
  leaseToken :: nat
  leaseDrained :: nat
  leaseReleased :: bool

record gate =
  gateStates :: "string \<Rightarrow> nat option"
  gateHeap :: "nat \<Rightarrow> operation_state"
  nextState :: nat
  resolvedPromises :: "nat set"
  nextPromise :: nat
  nextToken :: nat
  permits :: "permit list"
  leases :: "lease list"

definition createState :: operation_state where
  "createState = \<lparr>opActive = 0, opDeleting = False, opMutation = None, opSharedDrain = None,
     opFullDrain = None\<rparr>"

definition createSessionOperationGate :: gate where
  "createSessionOperationGate = \<lparr>gateStates = (\<lambda>s. None), gateHeap = (\<lambda>o'. createState), nextState = 0,
     resolvedPromises = {}, nextPromise = 0, nextToken = 0, permits = [], leases = []\<rparr>"

section \<open>Operations\<close>

text \<open>\<open>states.get(sessionId) ?? createState()\<close>: the object, and the gate that has it in its heap.\<close>

definition getState :: "string \<Rightarrow> gate \<Rightarrow> nat \<times> gate" where
  "getState sid g =
     (case gateStates g sid of
        Some r \<Rightarrow> (r, g)
      | None \<Rightarrow> (nextState g, g\<lparr>gateHeap := (gateHeap g)(nextState g := createState),
                              nextState := nextState g + 1\<rparr>))"

definition setState :: "nat \<Rightarrow> operation_state \<Rightarrow> gate \<Rightarrow> gate" where
  "setState r st g = g\<lparr>gateHeap := (gateHeap g)(r := st)\<rparr>"

text \<open>A promise that is already resolved, and one that is not.\<close>

definition resolvedPromise :: "gate \<Rightarrow> nat \<times> gate" where
  "resolvedPromise g = (nextPromise g, g\<lparr>nextPromise := nextPromise g + 1,
     resolvedPromises := insert (nextPromise g) (resolvedPromises g)\<rparr>)"

definition deferred :: "gate \<Rightarrow> nat \<times> gate" where
  "deferred g = (nextPromise g, g\<lparr>nextPromise := nextPromise g + 1\<rparr>)"

definition resolveOpt :: "nat option \<Rightarrow> gate \<Rightarrow> gate" where
  "resolveOpt d g = (case d of None \<Rightarrow> g
     | Some p \<Rightarrow> g\<lparr>resolvedPromises := insert p (resolvedPromises g)\<rparr>)"

definition sharedDrain :: "nat \<Rightarrow> gate \<Rightarrow> nat \<times> gate" where
  "sharedDrain r g =
     (let st = gateHeap g r
      in if opActive st = 0 then resolvedPromise g
         else case opSharedDrain st of
             Some p \<Rightarrow> (p, g)
           | None \<Rightarrow> let (p, g') = deferred g in (p, setState r (st\<lparr>opSharedDrain := Some p\<rparr>) g'))"

definition settleDrains :: "nat \<Rightarrow> gate \<Rightarrow> gate" where
  "settleDrains r g =
     (let st = gateHeap g r
      in if opActive st \<noteq> 0 then g
         else
           let g1 = setState r (st\<lparr>opSharedDrain := None\<rparr>) (resolveOpt (opSharedDrain st) g)
           in if opMutation st \<noteq> None then g1
              else setState r (st\<lparr>opSharedDrain := None, opFullDrain := None\<rparr>)
                     (resolveOpt (opFullDrain st) g1))"

definition settleState :: "string \<Rightarrow> nat \<Rightarrow> gate \<Rightarrow> gate" where
  "settleState sid r g =
     (let g' = settleDrains r g; st = gateHeap g' r
      in if opActive st = 0 \<and> \<not> opDeleting st \<and> opMutation st = None \<and> gateStates g' sid = Some r
         then g'\<lparr>gateStates := (gateStates g')(sid := None)\<rparr> else g')"

definition isExclusiveActive :: "string \<Rightarrow> gate \<Rightarrow> bool" where
  "isExclusiveActive sid g \<longleftrightarrow>
     (case gateStates g sid of None \<Rightarrow> False | Some r \<Rightarrow> opMutation (gateHeap g r) \<noteq> None)"

text \<open>The result of \<open>tryEnter\<close> is the index of the new permit.\<close>

definition tryEnter :: "string \<Rightarrow> gate \<Rightarrow> nat option \<times> gate" where
  "tryEnter sid g =
     (let (r, g1) = getState sid g; st = gateHeap g1 r
      in if opDeleting st \<or> opMutation st \<noteq> None then (None, g)
         else (Some (length (permits g)),
               setState r (st\<lparr>opActive := opActive st + 1\<rparr>)
                 (g1\<lparr>gateStates := (gateStates g1)(sid := Some r),
                     permits := permits g1 @ [\<lparr>permitSession = sid, permitState = r, permitReleased = False\<rparr>]\<rparr>)))"

definition releasePermit :: "nat \<Rightarrow> gate \<Rightarrow> gate" where
  "releasePermit k g =
     (let p = permits g ! k; r = permitState p; st = gateHeap g r
      in if permitReleased p then g
         else settleState (permitSession p) r
                (setState r (st\<lparr>opActive := opActive st - 1\<rparr>)
                  (g\<lparr>permits := (permits g)[k := p\<lparr>permitReleased := True\<rparr>]\<rparr>)))"

text \<open>\<open>tryRun\<close>: \<open>operation\<close> is what happens to the gate until the awaited operation ends, by value or error.\<close>

definition tryRun :: "string \<Rightarrow> (gate \<Rightarrow> 'v \<times> gate) \<Rightarrow> gate \<Rightarrow> 'v option \<times> gate" where
  "tryRun sid operation g =
     (case tryEnter sid g of
        (None, g1) \<Rightarrow> (None, g1)
      | (Some k, g1) \<Rightarrow> let (v, g2) = operation g1 in (Some v, releasePermit k g2))"

definition tryAcquireExclusive :: "string \<Rightarrow> gate \<Rightarrow> nat option \<times> gate" where
  "tryAcquireExclusive sid g =
     (let (r, g1) = getState sid g; st = gateHeap g1 r; token = nextToken g
      in if opDeleting st \<or> opMutation st \<noteq> None then (None, g)
         else
           let g2 = setState r (st\<lparr>opMutation := Some token\<rparr>)
                 (g1\<lparr>gateStates := (gateStates g1)(sid := Some r), nextToken := token + 1\<rparr>);
               (drained, g3) = sharedDrain r g2
           in (Some (length (leases g)),
               g3\<lparr>leases := leases g3 @ [\<lparr>leaseSession = sid, leaseState = r, leaseToken = token,
                    leaseDrained = drained, leaseReleased = False\<rparr>]\<rparr>))"

definition lease_lost :: "string \<Rightarrow> string" where
  "lease_lost sid = ''Session exclusive operation lease was lost: '' @ sid"

text \<open>Operations that may throw return the error beside the state they leave.\<close>

definition releaseLease :: "nat \<Rightarrow> gate \<Rightarrow> string option \<times> gate" where
  "releaseLease k g =
     (let l = leases g ! k; r = leaseState l; st = gateHeap g r
      in if leaseReleased l then (None, g)
         else
           let g1 = g\<lparr>leases := (leases g)[k := l\<lparr>leaseReleased := True\<rparr>]\<rparr>
           in if opMutation st \<noteq> Some (leaseToken l) then (Some (lease_lost (leaseSession l)), g1)
              else (None, settleState (leaseSession l) r (setState r (st\<lparr>opMutation := None\<rparr>) g1)))"

definition blockSession :: "string \<Rightarrow> gate \<Rightarrow> nat \<times> gate" where
  "blockSession sid g =
     (let (r, g1) = getState sid g; st = (gateHeap g1 r)\<lparr>opDeleting := True\<rparr>;
          g2 = setState r st (g1\<lparr>gateStates := (gateStates g1)(sid := Some r)\<rparr>)
      in if opActive st = 0 \<and> opMutation st = None then resolvedPromise g2
         else case opFullDrain st of
             Some p \<Rightarrow> (p, g2)
           | None \<Rightarrow> let (p, g3) = deferred g2 in (p, setState r (st\<lparr>opFullDrain := Some p\<rparr>) g3))"

definition releaseSession :: "string \<Rightarrow> gate \<Rightarrow> string option \<times> gate" where
  "releaseSession sid g =
     (case gateStates g sid of
        None \<Rightarrow> (None, g)
      | Some r \<Rightarrow>
          let st = gateHeap g r
          in if opActive st \<noteq> 0 \<or> opMutation st \<noteq> None
             then (Some (''Session operation gate released while active: '' @ sid), g)
             else (None, settleState sid r (setState r (st\<lparr>opDeleting := False\<rparr>) g)))"

section \<open>Events\<close>

datatype gate_event = Enter string | LeavePermit nat | Acquire string | LeaveLease nat
  | Block string | Unblock string

fun gate_do :: "gate_event \<Rightarrow> gate \<Rightarrow> string option \<times> gate" where
  "gate_do (Enter sid) g = (None, snd (tryEnter sid g))"
| "gate_do (LeavePermit k) g = (None, releasePermit k g)"
| "gate_do (Acquire sid) g = (None, snd (tryAcquireExclusive sid g))"
| "gate_do (LeaveLease k) g = releaseLease k g"
| "gate_do (Block sid) g = (None, snd (blockSession sid g))"
| "gate_do (Unblock sid) g = releaseSession sid g"

fun handle_exists :: "gate \<Rightarrow> gate_event \<Rightarrow> bool" where
  "handle_exists g (LeavePermit k) = (k < length (permits g))"
| "handle_exists g (LeaveLease k) = (k < length (leases g))"
| "handle_exists g _ = True"

definition gate_step :: "gate_event \<Rightarrow> gate \<Rightarrow> gate" where
  "gate_step e g = snd (gate_do e g)"

abbreviation gate_reach :: "gate \<Rightarrow> bool" where
  "gate_reach g \<equiv> reached createSessionOperationGate handle_exists gate_step g"

section \<open>Invariant\<close>

definition idle :: "operation_state \<Rightarrow> bool" where
  "idle st \<longleftrightarrow> opActive st = 0 \<and> \<not> opDeleting st \<and> opMutation st = None"

definition open_on :: "nat \<Rightarrow> permit \<Rightarrow> int" where
  "open_on r p = (if permitState p = r \<and> \<not> permitReleased p then 1 else 0)"

definition open_permits :: "permit list \<Rightarrow> nat \<Rightarrow> int" where
  "open_permits ps r = sum_list (map (open_on r) ps)"

definition map_inv :: "nat set \<Rightarrow> gate \<Rightarrow> bool" where
  "map_inv X g \<longleftrightarrow>
     (\<forall>s r. gateStates g s = Some r \<longrightarrow> r < nextState g \<and> (r \<in> X \<or> \<not> idle (gateHeap g r)))
     \<and> (\<forall>s s' r. gateStates g s = Some r \<and> gateStates g s' = Some r \<longrightarrow> s = s')
     \<and> (\<forall>r. (\<forall>s. gateStates g s \<noteq> Some r) \<longrightarrow> gateHeap g r = createState)"

definition permit_inv :: "gate \<Rightarrow> bool" where
  "permit_inv g \<longleftrightarrow>
     (\<forall>p \<in> set (permits g). \<not> permitReleased p \<longrightarrow> gateStates g (permitSession p) = Some (permitState p))
     \<and> (\<forall>r. opActive (gateHeap g r) = open_permits (permits g) r)"

definition lease_inv :: "gate \<Rightarrow> bool" where
  "lease_inv g \<longleftrightarrow>
     (\<forall>l \<in> set (leases g). leaseToken l < nextToken g
        \<and> (\<not> leaseReleased l \<longrightarrow> gateStates g (leaseSession l) = Some (leaseState l)
             \<and> opMutation (gateHeap g (leaseState l)) = Some (leaseToken l)))
     \<and> distinct (map leaseToken (leases g))
     \<and> (\<forall>r t. opMutation (gateHeap g r) = Some t \<longrightarrow>
           (\<exists>l \<in> set (leases g). \<not> leaseReleased l \<and> leaseState l = r \<and> leaseToken l = t))"

definition pending :: "gate \<Rightarrow> nat \<Rightarrow> bool \<Rightarrow> nat option" where
  "pending g r b = (if b then opSharedDrain (gateHeap g r) else opFullDrain (gateHeap g r))"

definition drain_inv :: "nat set \<Rightarrow> gate \<Rightarrow> bool" where
  "drain_inv X g \<longleftrightarrow>
     (\<forall>r b d. pending g r b = Some d \<longrightarrow> d < nextPromise g \<and> d \<notin> resolvedPromises g)
     \<and> (\<forall>r b r' b' d. pending g r b = Some d \<and> pending g r' b' = Some d \<longrightarrow> r = r' \<and> b = b')
     \<and> (\<forall>d < nextPromise g. d \<in> resolvedPromises g \<or> (\<exists>r b. pending g r b = Some d))
     \<and> (\<forall>r d. r \<notin> X \<and> opSharedDrain (gateHeap g r) = Some d \<longrightarrow> opActive (gateHeap g r) \<noteq> 0)
     \<and> (\<forall>r d. r \<notin> X \<and> opFullDrain (gateHeap g r) = Some d \<longrightarrow>
           opActive (gateHeap g r) \<noteq> 0 \<or> opMutation (gateHeap g r) \<noteq> None)
     \<and> resolvedPromises g \<subseteq> {..< nextPromise g}"

definition wait_inv :: "gate \<Rightarrow> bool" where
  "wait_inv g \<longleftrightarrow>
     (\<forall>l \<in> set (leases g). \<not> leaseReleased l \<longrightarrow>
        (leaseDrained l \<in> resolvedPromises g \<and> opActive (gateHeap g (leaseState l)) = 0)
        \<or> opSharedDrain (gateHeap g (leaseState l)) = Some (leaseDrained l))"

definition gate_inv :: "nat set \<Rightarrow> gate \<Rightarrow> bool" where
  "gate_inv X g \<longleftrightarrow> map_inv X g \<and> permit_inv g \<and> lease_inv g \<and> drain_inv X g \<and> wait_inv g"

lemmas inv_defs = map_inv_def permit_inv_def lease_inv_def drain_inv_def wait_inv_def

lemma setState_simps [simp]:
  "gateStates (setState r st g) = gateStates g"
  "gateHeap (setState r st g) = (gateHeap g)(r := st)"
  "nextState (setState r st g) = nextState g"
  "resolvedPromises (setState r st g) = resolvedPromises g"
  "nextPromise (setState r st g) = nextPromise g"
  "nextToken (setState r st g) = nextToken g"
  "permits (setState r st g) = permits g"
  "leases (setState r st g) = leases g"
  by (simp_all add: setState_def)

lemma init_inv: "gate_inv X createSessionOperationGate"
  by (simp add: gate_inv_def inv_defs createSessionOperationGate_def createState_def open_permits_def
      pending_def)

section \<open>Settling\<close>

definition settled :: "operation_state \<Rightarrow> operation_state" where
  "settled st = (if opActive st \<noteq> 0 then st
     else if opMutation st \<noteq> None then st\<lparr>opSharedDrain := None\<rparr>
     else st\<lparr>opSharedDrain := None, opFullDrain := None\<rparr>)"

definition settled_promises :: "operation_state \<Rightarrow> nat set" where
  "settled_promises st = (if opActive st \<noteq> 0 then {}
     else if opMutation st \<noteq> None then set_option (opSharedDrain st)
     else set_option (opSharedDrain st) \<union> set_option (opFullDrain st))"

lemma settleState_fields:
  "gateHeap (settleState sid r g) = (gateHeap g)(r := settled (gateHeap g r))"
  "resolvedPromises (settleState sid r g) = resolvedPromises g \<union> settled_promises (gateHeap g r)"
  "gateStates (settleState sid r g) =
     (if idle (gateHeap g r) \<and> gateStates g sid = Some r then (gateStates g)(sid := None) else gateStates g)"
  "nextState (settleState sid r g) = nextState g"
  "nextPromise (settleState sid r g) = nextPromise g"
  "nextToken (settleState sid r g) = nextToken g"
  "permits (settleState sid r g) = permits g"
  "leases (settleState sid r g) = leases g"
  by (auto simp: settleState_def settleDrains_def Let_def settled_def settled_promises_def resolveOpt_def
      idle_def split: option.splits)

lemma settled_simps [simp]:
  "opActive (settled st) = opActive st" "opDeleting (settled st) = opDeleting st"
  "opMutation (settled st) = opMutation st" "idle (settled st) = idle st"
  by (auto simp: settled_def idle_def)

lemma settled_drains:
  "opSharedDrain (settled st) = (if opActive st \<noteq> 0 then opSharedDrain st else None)"
  "opFullDrain (settled st) = (if opActive st \<noteq> 0 \<or> opMutation st \<noteq> None then opFullDrain st else None)"
  by (auto simp: settled_def)

lemma settled_idle: "idle st \<Longrightarrow> settled st = createState"
  by (cases st) (auto simp: idle_def settled_def createState_def)

lemma settle_map:
  assumes "map_inv {r} g" "gateStates g sid = Some r"
  shows "map_inv {} (settleState sid r g)"
  using assms by (auto simp: map_inv_def settleState_fields settled_idle) (metis option.inject)

lemma open_on_nonneg [simp]: "0 \<le> open_on r p"
  by (simp add: open_on_def)

lemma open_permits_nonneg [simp]: "0 \<le> open_permits ps r"
  by (induction ps) (auto simp: open_permits_def)

lemma open_permits_zero: "open_permits ps r = 0 \<longleftrightarrow> (\<forall>p \<in> set ps. permitState p = r \<longrightarrow> permitReleased p)"
proof (induction ps)
  case (Cons p ps)
  have "open_permits (p # ps) r = open_on r p + open_permits ps r" by (simp add: open_permits_def)
  moreover have "0 \<le> open_on r p" "0 \<le> open_permits ps r" by simp_all
  ultimately have "open_permits (p # ps) r = 0 \<longleftrightarrow> open_on r p = 0 \<and> open_permits ps r = 0" by arith
  with Cons show ?case by (auto simp: open_on_def)
qed (simp add: open_permits_def)

lemma settle_permit:
  assumes "permit_inv g" "gateStates g sid = Some r" "map_inv {r} g"
  shows "permit_inv (settleState sid r g)"
proof -
  have "permitReleased p" if "idle (gateHeap g r)" "p \<in> set (permits g)" "permitState p = r" for p
    using that assms(1) by (metis idle_def open_permits_zero permit_inv_def)
  then show ?thesis using assms
    by (auto simp: permit_inv_def map_inv_def settleState_fields)
qed

lemma settle_lease:
  assumes "lease_inv g" "gateStates g sid = Some r" "map_inv {r} g"
  shows "lease_inv (settleState sid r g)"
  using assms by (auto simp: lease_inv_def map_inv_def settleState_fields idle_def)

lemma pending_settle:
  "pending (settleState sid r g) r' b =
     (if r' = r \<and> opActive (gateHeap g r) = 0 \<and> (b \<or> opMutation (gateHeap g r) = None) then None
      else pending g r' b)"
  by (auto simp: pending_def settleState_fields settled_drains)

lemma settled_promises_pending:
  "d \<in> settled_promises (gateHeap g r) \<longleftrightarrow>
     (\<exists>b. pending g r b = Some d \<and> opActive (gateHeap g r) = 0 \<and> (b \<or> opMutation (gateHeap g r) = None))"
  by (auto simp: settled_promises_def pending_def split: if_splits)

lemma drain_invD:
  assumes "drain_inv X g"
  shows drain_fresh: "pending g r b = Some d \<Longrightarrow> d < nextPromise g"
    and drain_unresolved: "pending g r b = Some d \<Longrightarrow> d \<notin> resolvedPromises g"
    and drain_inj: "pending g r b = Some d \<Longrightarrow> pending g r' b' = Some d \<Longrightarrow> r = r' \<and> b = b'"
    and drain_kept: "d < nextPromise g \<Longrightarrow> d \<in> resolvedPromises g \<or> (\<exists>r b. pending g r b = Some d)"
    and drain_shared: "r \<notin> X \<Longrightarrow> opSharedDrain (gateHeap g r) = Some d \<Longrightarrow> opActive (gateHeap g r) \<noteq> 0"
    and drain_full: "r \<notin> X \<Longrightarrow> opFullDrain (gateHeap g r) = Some d \<Longrightarrow>
      opActive (gateHeap g r) \<noteq> 0 \<or> opMutation (gateHeap g r) \<noteq> None"
    and drain_past: "d \<in> resolvedPromises g \<Longrightarrow> d < nextPromise g"
  using assms unfolding drain_inv_def by blast+

lemma settle_drain:
  assumes "drain_inv {r} g"
  shows "drain_inv {} (settleState sid r g)"
proof -
  let ?g = "settleState sid r g"
  note old = drain_invD [OF assms]
  have 1: "pending ?g r' b = Some d \<Longrightarrow> d < nextPromise ?g \<and> d \<notin> resolvedPromises ?g" for r' b d
    using old(1,2,3) by (fastforce simp: pending_settle settleState_fields settled_promises_pending
        split: if_splits)
  have 2: "pending ?g r' b = Some d \<Longrightarrow> pending ?g r'' b' = Some d \<Longrightarrow> r' = r'' \<and> b = b'" for r' b r'' b' d
    using old(3) by (simp add: pending_settle split: if_splits)
  have 3: "d < nextPromise ?g \<Longrightarrow> d \<in> resolvedPromises ?g \<or> (\<exists>r' b. pending ?g r' b = Some d)" for d
    using old(4) [of d] unfolding pending_settle settleState_fields settled_promises_pending Un_iff
    by (metis (full_types))
  have 4: "opSharedDrain (gateHeap ?g r') = Some d \<Longrightarrow> opActive (gateHeap ?g r') \<noteq> 0" for r' d
    using old(5) [of r' d] by (auto simp: settleState_fields settled_drains split: if_splits)
  have 5: "opFullDrain (gateHeap ?g r') = Some d \<Longrightarrow>
      opActive (gateHeap ?g r') \<noteq> 0 \<or> opMutation (gateHeap ?g r') \<noteq> None" for r' d
    using old(6) [of r' d] by (auto simp: settleState_fields settled_drains split: if_splits)
  have 6: "resolvedPromises ?g \<subseteq> {..< nextPromise ?g}"
    using old(1,7) by (auto simp: settleState_fields settled_promises_pending)
  show ?thesis unfolding drain_inv_def using 1 2 3 4 5 6 by blast
qed

lemma settle_wait:
  assumes "wait_inv g"
  shows "wait_inv (settleState sid r g)"
  using assms by (auto simp: wait_inv_def settleState_fields settled_drains settled_promises_def)

lemma settle_inv:
  assumes "gate_inv {r} g" "gateStates g sid = Some r"
  shows "gate_inv {} (settleState sid r g)"
  using assms by (simp add: gate_inv_def settle_map settle_permit settle_lease settle_drain settle_wait)

lemma drain_inv_frame:
  assumes "drain_inv X g" "X \<subseteq> Y" "gateHeap g' = gateHeap g"
    "resolvedPromises g' = resolvedPromises g" "nextPromise g' = nextPromise g"
  shows "drain_inv Y g'"
proof -
  have "pending g' = pending g" using assms(3) by (auto simp: pending_def fun_eq_iff)
  with assms show ?thesis unfolding drain_inv_def by auto
qed

section \<open>Looking a session up\<close>

definition registered :: "string \<Rightarrow> gate \<Rightarrow> gate" where
  "registered sid g = (snd (getState sid g))\<lparr>gateStates := (gateStates g)(sid := Some (fst (getState sid g)))\<rparr>"

lemma unused_state: "map_inv X g \<Longrightarrow> gateHeap g (nextState g) = createState"
  unfolding map_inv_def by blast

lemma getState_fields:
  assumes "map_inv X g"
  shows "gateHeap (snd (getState sid g)) = gateHeap g"
    "gateStates (snd (getState sid g)) = gateStates g"
    "resolvedPromises (snd (getState sid g)) = resolvedPromises g"
    "nextPromise (snd (getState sid g)) = nextPromise g"
    "nextToken (snd (getState sid g)) = nextToken g"
    "permits (snd (getState sid g)) = permits g"
    "leases (snd (getState sid g)) = leases g"
  using unused_state [OF assms] by (auto simp: getState_def split: option.split)

lemma registered_fields:
  assumes "map_inv X g"
  shows "gateHeap (registered sid g) = gateHeap g"
    "gateStates (registered sid g) = (gateStates g)(sid := Some (fst (getState sid g)))"
    "resolvedPromises (registered sid g) = resolvedPromises g"
    "nextPromise (registered sid g) = nextPromise g"
    "nextToken (registered sid g) = nextToken g"
    "permits (registered sid g) = permits g"
    "leases (registered sid g) = leases g"
  using assms by (simp_all add: registered_def getState_fields)

lemma unregistered_state:
  assumes "map_inv X g" "gateStates g sid = None"
  shows "fst (getState sid g) = nextState g" "nextState (registered sid g) = nextState g + 1"
    "gateStates g s \<noteq> Some (nextState g)"
  using assms by (auto simp: getState_def registered_def map_inv_def)

lemma registered_state:
  assumes "gateStates g sid = Some r"
  shows "fst (getState sid g) = r" "registered sid g = g"
  using assms by (simp_all add: getState_def registered_def fun_upd_idem)

lemma registered_inv:
  assumes "gate_inv {} g" and r: "r = fst (getState sid g)"
  shows "gate_inv {r} (registered sid g)"
proof (cases "gateStates g sid")
  case (Some r')
  then have "registered sid g = g" by (rule registered_state(2))
  with assms(1) show ?thesis
    by (auto simp: gate_inv_def map_inv_def elim: drain_inv_frame)
next
  case None
  from assms(1) have m: "map_inv {} g" and p: "permit_inv g" and l: "lease_inv g"
    and d: "drain_inv {} g" and w: "wait_inv g"
    by (simp_all add: gate_inv_def)
  note u = unregistered_state [OF m None] and f = registered_fields [OF m, of sid]
  have "map_inv {r} (registered sid g)"
    using m u(1,2) None unfolding map_inv_def f r
    by (auto simp: less_Suc_eq) (metis option.distinct(1))
  moreover have "permit_inv (registered sid g)"
    using p None by (auto simp: permit_inv_def f)
  moreover have "lease_inv (registered sid g)"
    using l None by (auto simp: lease_inv_def f)
  moreover have "drain_inv {r} (registered sid g)"
    using d by (rule drain_inv_frame) (simp_all add: f)
  moreover have "wait_inv (registered sid g)"
    using w by (auto simp: wait_inv_def f)
  ultimately show ?thesis by (simp add: gate_inv_def)
qed

lemma registered_sid: "gateStates (registered sid g) sid = Some (fst (getState sid g))"
  by (simp add: registered_def)

section \<open>Entering\<close>

lemma open_permits_append: "open_permits (ps @ [p]) r = open_permits ps r + open_on r p"
  by (simp add: open_permits_def)

lemma drain_inv_set:
  assumes d: "drain_inv {r} g"
    and same: "resolvedPromises g' = resolvedPromises g" "nextPromise g' = nextPromise g"
      "gateHeap g' = (gateHeap g)(r := st)"
      "opSharedDrain st = opSharedDrain (gateHeap g r)" "opFullDrain st = opFullDrain (gateHeap g r)"
    and r: "r \<notin> X \<Longrightarrow> opSharedDrain st \<noteq> None \<Longrightarrow> opActive st \<noteq> 0"
      "r \<notin> X \<Longrightarrow> opFullDrain st \<noteq> None \<Longrightarrow> opActive st \<noteq> 0 \<or> opMutation st \<noteq> None"
  shows "drain_inv X g'"
proof -
  have p: "pending g' = pending g"
    using same by (auto simp: pending_def fun_eq_iff)
  have 4: "r' \<notin> X \<Longrightarrow> opSharedDrain (gateHeap g' r') = Some d \<Longrightarrow> opActive (gateHeap g' r') \<noteq> 0" for r' d
    using drain_shared [OF d, of r'] r same by (cases "r' = r") auto
  have 5: "r' \<notin> X \<Longrightarrow> opFullDrain (gateHeap g' r') = Some d \<Longrightarrow>
      opActive (gateHeap g' r') \<noteq> 0 \<or> opMutation (gateHeap g' r') \<noteq> None" for r' d
    using drain_full [OF d, of r'] r same by (cases "r' = r") auto
  from d show ?thesis
    unfolding drain_inv_def p same(1,2)
    by (elim conjE, intro conjI) (assumption | (intro allI impI, elim conjE, erule (1) 4)
      | (intro allI impI, elim conjE, erule (1) 5))+
qed

lemma enter_inv:
  assumes inv: "gate_inv {r} g" and sid: "gateStates g sid = Some r"
    and free: "opMutation (gateHeap g r) = None"
  shows "gate_inv {} (setState r ((gateHeap g r)\<lparr>opActive := opActive (gateHeap g r) + 1\<rparr>)
    (g\<lparr>permits := permits g @ [\<lparr>permitSession = sid, permitState = r, permitReleased = False\<rparr>]\<rparr>))"
    (is "gate_inv {} ?g")
proof -
  from inv have m: "map_inv {r} g" and p: "permit_inv g" and l: "lease_inv g"
    and d: "drain_inv {r} g" and w: "wait_inv g"
    by (simp_all add: gate_inv_def)
  have pos: "0 \<le> opActive (gateHeap g r)"
    using p by (simp add: permit_inv_def)
  have "map_inv {} ?g"
    using m pos sid by (auto simp: map_inv_def idle_def)
  moreover have "permit_inv ?g"
    using p sid by (auto simp: permit_inv_def open_permits_append open_on_def)
  moreover have "lease_inv ?g"
    using l by (auto simp: lease_inv_def)
  moreover have "drain_inv {} ?g"
    by (rule drain_inv_set [OF d, where st = "(gateHeap g r)\<lparr>opActive := opActive (gateHeap g r) + 1\<rparr>"])
      (use pos in simp_all)
  moreover have "wait_inv ?g"
    using w l free by (auto simp: wait_inv_def lease_inv_def)
  ultimately show ?thesis by (simp add: gate_inv_def)
qed

lemma tryEnter_eq:
  assumes "map_inv X g"
  shows "tryEnter sid g =
    (let r = fst (getState sid g); st = gateHeap g r
     in if opDeleting st \<or> opMutation st \<noteq> None then (None, g)
        else (Some (length (permits g)), setState r (st\<lparr>opActive := opActive st + 1\<rparr>)
          ((registered sid g)\<lparr>permits := permits g @
             [\<lparr>permitSession = sid, permitState = r, permitReleased = False\<rparr>]\<rparr>)))"
  using getState_fields [OF assms, of sid] registered_fields [OF assms, of sid]
  by (simp add: tryEnter_def registered_def Let_def split_beta)

lemma tryEnter_inv:
  assumes "gate_inv {} g"
  shows "gate_inv {} (snd (tryEnter sid g))"
proof -
  have m: "map_inv {} g" using assms by (simp add: gate_inv_def)
  show ?thesis
    using enter_inv [OF registered_inv [OF assms refl] registered_sid, of sid] assms
    by (simp add: tryEnter_eq [OF m] Let_def registered_fields [OF m])
qed

section \<open>Leaving\<close>

lemma open_permits_update:
  "k < length ps \<Longrightarrow>
   open_permits (ps[k := p]) r = open_permits ps r - open_on r (ps ! k) + open_on r p"
  by (induction ps arbitrary: k) (auto simp: open_permits_def nth_Cons split: nat.split)

lemma drain_inv_weaken: "drain_inv {} g \<Longrightarrow> drain_inv X g"
  by (rule drain_inv_frame) auto

lemma open_permit_active:
  assumes "permit_inv g" "p \<in> set (permits g)" "\<not> permitReleased p"
  shows "1 \<le> opActive (gateHeap g (permitState p))"
proof -
  have "opActive (gateHeap g (permitState p)) \<noteq> 0"
    using assms open_permits_zero [of "permits g" "permitState p"] by (auto simp: permit_inv_def)
  moreover have "0 \<le> opActive (gateHeap g (permitState p))"
    using assms by (simp add: permit_inv_def)
  ultimately show ?thesis by simp
qed

lemma leave_inv:
  assumes inv: "gate_inv {} g" and k: "k < length (permits g)" "\<not> permitReleased (permits g ! k)"
    and r: "r = permitState (permits g ! k)"
  shows "gate_inv {r} (setState r ((gateHeap g r)\<lparr>opActive := opActive (gateHeap g r) - 1\<rparr>)
    (g\<lparr>permits := (permits g)[k := (permits g ! k)\<lparr>permitReleased := True\<rparr>]\<rparr>))"
    (is "gate_inv _ ?g")
proof -
  from inv have m: "map_inv {} g" and p: "permit_inv g" and l: "lease_inv g"
    and d: "drain_inv {} g" and w: "wait_inv g"
    by (simp_all add: gate_inv_def)
  have pk: "permits g ! k \<in> set (permits g)" using k(1) by simp
  have pos: "1 \<le> opActive (gateHeap g r)"
    unfolding r using p pk k(2) by (rule open_permit_active)
  have reg: "gateStates g (permitSession (permits g ! k)) = Some r"
    using p pk k(2) r by (simp add: permit_inv_def)
  have "map_inv {r} ?g" using m reg by (auto simp: map_inv_def)
  moreover have "permit_inv ?g"
  proof -
    have "gateStates g (permitSession q) = Some (permitState q)"
      if "q \<in> set ((permits g)[k := (permits g ! k)\<lparr>permitReleased := True\<rparr>])" "\<not> permitReleased q" for q
      using that p set_update_subset_insert [THEN subsetD, OF that(1)] by (auto simp: permit_inv_def)
    moreover have "opActive (gateHeap ?g r') = open_permits (permits ?g) r'" for r'
      using p k r by (auto simp: permit_inv_def open_permits_update open_on_def)
    ultimately show ?thesis by (auto simp: permit_inv_def)
  qed
  moreover have "lease_inv ?g" using l by (auto simp: lease_inv_def)
  moreover have "drain_inv {r} ?g"
    by (rule drain_inv_set [OF drain_inv_weaken [OF d],
        where st = "(gateHeap g r)\<lparr>opActive := opActive (gateHeap g r) - 1\<rparr>"]) auto
  moreover have "wait_inv ?g" using w pos by (auto simp: wait_inv_def)
  ultimately show ?thesis by (simp add: gate_inv_def)
qed

lemma releasePermit_inv:
  assumes "gate_inv {} g" "k < length (permits g)"
  shows "gate_inv {} (releasePermit k g)"
proof (cases "permitReleased (permits g ! k)")
  case False
  let ?p = "permits g ! k"
  have "gateStates g (permitSession ?p) = Some (permitState ?p)"
    using assms False nth_mem [OF assms(2)] by (auto simp: gate_inv_def permit_inv_def)
  then show ?thesis using False
    by (simp add: releasePermit_def Let_def settle_inv leave_inv [OF assms False refl])
qed (use assms in \<open>simp add: releasePermit_def Let_def\<close>)

section \<open>Exclusive leases\<close>

lemma open_lease_unique:
  assumes "lease_inv g" "l \<in> set (leases g)" "\<not> leaseReleased l"
    "l' \<in> set (leases g)" "\<not> leaseReleased l'" "leaseState l = leaseState l'"
  shows "l = l'"
proof -
  from assms have "leaseToken l = leaseToken l'"
    unfolding lease_inv_def by (metis option.inject)
  moreover from assms(1) have "inj_on leaseToken (set (leases g))"
    by (simp add: lease_inv_def distinct_map)
  ultimately show ?thesis using assms(2,4) by (auto dest: inj_onD)
qed

lemma unlock_inv:
  assumes inv: "gate_inv {} g" and k: "k < length (leases g)" "\<not> leaseReleased (leases g ! k)"
    and r: "r = leaseState (leases g ! k)"
  shows "gate_inv {r} (setState r ((gateHeap g r)\<lparr>opMutation := None\<rparr>)
    (g\<lparr>leases := (leases g)[k := (leases g ! k)\<lparr>leaseReleased := True\<rparr>]\<rparr>))"
    (is "gate_inv _ ?g")
proof -
  let ?ls = "(leases g)[k := (leases g ! k)\<lparr>leaseReleased := True\<rparr>]"
  from inv have m: "map_inv {} g" and p: "permit_inv g" and l: "lease_inv g"
    and d: "drain_inv {} g" and w: "wait_inv g"
    by (simp_all add: gate_inv_def)
  have lk: "leases g ! k \<in> set (leases g)" using k(1) by simp
  have tokens: "map leaseToken ?ls = map leaseToken (leases g)"
    using k(1) by (simp add: map_update list_update_same_conv)
  have old: "l' \<in> set (leases g) \<and> leaseState l' \<noteq> r"
    if "l' \<in> set ?ls" "\<not> leaseReleased l'" for l'
  proof -
    have "l' \<noteq> (leases g ! k)\<lparr>leaseReleased := True\<rparr>" using that(2) by auto
    with that(1) obtain j where j: "j \<noteq> k" "j < length (leases g)" "l' = leases g ! j"
      by (rule update_member)
    moreover have "leases g ! j \<noteq> leases g ! k"
      using l j k(1) unfolding lease_inv_def
      by (metis distinct_map nth_eq_iff_index_eq)
    ultimately show ?thesis
      using open_lease_unique [OF l _ _ lk k(2), of l'] that(2) r by auto
  qed
  have reg: "gateStates g (leaseSession (leases g ! k)) = Some r"
    using l lk k(2) r by (simp add: lease_inv_def)
  have "map_inv {r} ?g" using m reg by (auto simp: map_inv_def)
  moreover have "permit_inv ?g" using p by (auto simp: permit_inv_def)
  moreover have "lease_inv ?g"
  proof -
    have "leaseToken l' < nextToken g" if "l' \<in> set ?ls" for l'
      using l lk set_update_subset_insert [THEN subsetD, OF that] by (auto simp: lease_inv_def)
    moreover have "\<exists>l' \<in> set ?ls. \<not> leaseReleased l' \<and> leaseState l' = r' \<and> leaseToken l' = t"
      if "r' \<noteq> r" "opMutation (gateHeap g r') = Some t" for r' t
    proof -
      obtain l' where l': "l' \<in> set (leases g)" "\<not> leaseReleased l'" "leaseState l' = r'" "leaseToken l' = t"
        using l \<open>opMutation (gateHeap g r') = Some t\<close> unfolding lease_inv_def by blast
      then obtain j where "j < length (leases g)" "l' = leases g ! j" by (auto simp: in_set_conv_nth)
      moreover have "j \<noteq> k" using l' \<open>r' \<noteq> r\<close> r \<open>l' = leases g ! j\<close> by auto
      ultimately have "l' \<in> set ?ls" by (auto simp: in_set_conv_nth intro!: exI [of _ j])
      with l' show ?thesis by blast
    qed
    ultimately show ?thesis
      using l old tokens unfolding lease_inv_def by auto
  qed
  moreover have "drain_inv {r} ?g"
    by (rule drain_inv_set [OF drain_inv_weaken [OF d],
        where st = "(gateHeap g r)\<lparr>opMutation := None\<rparr>"]) auto
  moreover have "wait_inv ?g" using w old by (auto simp: wait_inv_def)
  ultimately show ?thesis by (simp add: gate_inv_def)
qed

lemma releaseLease_inv:
  assumes "gate_inv {} g" "k < length (leases g)"
  shows "gate_inv {} (snd (releaseLease k g)) \<and> fst (releaseLease k g) = None"
proof (cases "leaseReleased (leases g ! k)")
  case False
  let ?l = "leases g ! k"
  have "gateStates g (leaseSession ?l) = Some (leaseState ?l)"
    "opMutation (gateHeap g (leaseState ?l)) = Some (leaseToken ?l)"
    using assms False nth_mem [OF assms(2)] by (auto simp: gate_inv_def lease_inv_def)
  then show ?thesis using False
    by (simp add: releaseLease_def Let_def settle_inv unlock_inv [OF assms False refl])
qed (use assms in \<open>simp add: releaseLease_def Let_def\<close>)

section \<open>Lifting a block\<close>

lemma releaseSession_inv:
  assumes "gate_inv {} g"
  shows "gate_inv {} (snd (releaseSession sid g))"
proof (cases "gateStates g sid")
  case (Some r)
  from assms have m: "map_inv {} g" and p: "permit_inv g" and l: "lease_inv g"
    and d: "drain_inv {} g" and w: "wait_inv g"
    by (simp_all add: gate_inv_def)
  let ?st = "(gateHeap g r)\<lparr>opDeleting := False\<rparr>"
  have "drain_inv {r} (setState r ?st g)"
    by (rule drain_inv_set [OF drain_inv_weaken [OF d], where st = ?st]) auto
  moreover have "map_inv {r} (setState r ?st g)"
    using m Some by (auto simp: map_inv_def idle_def)
  ultimately have "gate_inv {r} (setState r ?st g)"
    using p l w by (auto simp: gate_inv_def permit_inv_def lease_inv_def wait_inv_def)
  then show ?thesis using Some assms
    by (simp add: releaseSession_def Let_def settle_inv)
qed (use assms in \<open>simp add: releaseSession_def\<close>)

section \<open>New promises\<close>

definition drain_of :: "operation_state \<Rightarrow> bool \<Rightarrow> nat option" where
  "drain_of st b = (if b then opSharedDrain st else opFullDrain st)"

text \<open>A promise handed out resolved, and one stored as the drain \<open>b\<close> of the object \<open>r\<close>.\<close>

lemma drain_inv_resolved:
  assumes d: "drain_inv X g" and "gateHeap g' = gateHeap g" "nextPromise g' = nextPromise g + 1"
    "resolvedPromises g' = insert (nextPromise g) (resolvedPromises g)"
  shows "drain_inv X g'"
proof -
  have "pending g' = pending g" using assms(2) by (auto simp: pending_def fun_eq_iff)
  moreover note old = drain_invD [OF d]
  ultimately show ?thesis using assms(2-)
    unfolding drain_inv_def
    by (intro conjI allI impI; (elim conjE)?)
      (auto simp: less_Suc_eq dest: old)
qed

lemma drain_inv_deferred:
  assumes d: "drain_inv {r} g"
    and same: "resolvedPromises g' = resolvedPromises g" "nextPromise g' = nextPromise g + 1"
      "gateHeap g' = (gateHeap g)(r := st)"
      "drain_of st b = Some (nextPromise g)" "drain_of (gateHeap g r) b = None"
      "drain_of st (\<not> b) = drain_of (gateHeap g r) (\<not> b)"
    and r: "opSharedDrain st \<noteq> None \<Longrightarrow> opActive st \<noteq> 0"
      "opFullDrain st \<noteq> None \<Longrightarrow> opActive st \<noteq> 0 \<or> opMutation st \<noteq> None"
  shows "drain_inv {} g'"
proof -
  note old = drain_invD [OF d]
  have p: "pending g' r' b' = (if r' = r \<and> b' = b then Some (nextPromise g) else pending g r' b')" for r' b'
    using same by (cases b; cases b') (auto simp: pending_def drain_of_def)
  have none: "pending g r b = None"
    using same(5) by (simp add: pending_def drain_of_def)
  have fresh: "pending g r' b' \<noteq> Some (nextPromise g)" for r' b'
    using old(1) by blast
  have 1: "pending g' r' b' = Some d \<Longrightarrow> d < nextPromise g' \<and> d \<notin> resolvedPromises g'" for r' b' d
    using old(1,2,7) by (fastforce simp: p same split: if_splits)
  have 2: "pending g' r' b' = Some d \<Longrightarrow> pending g' r'' b'' = Some d \<Longrightarrow> r' = r'' \<and> b' = b''" for r' b' r'' b'' d
    using old(3) fresh by (auto simp: p split: if_splits)
  have 3: "d < nextPromise g' \<Longrightarrow> d \<in> resolvedPromises g' \<or> (\<exists>r' b'. pending g' r' b' = Some d)" for d
  proof (cases "d = nextPromise g")
    case False
    assume "d < nextPromise g'"
    with False have "d < nextPromise g" by (simp add: same)
    then consider "d \<in> resolvedPromises g" | r' b' where "pending g r' b' = Some d"
      using old(4) by blast
    then show ?thesis
    proof cases
      case (2 r' b')
      then have "pending g' r' b' = Some d" using none by (auto simp: p)
      then show ?thesis by blast
    qed (simp add: same)
  qed (auto simp: p)
  have 4: "opSharedDrain (gateHeap g' r') = Some d \<Longrightarrow> opActive (gateHeap g' r') \<noteq> 0" for r' d
    using old(5) [of r'] r same(3) by (cases "r' = r") auto
  have 5: "opFullDrain (gateHeap g' r') = Some d \<Longrightarrow>
      opActive (gateHeap g' r') \<noteq> 0 \<or> opMutation (gateHeap g' r') \<noteq> None" for r' d
    using old(6) [of r'] r same(3) by (cases "r' = r") auto
  have 6: "resolvedPromises g' \<subseteq> {..< nextPromise g'}"
    using old(7) by (fastforce simp: same)
  show ?thesis unfolding drain_inv_def using 1 2 3 4 5 6 by blast
qed

section \<open>Acquiring\<close>

text \<open>The gate after \<open>tryAcquireExclusive\<close> has taken the object \<open>r\<close> for a new token.\<close>

definition with_lease :: "string \<Rightarrow> nat \<Rightarrow> gate \<Rightarrow> gate" where
  "with_lease sid r g =
     (let token = nextToken g;
          (drained, g') = sharedDrain r (setState r ((gateHeap g r)\<lparr>opMutation := Some token\<rparr>)
            (g\<lparr>nextToken := token + 1\<rparr>))
      in g'\<lparr>leases := leases g' @ [\<lparr>leaseSession = sid, leaseState = r, leaseToken = token,
            leaseDrained = drained, leaseReleased = False\<rparr>]\<rparr>)"

lemma with_lease_fields:
  "permits (with_lease sid r g) = permits g"
  "gateStates (with_lease sid r g) = gateStates g"
  "nextState (with_lease sid r g) = nextState g"
  "nextToken (with_lease sid r g) = nextToken g + 1"
  "r' \<noteq> r \<Longrightarrow> gateHeap (with_lease sid r g) r' = gateHeap g r'"
  "opActive (gateHeap (with_lease sid r g) r) = opActive (gateHeap g r)"
  "opDeleting (gateHeap (with_lease sid r g) r) = opDeleting (gateHeap g r)"
  "opMutation (gateHeap (with_lease sid r g) r) = Some (nextToken g)"
  "\<exists>d. leases (with_lease sid r g) = leases g @ [\<lparr>leaseSession = sid, leaseState = r,
        leaseToken = nextToken g, leaseDrained = d, leaseReleased = False\<rparr>]"
  by (auto simp: with_lease_def Let_def sharedDrain_def resolvedPromise_def deferred_def
      split: option.splits prod.splits)

lemma with_lease_drain:
  assumes "drain_inv {r} g" "opActive (gateHeap g r) = 0 \<Longrightarrow> opSharedDrain (gateHeap g r) = None"
  shows "drain_inv {} (with_lease sid r g)"
proof -
  let ?st = "(gateHeap g r)\<lparr>opMutation := Some (nextToken g)\<rparr>"
  consider (free) "opActive (gateHeap g r) = 0"
    | (waiting) p where "opActive (gateHeap g r) \<noteq> 0" "opSharedDrain (gateHeap g r) = Some p"
    | (first) "opActive (gateHeap g r) \<noteq> 0" "opSharedDrain (gateHeap g r) = None"
    by fastforce
  then show ?thesis
  proof cases
    case free
    have "drain_inv {} (setState r ?st g)"
      by (rule drain_inv_set [OF assms(1), where st = ?st]) (use free assms(2) in auto)
    then show ?thesis
      by (rule drain_inv_resolved)
        (use free in \<open>simp_all add: with_lease_def Let_def sharedDrain_def resolvedPromise_def\<close>)
  next
    case waiting
    have "drain_inv {} (setState r ?st g)"
      by (rule drain_inv_set [OF assms(1), where st = ?st]) (use waiting in auto)
    then show ?thesis
      by (rule drain_inv_frame)
        (use waiting in \<open>simp_all add: with_lease_def Let_def sharedDrain_def\<close>)
  next
    case first
    then show ?thesis
      by (intro drain_inv_deferred [OF assms(1), where b = True
            and st = "?st\<lparr>opSharedDrain := Some (nextPromise g)\<rparr>"])
        (auto simp: with_lease_def Let_def sharedDrain_def deferred_def drain_of_def)
  qed
qed

lemma with_lease_wait:
  assumes "wait_inv g" "\<forall>l \<in> set (leases g). \<not> leaseReleased l \<longrightarrow> leaseState l \<noteq> r"
  shows "wait_inv (with_lease sid r g)"
proof -
  have "resolvedPromises g \<subseteq> resolvedPromises (with_lease sid r g)"
    by (auto simp: with_lease_def Let_def sharedDrain_def resolvedPromise_def deferred_def
        split: option.splits prod.splits)
  moreover have "l \<in> set (leases g) \<and> gateHeap (with_lease sid r g) (leaseState l) = gateHeap g (leaseState l)
      \<or> leaseState l = r \<and>
        (leaseDrained l \<in> resolvedPromises (with_lease sid r g) \<and> opActive (gateHeap (with_lease sid r g) r) = 0
         \<or> opSharedDrain (gateHeap (with_lease sid r g) r) = Some (leaseDrained l))"
    if "l \<in> set (leases (with_lease sid r g))" "\<not> leaseReleased l" for l
    using that assms(2)
    by (auto simp: with_lease_def Let_def sharedDrain_def resolvedPromise_def deferred_def
        split: option.splits prod.splits if_splits)
  ultimately show ?thesis
    using assms(1) unfolding wait_inv_def by (metis subsetD)
qed

lemma acquire_inv:
  assumes inv: "gate_inv {r} g" and sid: "gateStates g sid = Some r"
    and free: "opMutation (gateHeap g r) = None"
    and none: "opActive (gateHeap g r) = 0 \<Longrightarrow> opSharedDrain (gateHeap g r) = None"
  shows "gate_inv {} (with_lease sid r g)"
proof -
  from inv have m: "map_inv {r} g" and p: "permit_inv g" and l: "lease_inv g"
    and d: "drain_inv {r} g" and w: "wait_inv g"
    by (simp_all add: gate_inv_def)
  have others: "\<forall>l \<in> set (leases g). \<not> leaseReleased l \<longrightarrow> leaseState l \<noteq> r"
    using l free unfolding lease_inv_def by fastforce
  note f = with_lease_fields
  have busy: "\<not> idle (gateHeap (with_lease sid r g) r') \<longleftrightarrow> r' = r \<or> \<not> idle (gateHeap g r')" for r'
    by (cases "r' = r") (simp_all add: f idle_def)
  have mutation: "opMutation (gateHeap (with_lease sid r g) r') =
      (if r' = r then Some (nextToken g) else opMutation (gateHeap g r'))" for r'
    by (simp add: f)
  have "gateHeap (with_lease sid r g) r' = createState" if "\<forall>s. gateStates g s \<noteq> Some r'" for r'
    using that sid m f(5) [of r' r sid g] by (auto simp: map_inv_def)
  then have "map_inv {} (with_lease sid r g)"
    using m unfolding map_inv_def f busy by auto
  moreover have "permit_inv (with_lease sid r g)"
    using p unfolding permit_inv_def f by (metis f(5,6))
  moreover have "lease_inv (with_lease sid r g)"
  proof -
    obtain d where leases: "leases (with_lease sid r g) = leases g @ [\<lparr>leaseSession = sid,
        leaseState = r, leaseToken = nextToken g, leaseDrained = d, leaseReleased = False\<rparr>]"
      using f(9) by blast
    show ?thesis
      using l sid others unfolding lease_inv_def leases f(2,4)
      by (auto simp: mutation less_Suc_eq)
  qed
  moreover have "drain_inv {} (with_lease sid r g)" using d none by (rule with_lease_drain)
  moreover have "wait_inv (with_lease sid r g)" using w others by (rule with_lease_wait)
  ultimately show ?thesis by (simp add: gate_inv_def)
qed

lemma tryAcquire_eq:
  assumes "map_inv X g"
  shows "tryAcquireExclusive sid g =
    (let r = fst (getState sid g); st = gateHeap g r
     in if opDeleting st \<or> opMutation st \<noteq> None then (None, g)
        else (Some (length (leases g)), with_lease sid r (registered sid g)))"
  using getState_fields [OF assms, of sid] registered_fields [OF assms, of sid]
  by (auto simp: tryAcquireExclusive_def registered_def with_lease_def Let_def split_beta)

lemma state_drains:
  assumes "gate_inv {} g"
  shows "opActive (gateHeap g r) = 0 \<Longrightarrow> opSharedDrain (gateHeap g r) = None"
    "opActive (gateHeap g r) = 0 \<Longrightarrow> opMutation (gateHeap g r) = None \<Longrightarrow> opFullDrain (gateHeap g r) = None"
  using drain_shared [of "{}" g r] drain_full [of "{}" g r] assms unfolding gate_inv_def by fastforce+

lemma tryAcquire_inv:
  assumes "gate_inv {} g"
  shows "gate_inv {} (snd (tryAcquireExclusive sid g))"
proof -
  have m: "map_inv {} g" using assms by (simp add: gate_inv_def)
  show ?thesis
    using acquire_inv [OF registered_inv [OF assms refl] registered_sid, of sid]
      state_drains [OF assms] assms
    by (simp add: tryAcquire_eq [OF m] Let_def registered_fields [OF m])
qed

section \<open>Blocking\<close>

text \<open>The gate after \<open>block\<close> has marked the object \<open>r\<close>, and the promise returned.\<close>

definition with_block :: "nat \<Rightarrow> gate \<Rightarrow> nat \<times> gate" where
  "with_block r g =
     (let st = (gateHeap g r)\<lparr>opDeleting := True\<rparr>; g2 = setState r st g
      in if opActive st = 0 \<and> opMutation st = None then resolvedPromise g2
         else case opFullDrain st of
             Some p \<Rightarrow> (p, g2)
           | None \<Rightarrow> (nextPromise g, setState r (st\<lparr>opFullDrain := Some (nextPromise g)\<rparr>)
                       (g2\<lparr>nextPromise := nextPromise g + 1\<rparr>)))"

lemma blockSession_eq:
  assumes "map_inv X g"
  shows "blockSession sid g = with_block (fst (getState sid g)) (registered sid g)"
  using getState_fields [OF assms, of sid] registered_fields [OF assms, of sid]
  by (auto simp: blockSession_def registered_def with_block_def Let_def split_beta deferred_def
      split: option.split)

lemma with_block_fields:
  "permits (snd (with_block r g)) = permits g"
  "gateStates (snd (with_block r g)) = gateStates g"
  "nextState (snd (with_block r g)) = nextState g"
  "nextToken (snd (with_block r g)) = nextToken g"
  "leases (snd (with_block r g)) = leases g"
  "r' \<noteq> r \<Longrightarrow> gateHeap (snd (with_block r g)) r' = gateHeap g r'"
  "opActive (gateHeap (snd (with_block r g)) r') = opActive (gateHeap g r')"
  "opMutation (gateHeap (snd (with_block r g)) r') = opMutation (gateHeap g r')"
  "opSharedDrain (gateHeap (snd (with_block r g)) r') = opSharedDrain (gateHeap g r')"
  "opDeleting (gateHeap (snd (with_block r g)) r)"
  "resolvedPromises g \<subseteq> resolvedPromises (snd (with_block r g))"
  by (auto simp: with_block_def Let_def resolvedPromise_def split: option.splits)

lemma with_block_drain:
  assumes "drain_inv {r} g"
    "opActive (gateHeap g r) = 0 \<Longrightarrow> opSharedDrain (gateHeap g r) = None"
    "opActive (gateHeap g r) = 0 \<Longrightarrow> opMutation (gateHeap g r) = None \<Longrightarrow> opFullDrain (gateHeap g r) = None"
  shows "drain_inv {} (snd (with_block r g))"
proof -
  let ?st = "(gateHeap g r)\<lparr>opDeleting := True\<rparr>"
  have kept: "drain_inv {} (setState r ?st g)"
    by (rule drain_inv_set [OF assms(1), where st = ?st]) (use assms(2,3) in \<open>fastforce+\<close>)
  consider (free) "opActive (gateHeap g r) = 0" "opMutation (gateHeap g r) = None"
    | (waiting) p where "opActive (gateHeap g r) \<noteq> 0 \<or> opMutation (gateHeap g r) \<noteq> None"
        "opFullDrain (gateHeap g r) = Some p"
    | (first) "opActive (gateHeap g r) \<noteq> 0 \<or> opMutation (gateHeap g r) \<noteq> None"
        "opFullDrain (gateHeap g r) = None"
    by fastforce
  then show ?thesis
  proof cases
    case free
    then show ?thesis
      by (intro drain_inv_resolved [OF kept]) (auto simp: with_block_def Let_def resolvedPromise_def)
  next
    case waiting
    then show ?thesis
      by (intro drain_inv_frame [OF kept]) (auto simp: with_block_def Let_def)
  next
    case first
    then show ?thesis using assms(2)
      by (intro drain_inv_deferred [OF assms(1), where b = False
            and st = "?st\<lparr>opFullDrain := Some (nextPromise g)\<rparr>"])
        (auto simp: with_block_def Let_def drain_of_def)
  qed
qed

lemma block_inv:
  assumes inv: "gate_inv {r} g" and sid: "gateStates g sid = Some r"
    and drains: "opActive (gateHeap g r) = 0 \<Longrightarrow> opSharedDrain (gateHeap g r) = None"
      "opActive (gateHeap g r) = 0 \<Longrightarrow> opMutation (gateHeap g r) = None \<Longrightarrow> opFullDrain (gateHeap g r) = None"
  shows "gate_inv {} (snd (with_block r g))"
proof -
  from inv have m: "map_inv {r} g" and p: "permit_inv g" and l: "lease_inv g"
    and d: "drain_inv {r} g" and w: "wait_inv g"
    by (simp_all add: gate_inv_def)
  note f = with_block_fields
  have busy: "\<not> idle (gateHeap (snd (with_block r g)) r') \<longleftrightarrow> r' = r \<or> \<not> idle (gateHeap g r')" for r'
    by (cases "r' = r") (simp_all add: f idle_def)
  have "gateHeap (snd (with_block r g)) r' = createState" if "\<forall>s. gateStates g s \<noteq> Some r'" for r'
    using that sid m f(6) [of r' r g] by (auto simp: map_inv_def)
  then have "map_inv {} (snd (with_block r g))"
    using m unfolding map_inv_def f busy by auto
  moreover have "permit_inv (snd (with_block r g))" using p unfolding permit_inv_def f .
  moreover have "lease_inv (snd (with_block r g))" using l unfolding lease_inv_def f .
  moreover have "drain_inv {} (snd (with_block r g))"
    using d drains by (rule with_block_drain)
  moreover have "wait_inv (snd (with_block r g))"
    using w f(11) [of g r] unfolding wait_inv_def f by blast
  ultimately show ?thesis by (simp add: gate_inv_def)
qed

lemma blockSession_inv:
  assumes "gate_inv {} g"
  shows "gate_inv {} (snd (blockSession sid g))"
proof -
  have m: "map_inv {} g" using assms by (simp add: gate_inv_def)
  show ?thesis
    using block_inv [OF registered_inv [OF assms refl] registered_sid, of sid] state_drains [OF assms]
    by (simp add: blockSession_eq [OF m] registered_fields [OF m])
qed

section \<open>Reachable gates\<close>

lemma gate_step_inv:
  assumes "gate_inv {} g" "handle_exists g e"
  shows "gate_inv {} (gate_step e g)"
  using assms by (cases e)
    (simp_all add: gate_step_def tryEnter_inv releasePermit_inv tryAcquire_inv releaseLease_inv blockSession_inv
      releaseSession_inv)

interpretation gates: event_system createSessionOperationGate handle_exists gate_step "gate_inv {}"
  by unfold_locales (simp_all add: init_inv gate_step_inv)

definition open_permit :: "gate \<Rightarrow> string \<Rightarrow> bool" where
  "open_permit g sid \<longleftrightarrow> (\<exists>p \<in> set (permits g). permitSession p = sid \<and> \<not> permitReleased p)"

definition open_lease :: "gate \<Rightarrow> string \<Rightarrow> bool" where
  "open_lease g sid \<longleftrightarrow> (\<exists>l \<in> set (leases g). leaseSession l = sid \<and> \<not> leaseReleased l)"

text \<open>The object of a session tells exactly which permits and leases are open.\<close>

lemma registered_open:
  assumes "gate_inv {} g" "gateStates g sid = Some r"
  shows "opActive (gateHeap g r) \<noteq> 0 \<longleftrightarrow> open_permit g sid"
    "opMutation (gateHeap g r) \<noteq> None \<longleftrightarrow> open_lease g sid"
proof -
  from assms(1) have m: "map_inv {} g" and p: "permit_inv g" and l: "lease_inv g"
    by (simp_all add: gate_inv_def)
  have inj: "gateStates g s = Some r \<Longrightarrow> s = sid" for s
    using m assms(2) unfolding map_inv_def by blast
  have "opActive (gateHeap g r) \<noteq> 0 \<longleftrightarrow> (\<exists>q \<in> set (permits g). permitState q = r \<and> \<not> permitReleased q)"
    using p open_permits_zero [of "permits g" r] by (auto simp: permit_inv_def)
  also have "\<dots> \<longleftrightarrow> open_permit g sid"
    using p inj assms(2) unfolding permit_inv_def open_permit_def by (metis option.inject)
  finally show "opActive (gateHeap g r) \<noteq> 0 \<longleftrightarrow> open_permit g sid" .
  have "opMutation (gateHeap g r) \<noteq> None \<longleftrightarrow> (\<exists>q \<in> set (leases g). leaseState q = r \<and> \<not> leaseReleased q)"
    using l unfolding lease_inv_def by (metis option.distinct(1) option.exhaust)
  also have "\<dots> \<longleftrightarrow> open_lease g sid"
    using l inj assms(2) unfolding lease_inv_def open_lease_def by (metis option.inject)
  finally show "opMutation (gateHeap g r) \<noteq> None \<longleftrightarrow> open_lease g sid" .
qed

lemma unregistered_closed:
  assumes "gate_inv {} g" "gateStates g sid = None"
  shows "\<not> open_permit g sid" "\<not> open_lease g sid"
  using assms by (auto simp: gate_inv_def permit_inv_def lease_inv_def open_permit_def open_lease_def)

section \<open>Blocked sessions\<close>

definition blocked :: "gate \<Rightarrow> string \<Rightarrow> bool" where
  "blocked g sid \<longleftrightarrow> (case gateStates g sid of None \<Rightarrow> False | Some r \<Rightarrow> opDeleting (gateHeap g r))"

lemma state_free:
  assumes "gate_inv {} g"
  shows "opDeleting (gateHeap g (fst (getState sid g))) \<longleftrightarrow> blocked g sid"
    "opMutation (gateHeap g (fst (getState sid g))) \<noteq> None \<longleftrightarrow> open_lease g sid"
    "opActive (gateHeap g (fst (getState sid g))) \<noteq> 0 \<longleftrightarrow> open_permit g sid"
proof -
  have m: "map_inv {} g" using assms by (simp add: gate_inv_def)
  note u = unused_state [OF m] unregistered_closed [OF assms, of sid] registered_open [OF assms, of sid]
  show "opDeleting (gateHeap g (fst (getState sid g))) \<longleftrightarrow> blocked g sid"
    "opMutation (gateHeap g (fst (getState sid g))) \<noteq> None \<longleftrightarrow> open_lease g sid"
    "opActive (gateHeap g (fst (getState sid g))) \<noteq> 0 \<longleftrightarrow> open_permit g sid"
    using u by (cases "gateStates g sid"; simp add: getState_def blocked_def createState_def)+
qed

lemma admission:
  assumes "gate_inv {} g"
  shows "fst (tryEnter sid g) = None \<longleftrightarrow> blocked g sid \<or> open_lease g sid"
    "fst (tryAcquireExclusive sid g) = None \<longleftrightarrow> blocked g sid \<or> open_lease g sid"
    "blocked g sid \<or> open_lease g sid \<Longrightarrow> snd (tryEnter sid g) = g"
    "blocked g sid \<or> open_lease g sid \<Longrightarrow> snd (tryAcquireExclusive sid g) = g"
  using assms state_free [OF assms, of sid]
  by (auto simp: gate_inv_def tryEnter_eq tryAcquire_eq Let_def)

text \<open>The promise \<open>p\<close> returned by \<open>block\<close> is that of the blocked session.\<close>

definition awaits :: "string \<Rightarrow> nat \<Rightarrow> gate \<Rightarrow> bool" where
  "awaits sid p g \<longleftrightarrow> (\<exists>r. gateStates g sid = Some r \<and> opDeleting (gateHeap g r)
     \<and> (opFullDrain (gateHeap g r) = Some p
        \<or> p \<in> resolvedPromises g \<and> opActive (gateHeap g r) = 0 \<and> opMutation (gateHeap g r) = None))"

lemma awaits_resolved:
  assumes "gate_inv {} g" "awaits sid p g"
  shows "p \<in> resolvedPromises g \<longleftrightarrow> \<not> open_permit g sid \<and> \<not> open_lease g sid"
proof -
  obtain r where r: "gateStates g sid = Some r"
    "opFullDrain (gateHeap g r) = Some p
        \<or> p \<in> resolvedPromises g \<and> opActive (gateHeap g r) = 0 \<and> opMutation (gateHeap g r) = None"
    using assms(2) by (auto simp: awaits_def)
  have d: "drain_inv {} g" using assms(1) by (simp add: gate_inv_def)
  have "opFullDrain (gateHeap g r) = Some p \<Longrightarrow> p \<notin> resolvedPromises g"
    using drain_unresolved [OF d, of r False p] by (simp add: pending_def)
  moreover have "opFullDrain (gateHeap g r) = Some p \<Longrightarrow>
      opActive (gateHeap g r) \<noteq> 0 \<or> opMutation (gateHeap g r) \<noteq> None"
    using drain_full [OF d, of r p] by simp
  ultimately show ?thesis
    using r(2) registered_open [OF assms(1) r(1)] by metis
qed

lemma block_awaits:
  assumes "gate_inv {} g"
  shows "awaits sid (fst (blockSession sid g)) (gate_step (Block sid) g)"
proof -
  have m: "map_inv {} g" using assms by (simp add: gate_inv_def)
  show ?thesis
    using registered_fields [OF m, of sid] state_drains [OF assms]
    by (auto simp: awaits_def gate_step_def blockSession_eq [OF m] with_block_def Let_def
        resolvedPromise_def split: option.splits)
qed

text \<open>A step that leaves the object of the session alone, or settles it.\<close>

lemma awaits_same:
  assumes "awaits sid p g" "gateStates g' sid = gateStates g sid"
    "\<And>r. gateStates g sid = Some r \<Longrightarrow> gateHeap g' r = gateHeap g r"
    "resolvedPromises g \<subseteq> resolvedPromises g'"
  shows "awaits sid p g'"
  using assms unfolding awaits_def by (metis subsetD)

lemma awaits_settle:
  assumes "awaits sid p g" "gateStates g sid' = Some r"
  shows "awaits sid p (settleState sid' r g)"
  using assms
  by (auto simp: awaits_def settleState_fields idle_def settled_drains settled_promises_def)

lemma other_object:
  assumes "map_inv X g" "gateStates g sid = Some r" "s \<noteq> sid"
  shows "fst (getState s g) \<noteq> r"
  using assms by (auto simp: getState_def map_inv_def split: option.splits)

lemma awaits_blocked: "awaits sid p g \<Longrightarrow> blocked g sid"
  by (auto simp: awaits_def blocked_def)

lemma awaits_enter:
  assumes "gate_inv {} g" "awaits sid p g"
  shows "awaits sid p (snd (tryEnter s g))" "awaits sid p (snd (tryAcquireExclusive s g))"
proof -
  have m: "map_inv {} g" using assms(1) by (simp add: gate_inv_def)
  note f = registered_fields [OF m, of s]
  have sub: "resolvedPromises g \<subseteq> resolvedPromises (with_lease s r (registered s g))" for r
    using f by (auto simp: with_lease_def Let_def sharedDrain_def resolvedPromise_def deferred_def
        split: option.splits prod.splits)
  have "awaits sid p (snd (tryEnter s g)) \<and> awaits sid p (snd (tryAcquireExclusive s g))"
  proof (cases "s = sid")
    case True
    then show ?thesis
      using admission(3,4) [OF assms(1), of sid] awaits_blocked [OF assms(2)] assms(2) by simp
  next
    case False
    note other = other_object [OF m _ False]
    have "awaits sid p (snd (tryEnter s g))"
      by (rule awaits_same [OF assms(2)])
        (use False other f in \<open>auto simp: tryEnter_eq [OF m] Let_def\<close>)
    moreover have "awaits sid p (snd (tryAcquireExclusive s g))"
      by (rule awaits_same [OF assms(2)])
        (use False other f sub in \<open>auto simp: tryAcquire_eq [OF m] Let_def with_lease_fields\<close>)
    ultimately show ?thesis by simp
  qed
  then show "awaits sid p (snd (tryEnter s g))" "awaits sid p (snd (tryAcquireExclusive s g))" by auto
qed

lemma awaits_leave:
  assumes inv: "gate_inv {} g" and a: "awaits sid p g" and k: "k < length (permits g)"
  shows "awaits sid p (releasePermit k g)"
proof (cases "permitReleased (permits g ! k)")
  case False
  let ?p = "permits g ! k" and ?r = "permitState (permits g ! k)"
  have reg: "gateStates g (permitSession ?p) = Some ?r" and pos: "1 \<le> opActive (gateHeap g ?r)"
    using inv False nth_mem [OF k] open_permit_active [of g ?p] by (auto simp: gate_inv_def permit_inv_def)
  have "awaits sid p (setState ?r ((gateHeap g ?r)\<lparr>opActive := opActive (gateHeap g ?r) - 1\<rparr>)
      (g\<lparr>permits := (permits g)[k := ?p\<lparr>permitReleased := True\<rparr>]\<rparr>))"
    using a pos by (auto simp: awaits_def)
  then show ?thesis using False reg
    by (simp add: releasePermit_def Let_def awaits_settle)
qed (simp add: releasePermit_def Let_def a)

lemma awaits_unlock:
  assumes inv: "gate_inv {} g" and a: "awaits sid p g" and k: "k < length (leases g)"
  shows "awaits sid p (snd (releaseLease k g))"
proof (cases "leaseReleased (leases g ! k)")
  case False
  let ?l = "leases g ! k" and ?r = "leaseState (leases g ! k)"
  have reg: "gateStates g (leaseSession ?l) = Some ?r"
    "opMutation (gateHeap g ?r) = Some (leaseToken ?l)"
    using inv False nth_mem [OF k] by (auto simp: gate_inv_def lease_inv_def)
  have "awaits sid p (setState ?r ((gateHeap g ?r)\<lparr>opMutation := None\<rparr>)
      (g\<lparr>leases := (leases g)[k := ?l\<lparr>leaseReleased := True\<rparr>]\<rparr>))"
    using a reg by (auto simp: awaits_def)
  then show ?thesis using False reg
    by (simp add: releaseLease_def Let_def awaits_settle)
qed (simp add: releaseLease_def Let_def a)

lemma awaits_block:
  assumes inv: "gate_inv {} g" and a: "awaits sid p g"
  shows "awaits sid p (snd (blockSession s g))"
proof -
  have m: "map_inv {} g" using inv by (simp add: gate_inv_def)
  note f = registered_fields [OF m, of s] and b = with_block_fields
  show ?thesis
  proof (cases "s = sid")
    case True
    obtain r where r: "gateStates g sid = Some r" "opDeleting (gateHeap g r)"
      "opFullDrain (gateHeap g r) = Some p
        \<or> p \<in> resolvedPromises g \<and> opActive (gateHeap g r) = 0 \<and> opMutation (gateHeap g r) = None"
      using a by (auto simp: awaits_def)
    have eq: "blockSession sid g = with_block r g"
      by (simp add: blockSession_eq [OF m] registered_state [OF r(1)])
    have "opFullDrain (gateHeap (snd (with_block r g)) r) = Some p
        \<or> p \<in> resolvedPromises (snd (with_block r g)) \<and> opActive (gateHeap g r) = 0
           \<and> opMutation (gateHeap g r) = None"
      using r(3) state_drains [OF inv, of r]
      by (auto simp: with_block_def Let_def resolvedPromise_def)
    then show ?thesis using True r(1) by (auto simp: awaits_def eq b)
  next
    case False
    note other = other_object [OF m _ False]
    show ?thesis
      by (rule awaits_same [OF a])
        (use False other f b(11) [of "registered s g"] in \<open>simp_all add: blockSession_eq [OF m] b(2,6)\<close>)
  qed
qed

lemma awaits_unblock:
  assumes inv: "gate_inv {} g" and a: "awaits sid p g" and "s \<noteq> sid"
  shows "awaits sid p (snd (releaseSession s g))"
proof (cases "gateStates g s")
  case (Some r)
  have m: "map_inv {} g" using inv by (simp add: gate_inv_def)
  have "fst (getState s g) = r" using Some by (simp add: getState_def)
  then have "r' \<noteq> r" if "gateStates g sid = Some r'" for r'
    using other_object [OF m that assms(3)] by auto
  then have "awaits sid p (setState r ((gateHeap g r)\<lparr>opDeleting := False\<rparr>) g)"
    by (intro awaits_same [OF a]) auto
  then show ?thesis using Some a
    by (simp add: releaseSession_def Let_def awaits_settle)
qed (simp add: releaseSession_def a)

lemma awaits_step:
  assumes "gate_inv {} g" "handle_exists g e" "e \<noteq> Unblock sid" "awaits sid p g"
  shows "awaits sid p (gate_step e g)"
  using assms
  by (cases e) (simp_all add: gate_step_def awaits_enter awaits_leave awaits_unlock awaits_block awaits_unblock)

section \<open>Properties\<close>

text \<open>A gate on which one operation runs while a lease waits for it.\<close>

definition sample_gate :: gate where
  "sample_gate = run_events gate_step [Enter ''s'', Acquire ''s''] createSessionOperationGate"

lemma sample_reach: "gate_reach sample_gate"
  unfolding sample_gate_def by (rule reached_run [OF reached.start]) simp

lemmas gate_eval = sample_gate_def gate_step_def createSessionOperationGate_def tryEnter_def getState_def
  createState_def tryAcquireExclusive_def sharedDrain_def deferred_def blockSession_def Let_def

lemma sample_handles:
  "leases sample_gate = [\<lparr>leaseSession = ''s'', leaseState = 0, leaseToken = 0, leaseDrained = 0,
     leaseReleased = False\<rparr>]"
  "permits sample_gate = [\<lparr>permitSession = ''s'', permitState = 0, permitReleased = False\<rparr>]"
  by (simp_all add: gate_eval)

text \<open>
  C25: an exclusive lease excludes: its \<open>drained\<close> promise is resolved exactly when no ordinary
  operation on the session is running, and no second lease is open.
\<close>

theorem gate_exclusive:
  "gate_reach g \<Longrightarrow> l \<in> set (leases g) \<Longrightarrow> \<not> leaseReleased l \<Longrightarrow>
   (leaseDrained l \<in> resolvedPromises g \<longleftrightarrow> \<not> open_permit g (leaseSession l))
   \<and> (\<forall>l' \<in> set (leases g). \<not> leaseReleased l' \<and> leaseSession l' = leaseSession l \<longrightarrow> l' = l)"
proof -
  assume "gate_reach g" and l: "l \<in> set (leases g)" "\<not> leaseReleased l"
  then have inv: "gate_inv {} g" by (simp add: gates.reached_ok)
  then have li: "lease_inv g" and w: "wait_inv g" and d: "drain_inv {} g" by (simp_all add: gate_inv_def)
  have reg: "gateStates g (leaseSession l) = Some (leaseState l)"
    using li l by (simp add: lease_inv_def)
  have "l' = l" if "l' \<in> set (leases g)" "\<not> leaseReleased l'" "leaseSession l' = leaseSession l" for l'
  proof -
    have "gateStates g (leaseSession l') = Some (leaseState l')"
      using li that(1,2) by (simp add: lease_inv_def)
    with reg that(3) have "leaseState l' = leaseState l" by simp
    with li that(1,2) l show ?thesis by (rule open_lease_unique)
  qed
  moreover have "leaseDrained l \<in> resolvedPromises g \<longleftrightarrow> opActive (gateHeap g (leaseState l)) = 0"
    using w l drain_shared [OF d, of "leaseState l"] drain_unresolved [OF d, of "leaseState l" True]
    by (auto simp: wait_inv_def pending_def)
  ultimately show ?thesis using registered_open(1) [OF inv reg] by blast
qed

lemma gate_exclusive_witness:
  "leaseDrained (hd (leases sample_gate)) \<in> resolvedPromises sample_gate \<longleftrightarrow> \<not> open_permit sample_gate ''s''"
  using gate_exclusive [OF sample_reach, of "hd (leases sample_gate)"] by (simp add: sample_handles)

text \<open>
  C26: while a session is blocked, the promise of \<open>block\<close> is resolved exactly when no operation and
  no lease of the session is open, whatever else happens on the gate in the meantime.
\<close>

theorem gate_block_drains:
  "gate_reach g \<Longrightarrow> all_possible handle_exists gate_step es (gate_step (Block sid) g) \<Longrightarrow>
   list_all (\<lambda>e. e \<noteq> Unblock sid) es \<Longrightarrow>
   g' = run_events gate_step es (gate_step (Block sid) g) \<Longrightarrow>
   fst (blockSession sid g) \<in> resolvedPromises g' \<longleftrightarrow> \<not> open_permit g' sid \<and> \<not> open_lease g' sid"
proof -
  assume "gate_reach g" and es: "all_possible handle_exists gate_step es (gate_step (Block sid) g)"
    "list_all (\<lambda>e. e \<noteq> Unblock sid) es" and g': "g' = run_events gate_step es (gate_step (Block sid) g)"
  then have inv: "gate_inv {} g" by (simp add: gates.reached_ok)
  then have "gate_inv {} (gate_step (Block sid) g)" by (simp add: gate_step_inv)
  then have "awaits sid (fst (blockSession sid g)) g'" "gate_inv {} g'"
    unfolding g' using es block_awaits [OF inv]
    by (auto intro: gates.run_ok gates.run_keeps [where E = "\<lambda>e. e \<noteq> Unblock sid"] awaits_step)
  then show ?thesis by (intro awaits_resolved)
qed

lemma gate_block_drains_witness:
  "fst (blockSession ''s'' sample_gate)
     \<in> resolvedPromises (run_events gate_step [LeavePermit 0, LeaveLease 0] (gate_step (Block ''s'') sample_gate))"
proof -
  let ?g = "gate_step (Block ''s'') sample_gate"
  let ?g' = "run_events gate_step [LeavePermit 0, LeaveLease 0] ?g"
  have "all_possible handle_exists gate_step [LeavePermit 0, LeaveLease 0] ?g"
    by (simp add: gate_eval releasePermit_def settleState_fields)
  moreover have "\<not> open_permit ?g' ''s''" "\<not> open_lease ?g' ''s''"
    by (simp_all add: gate_eval releasePermit_def releaseLease_def settleState_fields settled_def open_permit_def
        open_lease_def)
  ultimately show ?thesis
    using gate_block_drains [OF sample_reach, of "[LeavePermit 0, LeaveLease 0]" "''s''" ?g'] by simp
qed

text \<open>
  C27: the errors of the gate: releasing a lease never finds it lost, and the only call that fails is
  lifting the block of a session on which something still runs.
\<close>

theorem gate_errors:
  "gate_reach g \<Longrightarrow> handle_exists g e \<Longrightarrow>
   fst (gate_do e g) \<noteq> None \<longleftrightarrow> (\<exists>sid. e = Unblock sid \<and> (open_permit g sid \<or> open_lease g sid))"
proof -
  assume "gate_reach g" and e: "handle_exists g e"
  then have inv: "gate_inv {} g" by (simp add: gates.reached_ok)
  have "fst (releaseSession sid g) \<noteq> None \<longleftrightarrow> open_permit g sid \<or> open_lease g sid" for sid
    using registered_open [OF inv, of sid] unregistered_closed [OF inv, of sid]
    by (cases "gateStates g sid") (auto simp: releaseSession_def Let_def)
  then show ?thesis using e inv
    by (cases e) (auto simp: releaseLease_inv)
qed

lemma gate_errors_witness: "fst (gate_do (Unblock ''s'') sample_gate) \<noteq> None"
  using gate_errors [OF sample_reach, of "Unblock ''s''"] by (simp add: open_permit_def sample_handles)

text \<open>
  C28: the gate forgets idle sessions and loses no waiter: a session is in its map exactly while an
  operation or a lease is open or the session is blocked, and once nothing is open every promise it
  handed out is resolved.
\<close>

theorem gate_settles:
  "gate_reach g \<Longrightarrow>
   (gateStates g sid \<noteq> None \<longleftrightarrow> open_permit g sid \<or> open_lease g sid \<or> blocked g sid)
   \<and> ((\<forall>s. \<not> open_permit g s \<and> \<not> open_lease g s) \<longrightarrow> resolvedPromises g = {..< nextPromise g})"
proof -
  assume "gate_reach g"
  then have inv: "gate_inv {} g" by (simp add: gates.reached_ok)
  then have m: "map_inv {} g" and d: "drain_inv {} g" by (simp_all add: gate_inv_def)
  have "\<not> idle (gateHeap g r)" if "gateStates g sid = Some r" for r
    using m that by (auto simp: map_inv_def)
  then have 1: "gateStates g sid \<noteq> None \<longleftrightarrow> open_permit g sid \<or> open_lease g sid \<or> blocked g sid"
    using registered_open [OF inv, of sid] unregistered_closed [OF inv, of sid]
    by (cases "gateStates g sid") (auto simp: idle_def blocked_def)
  have "pending g r b = None" if quiet: "\<forall>s. \<not> open_permit g s \<and> \<not> open_lease g s" for r b
  proof (cases "\<exists>s. gateStates g s = Some r")
    case True
    then obtain s where "gateStates g s = Some r" by blast
    then have "opActive (gateHeap g r) = 0" "opMutation (gateHeap g r) = None"
      using registered_open [OF inv] quiet by auto
    then show ?thesis using state_drains [OF inv, of r] by (simp add: pending_def)
  next
    case False
    then have "gateHeap g r = createState" using m by (auto simp: map_inv_def)
    then show ?thesis by (simp add: pending_def createState_def)
  qed
  then have "resolvedPromises g = {..< nextPromise g}" if "\<forall>s. \<not> open_permit g s \<and> \<not> open_lease g s"
    using that drain_kept [OF d] drain_past [OF d] by fastforce
  with 1 show ?thesis by blast
qed

lemma gate_settles_witness: "gateStates sample_gate ''s'' \<noteq> None \<and> gateStates sample_gate ''t'' = None"
  using gate_settles [OF sample_reach, of "''s''"] gate_settles [OF sample_reach, of "''t''"]
  by (simp add: open_permit_def open_lease_def sample_handles) (simp add: blocked_def gate_eval)

end
