(* ===== verification/Numbers.thy ===== *)
theory Numbers
  imports Prelude Complex_Main
begin

text \<open>
  The numbers of the program: a finite number is rational, and the decimal text of the natural ones.
\<close>

datatype js_number = Finite rat | NotFinite

definition is_integer :: "js_number \<Rightarrow> bool" where
  "is_integer n = (case n of Finite v \<Rightarrow> of_int \<lfloor>v\<rfloor> = v | NotFinite \<Rightarrow> False)"

definition DIGITS :: string where
  "DIGITS = ''0123456789ABCDEF''"

text \<open>A natural number in decimal, and \<open>BigInt\<close> of a string that matches \<open>/^\d+$/\<close>.\<close>

fun decimal :: "nat \<Rightarrow> string" where
  "decimal n = (if n < 10 then [DIGITS ! n] else decimal (n div 10) @ [DIGITS ! (n mod 10)])"

declare decimal.simps [simp del]

definition read_decimal :: "string \<Rightarrow> nat" where
  "read_decimal s = foldl (\<lambda>n c. 10 * n + (code c - 48)) 0 s"

lemma digit_facts:
  assumes "n < 10"
  shows "is_digit (DIGITS ! n)" "code (DIGITS ! n) = 48 + n"
proof -
  have "n \<in> {0, 1, 2, 3, 4, 5, 6, 7, 8, 9}" using assms by auto
  then show "is_digit (DIGITS ! n)" "code (DIGITS ! n) = 48 + n"
    by (auto simp: DIGITS_def is_digit_def code_def)
qed

lemma decimal_digits: "list_all is_digit (decimal n)" "decimal n \<noteq> []"
  by (induction n rule: decimal.induct) (subst decimal.simps, simp add: digit_facts)+

lemma read_snoc: "read_decimal (s @ [c]) = 10 * read_decimal s + (code c - 48)"
  by (simp add: read_decimal_def)

lemma read_decimal_decimal [simp]: "read_decimal (decimal n) = n"
proof (induction n rule: decimal.induct)
  case (1 n)
  show ?case
  proof (cases "n < 10")
    case True
    then show ?thesis by (simp add: decimal.simps [of n] read_decimal_def digit_facts)
  next
    case False
    then show ?thesis using 1 by (simp add: decimal.simps [of n] read_snoc digit_facts)
  qed
qed

end
