(* ===== verification/UriText.thy ===== *)
theory UriText
  imports Numbers
begin

text \<open>
  \<open>encodeURIComponent\<close> of the standard library on the 8-bit characters of this model, and that it
  loses nothing.
\<close>

definition percent :: "nat \<Rightarrow> string" where
  "percent b = [CHR ''%'', DIGITS ! (b div 16), DIGITS ! (b mod 16)]"

text \<open>\<open>encodeURIComponent\<close>: characters from 128 on take two bytes in UTF-8.\<close>

definition uri_unreserved :: "char \<Rightarrow> bool" where
  "uri_unreserved c \<longleftrightarrow> is_alnum c \<or> c \<in> set (''-_.!~*()'' @ [SQ])"

definition uri_char :: "char \<Rightarrow> string" where
  "uri_char c =
     (if uri_unreserved c then [c]
      else if code c < 128 then percent (code c)
      else percent (192 + code c div 64) @ percent (128 + code c mod 64))"

definition encodeURIComponent :: "string \<Rightarrow> string" where
  "encodeURIComponent s = concat (map uri_char s)"

lemma digit_inj: "m < 16 \<Longrightarrow> n < 16 \<Longrightarrow> DIGITS ! m = DIGITS ! n \<longleftrightarrow> m = n"
  by (rule nth_eq_iff_index_eq) (simp_all add: DIGITS_def)

lemma digit_member: "n < 16 \<Longrightarrow> DIGITS ! n \<in> set ''0123456789ABCDEF''"
  unfolding DIGITS_def by (rule nth_mem) simp

lemma percent_inj:
  assumes "percent a @ s = percent b @ t" "a < 256" "b < 256"
  shows "a = b \<and> s = t"
proof -
  have "a div 16 = b div 16" "a mod 16 = b mod 16" "s = t"
    using assms digit_inj [of "a div 16" "b div 16"] digit_inj [of "a mod 16" "b mod 16"]
    by (simp_all add: percent_def less_mult_imp_div_less)
  then show ?thesis by (metis div_mult_mod_eq)
qed

lemma code_less: "code c < 256"
  using of_char_mod_256 [of c, where 'a = nat] by (metis code_def mod_less_divisor zero_less_numeral)

lemma code_inj: "code c = code d \<Longrightarrow> c = d"
  by (simp add: code_def)

lemma percent_reserved: "\<not> uri_unreserved CHR ''%''"
  by (simp add: uri_unreserved_def is_alnum_def is_alpha_def is_upper_def is_lower_def is_digit_def code_def)

lemma uri_char_head: "uri_char c = d # s \<Longrightarrow> uri_unreserved c \<longleftrightarrow> d \<noteq> CHR ''%''"
  using percent_reserved by (auto simp: uri_char_def percent_def split: if_splits)

lemma uri_char_not_Nil: "uri_char c \<noteq> []"
  by (simp add: uri_char_def percent_def)

lemma uri_char_inj:
  assumes eq: "uri_char c @ s = uri_char d @ t"
  shows "c = d \<and> s = t"
proof -
  obtain x u y v where c: "uri_char c = x # u" and d: "uri_char d = y # v"
    using uri_char_not_Nil [of c] uri_char_not_Nil [of d] by (cases "uri_char c"; cases "uri_char d") auto
  have "x = y" using eq c d by simp
  then have same: "uri_unreserved c \<longleftrightarrow> uri_unreserved d"
    using uri_char_head [OF c] uri_char_head [OF d] by simp
  have b: "192 + code e div 64 < 256" "128 + code e mod 64 < 256" "code e < 256" for e
    using code_less [of e] by (auto simp: less_mult_imp_div_less)
  show ?thesis
  proof (cases "uri_unreserved c")
    case True
    then show ?thesis using eq same by (simp add: uri_char_def)
  next
    case False
    show ?thesis
    proof (cases "code c < 128 \<longleftrightarrow> code d < 128")
      case True
      have "code c = code d \<and> s = t"
      proof (cases "code c < 128")
        case small: True
        with eq same False True have "percent (code c) @ s = percent (code d) @ t" by (simp add: uri_char_def)
        from percent_inj [OF this b(3) b(3)] show ?thesis .
      next
        case big: False
        from eq same False True big have "percent (192 + code c div 64) @ percent (128 + code c mod 64) @ s
            = percent (192 + code d div 64) @ percent (128 + code d mod 64) @ t"
          by (simp add: uri_char_def)
        from percent_inj [OF this b(1) b(1)]
        have "code c div 64 = code d div 64"
          and "percent (128 + code c mod 64) @ s = percent (128 + code d mod 64) @ t" by simp_all
        moreover from percent_inj [OF this(2) b(2) b(2)]
        have "code c mod 64 = code d mod 64" and st: "s = t" by simp_all
        ultimately have "code c div 64 * 64 + code c mod 64 = code d div 64 * 64 + code d mod 64" by simp
        then have "code c = code d" by (simp only: div_mult_mod_eq)
        with st show ?thesis by simp
      qed
      then show ?thesis using code_inj by blast
    next
      case mixed: False
      have differ: False
        if "percent (code e) @ u' = percent (192 + code f div 64) @ v'" "code e < 128" for e f u' v'
        using percent_inj [OF that(1) b(3) b(1)] that(2) by simp
      show ?thesis
      proof (cases "code c < 128")
        case True
        with same False mixed have "uri_char c = percent (code c)"
            "uri_char d = percent (192 + code d div 64) @ percent (128 + code d mod 64)"
          by (simp_all add: uri_char_def)
        with eq differ [of c s d "percent (128 + code d mod 64) @ t"] True show ?thesis by simp
      next
        case big: False
        with mixed have small: "code d < 128" by simp
        with same False big have "uri_char d = percent (code d)"
            "uri_char c = percent (192 + code c div 64) @ percent (128 + code c mod 64)"
          by (simp_all add: uri_char_def)
        with eq [symmetric] differ [of d t c "percent (128 + code c mod 64) @ s"] small show ?thesis by simp
      qed
    qed
  qed
qed

lemma encode_inj: "encodeURIComponent s = encodeURIComponent t \<Longrightarrow> s = t"
proof (induction s arbitrary: t)
  case Nil
  then show ?case using uri_char_not_Nil by (cases t) (auto simp: encodeURIComponent_def)
next
  case (Cons c s)
  then obtain d t' where t: "t = d # t'"
    using uri_char_not_Nil by (cases t) (auto simp: encodeURIComponent_def)
  with Cons.prems uri_char_inj [of c "encodeURIComponent s" d "encodeURIComponent t'"]
  have "c = d \<and> encodeURIComponent s = encodeURIComponent t'" by (simp add: encodeURIComponent_def)
  with Cons.IH t show ?case by simp
qed

lemma encode_no_colon: "CHR '':'' \<notin> set (encodeURIComponent s)"
proof -
  have "CHR '':'' \<notin> set (percent b)" if "b < 256" for b
    using digit_member [of "b div 16"] digit_member [of "b mod 16"] that
    by (auto simp: percent_def less_mult_imp_div_less)
  moreover have "192 + code c div 64 < 256" "128 + code c mod 64 < 256" "code c < 256" for c
    using code_less [of c] by (auto simp: less_mult_imp_div_less)
  moreover have "\<not> uri_unreserved CHR '':''"
    by (simp add: uri_unreserved_def is_alnum_def is_alpha_def is_upper_def is_lower_def is_digit_def code_def)
  ultimately have "CHR '':'' \<notin> set (uri_char c)" for c
    by (auto simp: uri_char_def)
  then show ?thesis by (auto simp: encodeURIComponent_def)
qed

end
