(* ===== verification/BoundedRing.thy ===== *)
theory BoundedRing
  imports UriText
begin

text \<open>
  The bounded replay ring of the event streams (\<open>infra/sse/bounded-ring.ts\<close> of \<open>local-runtime-v2\<close>):
  entries with consecutive cursors, evicted from the front, replayed after a cursor.  A finite
  number is rational; sums of sizes are exact, which they are in the program below \<open>2^53\<close>.  The
  measure, the eviction policy and the random epoch are arguments; a missing policy is the one that
  returns nothing.
\<close>

section \<open>Numbers\<close>

fun positiveInteger :: "js_number option \<Rightarrow> nat \<Rightarrow> nat" where
  "positiveInteger (Some (Finite v)) fallback = (if 0 < v then nat \<lfloor>v\<rfloor> else fallback)"
| "positiveInteger _ fallback = fallback"

fun normalizedByteSize :: "js_number \<Rightarrow> nat" where
  "normalizedByteSize (Finite v) = (if 0 \<le> v then nat \<lfloor>v\<rfloor> else 0)"
| "normalizedByteSize NotFinite = 0"

fun normalizedEvictionCount :: "js_number option \<Rightarrow> nat \<Rightarrow> nat" where
  "normalizedEvictionCount (Some (Finite v)) retained = (if v \<le> 0 then 0 else min (nat \<lfloor>v\<rfloor>) retained)"
| "normalizedEvictionCount _ retained = 0"

section \<open>Cursors\<close>

definition createCursorPrefix :: "string \<Rightarrow> string option \<Rightarrow> string option \<Rightarrow> string" where
  "createCursorPrefix uuid scope epoch =
     ''sse1:'' @ encodeURIComponent (or_default scope ''ring'') @ '':''
       @ encodeURIComponent (or_default epoch uuid) @ '':''"

section \<open>The ring\<close>

record 'v ring_entry =
  entryCursor :: string
  entryIdentity :: string
  entryValue :: 'v
  entryByteSize :: nat

record 'v ring_append_input =
  inputIdentity :: string
  inputValue :: 'v
  inputByteSize :: "js_number option"

record 'v ring_append_result =
  resultEntry :: "'v ring_entry"
  appended :: bool
  retained :: bool
  evictedCount :: nat

datatype replay_status = ReplayOk | ReplayEvicted | ReplayInvalidCursor

record 'v bounded_ring =
  ringEntries :: "'v ring_entry list"
  ringIdentities :: "string \<Rightarrow> 'v ring_entry option"
  maxItems :: nat
  maxBytes :: nat
  cursorPrefix :: string
  nextCursor :: nat
  droppedThrough :: nat
  retainedBytes :: int

record 'v ring_retention_snapshot =
  snapshotEntries :: "'v ring_entry list"
  snapshotRetainedBytes :: int
  snapshotMaxItems :: nat
  snapshotMaxBytes :: nat

definition DEFAULT_MAX_ITEMS :: nat where "DEFAULT_MAX_ITEMS = 512"
definition DEFAULT_MAX_BYTES :: nat where "DEFAULT_MAX_BYTES = 2 * 1024 * 1024"

record bounded_ring_options =
  optMaxItems :: "js_number option"
  optMaxBytes :: "js_number option"
  optCursorScope :: "string option"
  optCursorEpoch :: "string option"

definition newBoundedRing :: "string \<Rightarrow> bounded_ring_options \<Rightarrow> 'v bounded_ring" where
  "newBoundedRing uuid opts =
     \<lparr>ringEntries = [], ringIdentities = (\<lambda>k. None),
      maxItems = positiveInteger (optMaxItems opts) DEFAULT_MAX_ITEMS,
      maxBytes = positiveInteger (optMaxBytes opts) DEFAULT_MAX_BYTES,
      cursorPrefix = createCursorPrefix uuid (optCursorScope opts) (optCursorEpoch opts),
      nextCursor = 1, droppedThrough = 0, retainedBytes = 0\<rparr>"

definition formatCursor :: "'v bounded_ring \<Rightarrow> nat \<Rightarrow> string" where
  "formatCursor r n = cursorPrefix r @ decimal n"

definition parseCursor :: "'v bounded_ring \<Rightarrow> string \<Rightarrow> nat option" where
  "parseCursor r value =
     (if \<not> starts_with (cursorPrefix r) value then None
      else let digits = drop (length (cursorPrefix r)) value
        in if digits = [] \<or> \<not> list_all is_digit digits then None else Some (read_decimal digits))"

definition evictOne :: "'v ring_entry \<Rightarrow> 'v bounded_ring \<Rightarrow> 'v bounded_ring" where
  "evictOne evicted r = r\<lparr>ringEntries := tl (ringEntries r),
     ringIdentities := (ringIdentities r)(entryIdentity evicted := None),
     retainedBytes := retainedBytes r - int (entryByteSize evicted),
     droppedThrough := or_default (parseCursor r (entryCursor evicted)) (droppedThrough r)\<rparr>"

primrec evictPrefix :: "nat \<Rightarrow> 'v bounded_ring \<Rightarrow> nat \<times> 'v bounded_ring" where
  "evictPrefix 0 r = (0, r)"
| "evictPrefix (Suc count) r =
     (case ringEntries r of
        [] \<Rightarrow> evictPrefix count r
      | evicted # rest \<Rightarrow> let (n, r') = evictPrefix count (evictOne evicted r) in (n + 1, r'))"

definition snapshot :: "'v bounded_ring \<Rightarrow> 'v ring_retention_snapshot" where
  "snapshot r = \<lparr>snapshotEntries = ringEntries r, snapshotRetainedBytes = retainedBytes r,
     snapshotMaxItems = maxItems r, snapshotMaxBytes = maxBytes r\<rparr>"

definition overBounds :: "'v bounded_ring \<Rightarrow> bool" where
  "overBounds r \<longleftrightarrow> maxItems r < length (ringEntries r) \<or> int (maxBytes r) < retainedBytes r"

definition evictionCount :: "('v ring_retention_snapshot \<Rightarrow> js_number option) \<Rightarrow> 'v bounded_ring \<Rightarrow> nat" where
  "evictionCount policy r =
     (let selected = normalizedEvictionCount (policy (snapshot r)) (length (ringEntries r))
      in if selected = 0 \<and> overBounds r then 1 else selected)"

lemma evictPrefix_entries:
  "ringEntries (snd (evictPrefix n r)) = drop n (ringEntries r)"
  "fst (evictPrefix n r) = min n (length (ringEntries r))"
  by (induction n arbitrary: r)
    (auto simp: evictOne_def split_beta Let_def split: list.split)

function enforceRetention ::
    "('v ring_retention_snapshot \<Rightarrow> js_number option) \<Rightarrow> 'v bounded_ring \<Rightarrow> nat \<times> 'v bounded_ring" where
  "enforceRetention policy r =
     (if ringEntries r = [] \<or> evictionCount policy r = 0 then (0, r)
      else let (m, r') = evictPrefix (evictionCount policy r) r;
               (n, r'') = enforceRetention policy r'
        in (m + n, r''))"
  by pat_completeness auto
termination
  by (relation "measure (\<lambda>(policy, r). length (ringEntries r))")
    (auto dest!: arg_cong [where f = snd] simp: evictPrefix_entries)

declare enforceRetention.simps [simp del]

definition appendRing ::
    "('v \<Rightarrow> js_number) \<Rightarrow> ('v ring_retention_snapshot \<Rightarrow> js_number option) \<Rightarrow> 'v ring_append_input
     \<Rightarrow> 'v bounded_ring \<Rightarrow> 'v ring_append_result \<times> 'v bounded_ring" where
  "appendRing measured policy inp r =
     (case ringIdentities r (inputIdentity inp) of
        Some duplicate \<Rightarrow>
          (\<lparr>resultEntry = duplicate, appended = False, retained = True, evictedCount = 0\<rparr>, r)
      | None \<Rightarrow>
          let entry = \<lparr>entryCursor = formatCursor r (nextCursor r), entryIdentity = inputIdentity inp,
                entryValue = inputValue inp,
                entryByteSize = normalizedByteSize (or_default (inputByteSize inp) (measured (inputValue inp)))\<rparr>;
              r1 = r\<lparr>nextCursor := nextCursor r + 1, ringEntries := ringEntries r @ [entry],
                ringIdentities := (ringIdentities r)(entryIdentity entry := Some entry),
                retainedBytes := retainedBytes r + int (entryByteSize entry)\<rparr>;
              (evicted, r2) = enforceRetention policy r1;
              kept = (ringIdentities r2 (entryIdentity entry) \<noteq> None)
          in (\<lparr>resultEntry = entry, appended = True, retained = kept,
               evictedCount = (if kept then evicted else evicted - 1)\<rparr>, r2))"

definition replay :: "string option \<Rightarrow> 'v bounded_ring \<Rightarrow> replay_status \<times> 'v ring_entry list" where
  "replay afterCursor r =
     (if \<not> truthy_opt afterCursor then (ReplayOk, ringEntries r)
      else (case parseCursor r (the afterCursor) of
          None \<Rightarrow> (ReplayInvalidCursor, [])
        | Some parsed \<Rightarrow>
            if nextCursor r \<le> parsed then (ReplayInvalidCursor, [])
            else if parsed < droppedThrough r then (ReplayEvicted, [])
            else (ReplayOk, filter (\<lambda>e. case parseCursor r (entryCursor e) of
                None \<Rightarrow> False | Some n \<Rightarrow> parsed < n) (ringEntries r))))"

definition latestCursor :: "'v bounded_ring \<Rightarrow> string" where
  "latestCursor r = formatCursor r (nextCursor r - 1)"

definition isAfter :: "string option \<Rightarrow> string \<Rightarrow> 'v bounded_ring \<Rightarrow> bool" where
  "isAfter cursor watermark r =
     (if \<not> truthy_opt cursor then False
      else (case (parseCursor r (the cursor), parseCursor r watermark) of
          (Some selected, Some boundary) \<Rightarrow> boundary < selected | _ \<Rightarrow> False))"

section \<open>Reading cursors\<close>

lemma parse_format [simp]: "parseCursor r (formatCursor r' n) = Some n"
  if "cursorPrefix r' = cursorPrefix r"
  using that by (simp add: parseCursor_def formatCursor_def decimal_digits Let_def)

section \<open>Invariant\<close>

definition ring_ok :: "'v bounded_ring \<Rightarrow> bool" where
  "ring_ok r \<longleftrightarrow>
     map entryCursor (ringEntries r) = map (formatCursor r) [Suc (droppedThrough r) ..< nextCursor r]
     \<and> droppedThrough r < nextCursor r
     \<and> ringIdentities r = map_of (map (\<lambda>e. (entryIdentity e, e)) (ringEntries r))
     \<and> distinct (map entryIdentity (ringEntries r))
     \<and> retainedBytes r = (\<Sum>e \<leftarrow> ringEntries r. int (entryByteSize e))"

lemma identity_none: "ring_ok r \<Longrightarrow> ringIdentities r k = None \<longleftrightarrow> k \<notin> set (map entryIdentity (ringEntries r))"
  by (simp add: ring_ok_def map_of_eq_None_iff image_image)

text \<open>The fields eviction leaves alone.\<close>

definition same_ring :: "'v bounded_ring \<Rightarrow> 'v bounded_ring \<Rightarrow> bool" where
  "same_ring r r' \<longleftrightarrow> cursorPrefix r' = cursorPrefix r \<and> nextCursor r' = nextCursor r
     \<and> maxItems r' = maxItems r \<and> maxBytes r' = maxBytes r"

lemma same_ring_refl [simp]: "same_ring r r"
  by (simp add: same_ring_def)

lemma same_ring_trans: "same_ring r r' \<Longrightarrow> same_ring r' r'' \<Longrightarrow> same_ring r r''"
  by (simp add: same_ring_def)

lemma format_same: "same_ring r r' \<Longrightarrow> formatCursor r' = formatCursor r"
  by (auto simp: same_ring_def formatCursor_def)

lemma evictOne_ok:
  assumes "ring_ok r" "ringEntries r = e # es"
  shows "ring_ok (evictOne e r) \<and> same_ring r (evictOne e r) \<and> ringEntries (evictOne e r) = es"
proof -
  have less: "Suc (droppedThrough r) < nextCursor r"
  proof (rule ccontr)
    assume "\<not> ?thesis"
    then show False using assms by (simp add: ring_ok_def)
  qed
  then have "entryCursor e = formatCursor r (Suc (droppedThrough r))"
    and tail: "map entryCursor es = map (formatCursor r) [Suc (Suc (droppedThrough r)) ..< nextCursor r]"
    using assms by (simp_all add: ring_ok_def upt_conv_Cons)
  then have d: "droppedThrough (evictOne e r) = Suc (droppedThrough r)"
    by (simp add: evictOne_def)
  have same: "same_ring r (evictOne e r)"
    by (simp add: same_ring_def evictOne_def)
  have "map_of (map (\<lambda>e. (entryIdentity e, e)) es) (entryIdentity e) = None"
    using assms by (auto simp: ring_ok_def map_of_eq_None_iff)
  then have "ringIdentities (evictOne e r) = map_of (map (\<lambda>e. (entryIdentity e, e)) es)"
    using assms by (auto simp: ring_ok_def evictOne_def)
  moreover have "ringEntries (evictOne e r) = es" "nextCursor (evictOne e r) = nextCursor r"
    "retainedBytes (evictOne e r) = (\<Sum>e \<leftarrow> es. int (entryByteSize e))"
    using assms by (simp_all add: ring_ok_def evictOne_def)
  ultimately show ?thesis
    using assms tail less same unfolding ring_ok_def format_same [OF same] d by simp
qed

lemma evictPrefix_ok:
  "ring_ok r \<Longrightarrow> ring_ok (snd (evictPrefix n r)) \<and> same_ring r (snd (evictPrefix n r))"
proof (induction n arbitrary: r)
  case (Suc n)
  then show ?case using evictOne_ok [of r]
    by (cases "ringEntries r") (auto simp: split_beta Let_def intro: same_ring_trans)
qed simp

lemma enforceRetention_ok:
  "ring_ok r \<Longrightarrow> ring_ok (snd (enforceRetention policy r)) \<and> same_ring r (snd (enforceRetention policy r))
     \<and> \<not> overBounds (snd (enforceRetention policy r))
     \<and> ringEntries (snd (enforceRetention policy r)) = drop (fst (enforceRetention policy r)) (ringEntries r)
     \<and> fst (enforceRetention policy r) \<le> length (ringEntries r)"
proof (induction policy r rule: enforceRetention.induct)
  case (1 policy r)
  show ?case
  proof (cases "ringEntries r = [] \<or> evictionCount policy r = 0")
    case True
    then have "\<not> overBounds r"
      using 1(2) by (auto simp: evictionCount_def Let_def overBounds_def ring_ok_def split: if_splits)
    with True 1(2) show ?thesis by (simp add: enforceRetention.simps [of policy r])
  next
    case False
    obtain m r' where e: "evictPrefix (evictionCount policy r) r = (m, r')" by fastforce
    have r': "ring_ok r'" "same_ring r r'" "ringEntries r' = drop m (ringEntries r)"
        "m \<le> length (ringEntries r)"
      using evictPrefix_ok [OF 1(2), of "evictionCount policy r"]
        evictPrefix_entries [of "evictionCount policy r" r] e by (auto simp: min_def)
    from 1(1) [OF False e [symmetric] refl r'(1)] r' show ?thesis
      using False e by (auto simp: enforceRetention.simps [of policy r] Let_def split_beta add.commute
          intro: same_ring_trans)
  qed
qed

section \<open>Appending\<close>

text \<open>What one append does to a well-formed ring.\<close>

lemma append_duplicate:
  "ringIdentities r (inputIdentity inp) \<noteq> None \<Longrightarrow>
   snd (appendRing measured policy inp r) = r \<and> \<not> appended (fst (appendRing measured policy inp r))"
  by (auto simp: appendRing_def)

definition new_entry :: "('v \<Rightarrow> js_number) \<Rightarrow> 'v ring_append_input \<Rightarrow> 'v bounded_ring \<Rightarrow> 'v ring_entry" where
  "new_entry measured inp r = \<lparr>entryCursor = formatCursor r (nextCursor r), entryIdentity = inputIdentity inp,
     entryValue = inputValue inp,
     entryByteSize = normalizedByteSize (or_default (inputByteSize inp) (measured (inputValue inp)))\<rparr>"

definition with_entry :: "'v ring_entry \<Rightarrow> 'v bounded_ring \<Rightarrow> 'v bounded_ring" where
  "with_entry e r = r\<lparr>nextCursor := nextCursor r + 1, ringEntries := ringEntries r @ [e],
     ringIdentities := (ringIdentities r)(entryIdentity e := Some e),
     retainedBytes := retainedBytes r + int (entryByteSize e)\<rparr>"

lemma with_entry_ok:
  assumes ok: "ring_ok r" and new: "ringIdentities r (inputIdentity inp) = None"
  shows "ring_ok (with_entry (new_entry measured inp r) r)"
proof -
  let ?e = "new_entry measured inp r" and ?m = "\<lambda>e. (entryIdentity e, e)"
  have f: "formatCursor (with_entry ?e r) = formatCursor r"
    by (auto simp: formatCursor_def with_entry_def)
  have fresh: "entryIdentity ?e \<notin> set (map entryIdentity (ringEntries r))"
    using ok new by (simp add: identity_none new_entry_def)
  then have "map_of (map ?m (ringEntries r)) (entryIdentity ?e) = None"
    by (simp add: map_of_eq_None_iff image_image)
  then have "map_of (map ?m (ringEntries r @ [?e])) = (map_of (map ?m (ringEntries r)))(entryIdentity ?e \<mapsto> ?e)"
    by (auto simp: map_add_def split: option.split)
  then show ?thesis
    using ok fresh unfolding ring_ok_def f
    by (simp add: with_entry_def) (simp add: new_entry_def)
qed

lemma append_new:
  fixes measured :: "'v \<Rightarrow> js_number" and policy :: "'v ring_retention_snapshot \<Rightarrow> js_number option"
  assumes ok: "ring_ok r" and new: "ringIdentities r (inputIdentity inp) = None"
  defines "e \<equiv> new_entry measured inp r" and "res \<equiv> fst (appendRing measured policy inp r)"
    and "r' \<equiv> snd (appendRing measured policy inp r)"
  shows "ring_ok r'" "\<not> overBounds r'" "same_ring (with_entry e r) r'"
    "resultEntry res = e" "appended res"
    "\<exists>k \<le> length (ringEntries r) + 1. ringEntries r' = drop k (ringEntries r @ [e])
       \<and> (retained res \<longleftrightarrow> k \<le> length (ringEntries r)) \<and> evictedCount res = min k (length (ringEntries r))"
proof -
  obtain k r2 where k: "enforceRetention policy (with_entry e r) = (k, r2)" by fastforce
  have eqs: "r' = r2" "res = \<lparr>resultEntry = e, appended = True,
      retained = (ringIdentities r2 (entryIdentity e) \<noteq> None),
      evictedCount = (if ringIdentities r2 (entryIdentity e) \<noteq> None then k else k - 1)\<rparr>"
    using new k unfolding r'_def res_def e_def
    by (simp_all add: appendRing_def new_entry_def with_entry_def Let_def)
  have "ring_ok (with_entry e r)"
    unfolding e_def using ok new by (rule with_entry_ok)
  from enforceRetention_ok [OF this, of policy]
  have r2: "ring_ok r2" "same_ring (with_entry e r) r2" "\<not> overBounds r2"
    "ringEntries r2 = drop k (ringEntries r @ [e])" "k \<le> length (ringEntries r) + 1"
    by (simp_all add: k) (simp_all add: with_entry_def)
  have kept: "ringIdentities r2 (entryIdentity e) \<noteq> None \<longleftrightarrow> k \<le> length (ringEntries r)"
  proof (cases "k \<le> length (ringEntries r)")
    case True
    then have "ringEntries r2 = drop k (ringEntries r) @ [e]" using r2(4) by simp
    then show ?thesis using True by (simp add: identity_none [OF r2(1)])
  next
    case False
    then have "ringEntries r2 = []" using r2(4) by simp
    then show ?thesis using False by (simp add: identity_none [OF r2(1)])
  qed
  show "ring_ok r'" "\<not> overBounds r'" "same_ring (with_entry e r) r'" "resultEntry res = e" "appended res"
    using r2(1-3) by (simp_all add: eqs)
  have "retained res \<longleftrightarrow> k \<le> length (ringEntries r)" "evictedCount res = min k (length (ringEntries r))"
    using kept r2(5) by (auto simp: eqs)
  then show "\<exists>k \<le> length (ringEntries r) + 1. ringEntries r' = drop k (ringEntries r @ [e])
       \<and> (retained res \<longleftrightarrow> k \<le> length (ringEntries r)) \<and> evictedCount res = min k (length (ringEntries r))"
    using r2(4,5) by (intro exI [of _ k]) (simp add: eqs(1))
qed

section \<open>Sequences of appends\<close>

definition ring_step ::
    "('v \<Rightarrow> js_number) \<Rightarrow> ('v ring_retention_snapshot \<Rightarrow> js_number option) \<Rightarrow> 'v ring_append_input
     \<Rightarrow> 'v bounded_ring \<Rightarrow> 'v bounded_ring" where
  "ring_step measured policy inp r = snd (appendRing measured policy inp r)"

definition ring_inv :: "'v bounded_ring \<Rightarrow> bool" where
  "ring_inv r \<longleftrightarrow> ring_ok r \<and> \<not> overBounds r"

interpretation rings: event_system "newBoundedRing uuid opts" "\<lambda>r inp. True" "ring_step measured policy" ring_inv
  for uuid opts measured policy
proof
  show "ring_inv (newBoundedRing uuid opts)"
    by (simp add: ring_inv_def ring_ok_def newBoundedRing_def overBounds_def)
  show "ring_inv (ring_step measured policy e s)" if "ring_inv s" for s :: "'a bounded_ring" and e
  proof (cases "ringIdentities s (inputIdentity e)")
    case None
    then show ?thesis
      using that append_new(1,2) [of s e measured policy] by (simp add: ring_inv_def ring_step_def)
  qed (use that append_duplicate [of s e measured policy] in \<open>simp add: ring_inv_def ring_step_def\<close>)
qed

text \<open>The entries that a sequence of appends adds, in order, and the ring after it.\<close>

primrec appendAll ::
    "('v \<Rightarrow> js_number) \<Rightarrow> ('v ring_retention_snapshot \<Rightarrow> js_number option) \<Rightarrow> 'v ring_append_input list
     \<Rightarrow> 'v bounded_ring \<Rightarrow> 'v ring_entry list \<times> 'v bounded_ring" where
  "appendAll measured policy [] r = ([], r)"
| "appendAll measured policy (inp # inps) r =
     (let (res, r1) = appendRing measured policy inp r; (es, r2) = appendAll measured policy inps r1
      in (if appended res then resultEntry res # es else es, r2))"

definition extends :: "'v bounded_ring \<Rightarrow> 'v ring_entry list \<Rightarrow> 'v bounded_ring \<Rightarrow> bool" where
  "extends r new r' \<longleftrightarrow> ring_ok r' \<and> cursorPrefix r' = cursorPrefix r
     \<and> nextCursor r' = nextCursor r + length new
     \<and> map entryCursor new = map (formatCursor r) [nextCursor r ..< nextCursor r']
     \<and> (\<exists>k. ringEntries r' = drop k (ringEntries r @ new))"

lemma extends_append:
  assumes "ring_ok r"
  shows "extends r (if appended (fst (appendRing measured policy inp r))
      then [resultEntry (fst (appendRing measured policy inp r))] else []) (snd (appendRing measured policy inp r))"
proof (cases "ringIdentities r (inputIdentity inp)")
  case (Some a)
  then show ?thesis using assms append_duplicate [of r inp measured policy]
    by (auto simp: extends_def intro!: exI [of _ 0])
next
  case None
  let ?e = "new_entry measured inp r"
  note a = append_new [OF assms None, of measured policy]
  have "cursorPrefix (with_entry ?e r) = cursorPrefix r" "nextCursor (with_entry ?e r) = nextCursor r + 1"
    "entryCursor ?e = formatCursor r (nextCursor r)"
    by (simp_all add: with_entry_def new_entry_def)
  then show ?thesis using a by (auto simp: extends_def same_ring_def)
qed

lemma extends_trans:
  assumes "extends r es r1" "extends r1 fs r2"
  shows "extends r (es @ fs) r2"
proof -
  have f: "formatCursor r1 = formatCursor r"
    using assms(1) by (auto simp: extends_def formatCursor_def)
  obtain k where k: "ringEntries r1 = drop k (ringEntries r @ es)" using assms(1) by (auto simp: extends_def)
  obtain j where j: "ringEntries r2 = drop j (ringEntries r1 @ fs)" using assms(2) by (auto simp: extends_def)
  have "\<exists>m. ringEntries r2 = drop m (ringEntries r @ es @ fs)"
  proof (cases "k \<le> length (ringEntries r @ es)")
    case True
    then have "drop k (ringEntries r @ es) @ fs = drop k ((ringEntries r @ es) @ fs)"
      unfolding drop_append [of k "ringEntries r @ es" fs] by simp
    then have a: "drop k (ringEntries r @ es) @ fs = drop k (ringEntries r @ es @ fs)"
      unfolding append_assoc .
    have "ringEntries r2 = drop (j + k) (ringEntries r @ es @ fs)"
      unfolding j k a drop_drop ..
    then show ?thesis by blast
  next
    case False
    then have "ringEntries r2 = drop (length (ringEntries r @ es) + j) (ringEntries r @ es @ fs)"
      unfolding j k by simp
    then show ?thesis by blast
  qed
  moreover have n: "nextCursor r1 = nextCursor r + length es" "nextCursor r2 = nextCursor r1 + length fs"
    using assms unfolding extends_def by blast+
  moreover have "[nextCursor r ..< nextCursor r2] = [nextCursor r ..< nextCursor r1] @ [nextCursor r1 ..< nextCursor r2]"
    unfolding n(2) by (rule upt_add_eq_append) (simp add: n(1))
  moreover have "map entryCursor es = map (formatCursor r) [nextCursor r ..< nextCursor r1]"
    using assms(1) unfolding extends_def by blast
  moreover have "map entryCursor fs = map (formatCursor r) [nextCursor r1 ..< nextCursor r2]" "ring_ok r2"
    using assms(2) unfolding extends_def f by blast+
  moreover have "cursorPrefix r2 = cursorPrefix r"
    using assms unfolding extends_def by (elim conjE) (rule trans)
  ultimately show ?thesis unfolding extends_def by (intro conjI) simp_all
qed

lemma appendAll_extends:
  "ring_ok r \<Longrightarrow> extends r (fst (appendAll measured policy inps r)) (snd (appendAll measured policy inps r))"
proof (induction inps arbitrary: r)
  case Nil
  then show ?case by (auto simp: extends_def intro!: exI [of _ 0])
next
  case (Cons inp inps)
  note e = extends_append [OF Cons.prems, of measured policy inp]
  have ok: "ring_ok (snd (appendRing measured policy inp r))" using e by (simp add: extends_def)
  show ?case using extends_trans [OF e Cons.IH [OF ok]]
    by (simp add: split_beta Let_def split: if_splits)
qed

section \<open>Replaying\<close>

lemma filter_after:
  assumes "map entryCursor es = map (formatCursor r) [a ..< b]"
  shows "filter (\<lambda>e. case parseCursor r (entryCursor e) of None \<Rightarrow> False | Some m \<Rightarrow> n < m) es
    = drop (Suc n - a) es"
  using assms
proof (induction es arbitrary: a)
  case (Cons e es)
  then have "a < b" by (metis list.distinct(1) list.map_disc_iff upt_eq_Nil_conv not_less)
  with Cons.prems have "entryCursor e = formatCursor r a" "map entryCursor es = map (formatCursor r) [Suc a ..< b]"
    by (simp_all add: upt_conv_Cons)
  with Cons.IH [of "Suc a"] show ?case
    by (cases "n < a") (auto simp: Suc_diff_le not_less)
qed simp

lemma same_length_suffix:
  assumes "length (drop m (xs @ ys)) = length ys"
  shows "drop m (xs @ ys) = ys"
proof (cases "ys = []")
  case False
  then have "0 < length ys" by simp
  then have "m = length xs" using assms unfolding length_drop length_append by arith
  then show ?thesis by simp
qed (use assms in simp)

lemma replay_after:
  assumes "ring_ok r" and ext: "extends r new r'" and n: "Suc n = nextCursor r"
  shows "replay (Some (formatCursor r n)) r' =
    (if set new \<subseteq> set (ringEntries r') then (ReplayOk, new) else (ReplayEvicted, []))"
proof -
  have f: "formatCursor r' = formatCursor r" and p: "cursorPrefix r' = cursorPrefix r"
    and ok: "ring_ok r'" and next_cursor: "nextCursor r' = nextCursor r + length new"
    and cursors: "map entryCursor new = map (formatCursor r) [nextCursor r ..< nextCursor r']"
    using ext by (auto simp: extends_def formatCursor_def)
  let ?d = "droppedThrough r'"
  have es: "map entryCursor (ringEntries r') = map (formatCursor r) [Suc ?d ..< nextCursor r']"
    and d: "?d < nextCursor r'"
    using ok by (simp_all add: ring_ok_def f)
  have parse: "parseCursor r' (formatCursor r i) = Some i" for i
    by (rule parse_format) (simp add: p)
  have truthy: "truthy_opt (Some (formatCursor r n))"
    using decimal_digits(2) [of n] by (simp add: formatCursor_def truthy_opt_def truthy_def)
  have inj: "inj (formatCursor r)" by (rule injI) (metis parse option.inject)
  show ?thesis
  proof (cases "?d \<le> n")
    case True
    obtain k where k: "ringEntries r' = drop k (ringEntries r @ new)" using ext by (auto simp: extends_def)
    have len: "length (ringEntries r') = nextCursor r' - Suc ?d"
      using arg_cong [OF es, of length] by simp
    have "drop (n - ?d) (ringEntries r') = drop (n - ?d + k) (ringEntries r @ new)"
      by (simp only: k drop_drop)
    moreover have "length (drop (n - ?d) (ringEntries r')) = length new"
      using len True n next_cursor by simp
    ultimately have "drop (n - ?d) (ringEntries r') = new"
      by (metis same_length_suffix)
    then have new: "drop (Suc n - Suc ?d) (ringEntries r') = new" by simp
    then have "set new \<subseteq> set (ringEntries r')" by (metis set_drop_subset)
    then show ?thesis
      using True n next_cursor new truthy
      by (simp add: replay_def parse filter_after [OF es [folded f], unfolded f])
  next
    case False
    let ?i = "?d - nextCursor r"
    have i: "?i < length new" "nextCursor r + ?i = ?d" using False n d next_cursor by auto
    then have "entryCursor (new ! ?i) = formatCursor r ?d"
      using nth_map [of ?i new entryCursor] cursors by (simp add: next_cursor)
    moreover have "formatCursor r ?d \<notin> set (map entryCursor (ringEntries r'))"
      unfolding es using inj by (auto dest: injD)
    ultimately have "new ! ?i \<notin> set (ringEntries r')" by force
    then have "\<not> set new \<subseteq> set (ringEntries r')" using i(1) nth_mem by blast
    then show ?thesis
      using False n next_cursor truthy by (simp add: replay_def parse)
  qed
qed

section \<open>Cursor scopes\<close>

lemma prefix_scope:
  assumes "starts_with (createCursorPrefix uuid scope epoch) (createCursorPrefix uuid' scope' epoch' @ s)"
  shows "or_default scope ''ring'' = or_default scope' ''ring''"
    "or_default epoch uuid = or_default epoch' uuid'"
proof -
  let ?a = "encodeURIComponent (or_default scope ''ring'')" and ?b = "encodeURIComponent (or_default epoch uuid)"
  let ?a' = "encodeURIComponent (or_default scope' ''ring'')" and ?b' = "encodeURIComponent (or_default epoch' uuid')"
  obtain t where "?a' @ CHR '':'' # ?b' @ CHR '':'' # s = ?a @ CHR '':'' # ?b @ CHR '':'' # t"
    using assms by (auto simp: starts_with_iff createCursorPrefix_def)
  then have "?a' = ?a \<and> ?b' @ CHR '':'' # s = ?b @ CHR '':'' # t"
    by (simp only: first_mark_eq [OF encode_no_colon encode_no_colon])
  then have "?a' = ?a" "?b' = ?b"
    by (simp_all only: first_mark_eq [OF encode_no_colon encode_no_colon])
  then show "or_default scope ''ring'' = or_default scope' ''ring''"
    "or_default epoch uuid = or_default epoch' uuid'"
    using encode_inj by metis+
qed

section \<open>Properties\<close>

text \<open>A ring of one entry, and an append to it.\<close>

definition sample_ring :: "nat bounded_ring" where
  "sample_ring = newBoundedRing ''u'' \<lparr>optMaxItems = Some (Finite 1), optMaxBytes = None,
     optCursorScope = None, optCursorEpoch = Some ''e''\<rparr>"

abbreviation sample_append :: "string \<Rightarrow> nat bounded_ring \<Rightarrow> nat bounded_ring" where
  "sample_append k \<equiv> ring_step (\<lambda>v. Finite 1) (\<lambda>s. None)
     \<lparr>inputIdentity = k, inputValue = 7, inputByteSize = None\<rparr>"

lemmas ring_eval = sample_ring_def newBoundedRing_def ring_step_def appendRing_def formatCursor_def
  enforceRetention.simps evictionCount_def overBounds_def evictOne_def snapshot_def DEFAULT_MAX_BYTES_def Let_def

text \<open>A limit between 0 and 1 is accepted but leaves a ring that retains nothing.\<close>

lemma fractional_limit_is_zero: "positiveInteger (Some (Finite (1 / 2))) n = 0"
  by simp

text \<open>
  C29: whatever is appended, measured and evicted, a ring stays within its bounds, its byte count is
  that of its entries, and it holds each identity once, under the entry its index gives for it.
\<close>

theorem ring_bounded:
  "reached (newBoundedRing uuid opts) (\<lambda>r inp. True) (ring_step measured policy) r \<Longrightarrow>
   length (ringEntries r) \<le> maxItems r \<and> retainedBytes r \<le> int (maxBytes r)
   \<and> retainedBytes r = (\<Sum>e \<leftarrow> ringEntries r. int (entryByteSize e))
   \<and> distinct (map entryIdentity (ringEntries r))
   \<and> (\<forall>k e. ringIdentities r k = Some e \<longleftrightarrow> e \<in> set (ringEntries r) \<and> entryIdentity e = k)"
proof -
  assume "reached (newBoundedRing uuid opts) (\<lambda>r inp. True) (ring_step measured policy) r"
  then have inv: "ring_inv r" by (rule rings.reached_ok)
  then have d: "distinct (map entryIdentity (ringEntries r))" by (simp add: ring_inv_def ring_ok_def)
  then have "distinct (map fst (map (\<lambda>e. (entryIdentity e, e)) (ringEntries r)))"
    by (simp add: comp_def)
  then have "ringIdentities r k = Some e \<longleftrightarrow> e \<in> set (ringEntries r) \<and> entryIdentity e = k" for k e
    using inv by (auto simp: ring_inv_def ring_ok_def)
  with inv d show ?thesis by (auto simp: ring_inv_def ring_ok_def overBounds_def)
qed

lemma ring_bounded_witness:
  "length (ringEntries (sample_append ''b'' (sample_append ''a'' sample_ring))) \<le> 1"
proof -
  have "reached sample_ring (\<lambda>r inp. True) (ring_step (\<lambda>v. Finite 1) (\<lambda>s. None))
      (sample_append ''b'' (sample_append ''a'' sample_ring))"
    by (intro reached.event reached.start) simp_all
  from ring_bounded [OF this [unfolded sample_ring_def]]
  show ?thesis by (simp add: ring_eval)
qed

text \<open>
  C30: replaying after the latest cursor a client has seen gives exactly the entries appended since
  then, in order, or reports the eviction of one of them: no event is skipped or repeated silently.
\<close>

theorem ring_replay:
  "reached (newBoundedRing uuid opts) (\<lambda>r inp. True) (ring_step measured policy) r \<Longrightarrow>
   appendAll measured policy inps r = (new, r') \<Longrightarrow>
   replay (Some (latestCursor r)) r'
     = (if set new \<subseteq> set (ringEntries r') then (ReplayOk, new) else (ReplayEvicted, []))"
proof -
  assume "reached (newBoundedRing uuid opts) (\<lambda>r inp. True) (ring_step measured policy) r"
    and a: "appendAll measured policy inps r = (new, r')"
  then have ok: "ring_ok r" using rings.reached_ok [of uuid opts measured policy r] by (simp add: ring_inv_def)
  then have "Suc (nextCursor r - 1) = nextCursor r" by (auto simp: ring_ok_def)
  then show ?thesis
    unfolding latestCursor_def using appendAll_extends [OF ok, of measured policy inps] a
    by (intro replay_after [OF ok]) simp_all
qed

lemma ring_replay_witness:
  "fst (replay (Some (latestCursor sample_ring)) (sample_append ''a'' sample_ring)) = ReplayOk"
proof -
  let ?inps = "[\<lparr>inputIdentity = ''a'', inputValue = 7, inputByteSize = None\<rparr>]"
  have "reached sample_ring (\<lambda>r inp. True) (ring_step (\<lambda>v. Finite 1) (\<lambda>s. None)) sample_ring"
    by (rule reached.start)
  moreover have "appendAll (\<lambda>v. Finite 1) (\<lambda>s. None) ?inps sample_ring
      = (ringEntries (sample_append ''a'' sample_ring), sample_append ''a'' sample_ring)"
    by (simp add: ring_eval)
  ultimately show ?thesis
    using ring_replay [of "''u''" _ "\<lambda>v. Finite 1" "\<lambda>s. None" sample_ring ?inps, folded sample_ring_def]
    by (simp add: sample_ring_def)
qed

text \<open>
  A cursor is valid only in the ring of the scope and epoch that issued it.
\<close>

theorem ring_foreign_cursor:
  "cursorPrefix r = createCursorPrefix uuid scope epoch \<Longrightarrow>
   or_default scope ''ring'' \<noteq> or_default scope' ''ring'' \<or> or_default epoch uuid \<noteq> or_default epoch' uuid' \<Longrightarrow>
   replay (Some (createCursorPrefix uuid' scope' epoch' @ decimal n)) r = (ReplayInvalidCursor, [])"
  using prefix_scope [of uuid scope epoch uuid' scope' epoch' "decimal n"] decimal_digits(2) [of n]
  by (auto simp: replay_def parseCursor_def truthy_opt_def truthy_def)

lemma ring_foreign_cursor_witness:
  "replay (Some (createCursorPrefix ''u'' (Some ''other'') (Some ''e'') @ decimal 0)) sample_ring
     = (ReplayInvalidCursor, [])"
  by (rule ring_foreign_cursor [where uuid = "''u''" and scope = None and epoch = "Some ''e''"])
    (simp_all add: sample_ring_def newBoundedRing_def)

end
