(* ===== verification/BusyQueue.thy ===== *)
theory BusyQueue
  imports Prelude "HOL-Library.Multiset"
begin

text \<open>
  The queue of cron messages for busy sessions (\<open>busy-queue.ts\<close> of the \<open>cron\<close> module).  The queue is the JavaScript map, in insertion order; an entry is known by the
  number of the promise \<open>enqueue\<close> returned, and what its promise was resolved with is logged.  The
  sends of a drain, which are awaited one after the other, are events of their own, so other calls
  may come between them.
\<close>

section \<open>State\<close>

definition TTL_MS :: int where
  "TTL_MS = 30 * 60 * 1000"

datatype drain_result = Sent | Expired | Removed | Replaced | Failed

record queued_entry =
  entryPromise :: nat
  enqueuedAt :: int
  agentName :: string
  cronName :: string
  sessionId :: string

record busy_queue =
  queue :: "(string \<times> queued_entry) list"
  drains :: "queued_entry list list"
  resolutions :: "(nat \<times> drain_result) list"
  promiseCount :: nat

definition newBusyQueue :: busy_queue where
  "newBusyQueue = \<lparr>queue = [], drains = [], resolutions = [], promiseCount = 0\<rparr>"

definition key :: "string \<Rightarrow> string \<Rightarrow> string \<Rightarrow> string" where
  "key session agent cron = session @ '':'' @ agent @ '':'' @ cron"

definition resolveDrain :: "queued_entry \<Rightarrow> drain_result \<Rightarrow> busy_queue \<Rightarrow> busy_queue" where
  "resolveDrain entry result q = q\<lparr>resolutions := resolutions q @ [(entryPromise entry, result)]\<rparr>"

section \<open>Operations\<close>

text \<open>
  \<open>enqueue\<close> takes three or four arguments; the argument values tell which form was called.  A missing
  send function or a cron name that is not a string resolves at once and leaves the queue alone.
\<close>

datatype enqueue_arg = StringArg string | SendFn | NoArg

definition enqueueEntry :: "int \<Rightarrow> string \<Rightarrow> string \<Rightarrow> string \<Rightarrow> busy_queue \<Rightarrow> busy_queue" where
  "enqueueEntry now session agent cron q =
     (let k = key session agent cron;
          q1 = (case map_of (queue q) k of None \<Rightarrow> q | Some old \<Rightarrow> resolveDrain old Replaced q)
      in q1\<lparr>queue := AList.update k \<lparr>entryPromise = promiseCount q, enqueuedAt = now, agentName = agent,
                cronName = cron, sessionId = session\<rparr> (queue q1),
            promiseCount := promiseCount q + 1\<rparr>)"

definition enqueue ::
    "int \<Rightarrow> string \<Rightarrow> string \<Rightarrow> enqueue_arg \<Rightarrow> enqueue_arg \<Rightarrow> busy_queue \<Rightarrow> busy_queue" where
  "enqueue now session agentNameOrCronName cronNameOrSendFn maybeSendFn q =
     (let legacySignature = (cronNameOrSendFn = SendFn);
          agent = (if legacySignature then '''' else agentNameOrCronName);
          cron = (if legacySignature then StringArg agentNameOrCronName else cronNameOrSendFn);
          sendFn = (if legacySignature then cronNameOrSendFn else maybeSendFn)
      in (case (cron, sendFn) of
           (StringArg c, SendFn) \<Rightarrow> enqueueEntry now session agent c q
         | _ \<Rightarrow> q\<lparr>resolutions := resolutions q @ [(promiseCount q, Removed)], promiseCount := promiseCount q + 1\<rparr>))"

text \<open>Taking out the entries that satisfy \<open>P\<close>, in insertion order.\<close>

definition removeCron :: "string \<Rightarrow> string \<Rightarrow> busy_queue \<Rightarrow> nat \<times> busy_queue" where
  "removeCron agent cron q =
     (let hit = (\<lambda>(k, e). agentName e = agent \<and> cronName e = cron)
      in (length (filter hit (queue q)),
          q\<lparr>queue := filter (\<lambda>x. \<not> hit x) (queue q),
            resolutions := resolutions q @ map (\<lambda>(k, e). (entryPromise e, Removed)) (filter hit (queue q))\<rparr>))"

text \<open>The synchronous part of \<open>drain\<close>: what is not expired is left to be sent, one by one.\<close>

definition drainSelect :: "int \<Rightarrow> string \<Rightarrow> busy_queue \<Rightarrow> busy_queue" where
  "drainSelect now session q =
     (let mine = filter (\<lambda>(k, e). sessionId e = session) (queue q);
          fresh = (\<lambda>e. now - enqueuedAt e < TTL_MS)
      in q\<lparr>queue := filter (\<lambda>(k, e). k \<notin> set (map fst mine)) (queue q),
           drains := drains q @ [filter fresh (map snd mine)],
           resolutions := resolutions q
             @ map (\<lambda>e. (entryPromise e, Expired)) (filter (\<lambda>e. \<not> fresh e) (map snd mine))\<rparr>)"

text \<open>The current send of the drain \<open>d\<close> has ended, by returning or by throwing.\<close>

definition sendDone :: "nat \<Rightarrow> bool \<Rightarrow> busy_queue \<Rightarrow> busy_queue" where
  "sendDone d ok q =
     (resolveDrain (hd (drains q ! d)) (if ok then Sent else Failed) q)
       \<lparr>drains := (drains q)[d := tl (drains q ! d)]\<rparr>"

definition size :: "busy_queue \<Rightarrow> nat" where
  "size q = length (queue q)"

definition getQueuedCount :: "string \<Rightarrow> busy_queue \<Rightarrow> nat" where
  "getQueuedCount session q = length (filter (\<lambda>(k, e). sessionId e = session) (queue q))"

section \<open>Events\<close>

datatype busy_event = Enqueue int string string enqueue_arg enqueue_arg | RemoveCron string string
  | Drain int string | SendDone nat bool

primrec busy_step :: "busy_event \<Rightarrow> busy_queue \<Rightarrow> busy_queue" where
  "busy_step (Enqueue now session a b c) q = enqueue now session a b c q"
| "busy_step (RemoveCron agent cron) q = snd (removeCron agent cron q)"
| "busy_step (Drain now session) q = drainSelect now session q"
| "busy_step (SendDone d ok) q = sendDone d ok q"

primrec send_pending :: "busy_queue \<Rightarrow> busy_event \<Rightarrow> bool" where
  "send_pending q (Enqueue now session a b c) = True"
| "send_pending q (RemoveCron agent cron) = True"
| "send_pending q (Drain now session) = True"
| "send_pending q (SendDone d ok) = (d < length (drains q) \<and> drains q ! d \<noteq> [])"

abbreviation busy_reach :: "busy_queue \<Rightarrow> bool" where
  "busy_reach q \<equiv> reached newBusyQueue send_pending busy_step q"

section \<open>Invariant\<close>

text \<open>The promises handed out, each in one place: queued, being drained, or resolved.\<close>

definition promises :: "busy_queue \<Rightarrow> nat multiset" where
  "promises q = mset (map (entryPromise \<circ> snd) (queue q)) + mset (map entryPromise (concat (drains q)))
     + mset (map fst (resolutions q))"

definition keyed :: "(string \<times> queued_entry) list \<Rightarrow> bool" where
  "keyed xs \<longleftrightarrow> distinct (map fst xs)
     \<and> (\<forall>k e. map_of xs k = Some e \<longrightarrow> k = key (sessionId e) (agentName e) (cronName e))"

definition busy_ok :: "busy_queue \<Rightarrow> bool" where
  "busy_ok q \<longleftrightarrow> promises q = mset [0 ..< promiseCount q] \<and> keyed (queue q)"

lemma keyed_filter: "keyed xs \<Longrightarrow> keyed (filter P xs)"
  by (auto simp: keyed_def distinct_map_filter)

lemma keyed_update:
  "keyed xs \<Longrightarrow> k = key (sessionId e) (agentName e) (cronName e) \<Longrightarrow> keyed (AList.update k e xs)"
  unfolding keyed_def by (auto simp: distinct_update omap.lookup_store split: if_splits)

lemma mset_update:
  "distinct (map fst xs) \<Longrightarrow>
   mset (map f (AList.update k v xs)) + (case map_of xs k of None \<Rightarrow> {#} | Some w \<Rightarrow> {#f (k, w)#})
     = add_mset (f (k, v)) (mset (map f xs))"
  by (induction xs) (auto simp: map_of_eq_None_iff [symmetric] split: option.split)

lemma filter_mine:
  assumes "distinct (map fst xs)"
  shows "filter (\<lambda>(k, e). k \<notin> set (map fst (filter P xs))) xs = filter (\<lambda>x. \<not> P x) xs"
proof (rule filter_cong [OF refl])
  fix x assume x: "x \<in> set xs"
  obtain k e where ke: "x = (k, e)" by fastforce
  have "e' = e" if "(k, e') \<in> set xs" for e'
    using assms that x [unfolded ke] by (rule eq_key_imp_eq_value)
  then have "P (k, e)" if "(k, e') \<in> set xs" "P (k, e')" for e'
    using that by metis
  moreover have "(k, e) \<in> set xs" using x ke by simp
  ultimately have "k \<in> set (map fst (filter P xs)) \<longleftrightarrow> P (k, e)"
    by (auto simp: image_iff)
  then show "(case x of (k, e) \<Rightarrow> k \<notin> set (map fst (filter P xs))) \<longleftrightarrow> \<not> P x"
    by (simp add: ke)
qed

lemma mset_parts: "mset (map f (filter P xs)) + mset (map f (filter (\<lambda>x. \<not> P x) xs)) = mset (map f xs)"
  by (induction xs) auto

lemma mset_concat_update:
  "d < length xss \<Longrightarrow> xss ! d = x # xs \<Longrightarrow>
   add_mset (f x) (mset (map f (concat (xss[d := xs])))) = mset (map f (concat xss))"
  by (induction xss arbitrary: d) (auto simp: nth_Cons split: nat.splits)

section \<open>Preservation\<close>

lemma keyed_map_of: "keyed xs \<Longrightarrow> (k, e) \<in> set xs \<longleftrightarrow> map_of xs k = Some e"
  by (simp add: keyed_def)

lemma enqueueEntry_ok: "busy_ok q \<Longrightarrow> busy_ok (enqueueEntry now s a c q)"
proof -
  assume ok: "busy_ok q"
  let ?k = "key s a c"
  let ?e = "\<lparr>entryPromise = promiseCount q, enqueuedAt = now, agentName = a, cronName = c, sessionId = s\<rparr>"
  let ?q = "enqueueEntry now s a c q"
  have d: "distinct (map fst (queue q))" and k: "keyed (queue q)"
    using ok by (simp_all add: busy_ok_def keyed_def)
  have "promises ?q = add_mset (promiseCount q) (promises q)"
    using mset_update [OF d, of "entryPromise \<circ> snd" ?k ?e]
    by (cases "map_of (queue q) ?k")
      (simp_all add: promises_def enqueueEntry_def resolveDrain_def Let_def)
  moreover have "queue ?q = AList.update ?k ?e (queue q)" "promiseCount ?q = promiseCount q + 1"
    by (auto simp: enqueueEntry_def resolveDrain_def Let_def split: option.split)
  ultimately show ?thesis
    using ok k by (simp add: busy_ok_def keyed_update)
qed

lemma enqueue_cases:
  obtains (queued) a' c' where "enqueue now s a b f q = enqueueEntry now s a' c' q"
  | (refused) "enqueue now s a b f q
      = q\<lparr>resolutions := resolutions q @ [(promiseCount q, Removed)], promiseCount := promiseCount q + 1\<rparr>"
  by (cases b; cases f) (auto simp: enqueue_def Let_def)

lemma enqueue_ok: "busy_ok q \<Longrightarrow> busy_ok (enqueue now s a b f q)"
  by (cases rule: enqueue_cases [of now s a b f q])
    (simp_all add: enqueueEntry_ok, simp add: busy_ok_def promises_def)

lemma removeCron_ok: "busy_ok q \<Longrightarrow> busy_ok (snd (removeCron a c q))"
  using mset_parts [of "entryPromise \<circ> snd" "\<lambda>(k, e). agentName e = a \<and> cronName e = c" "queue q"]
  by (simp add: busy_ok_def removeCron_def promises_def keyed_filter Let_def case_prod_unfold comp_def
      ac_simps)

lemma drainSelect_ok:
  assumes "busy_ok q"
  shows "busy_ok (drainSelect now s q)"
proof -
  let ?mine = "\<lambda>x. sessionId (snd x) = s" and ?fresh = "\<lambda>e. now - enqueuedAt e < TTL_MS"
  have d: "distinct (map fst (queue q))"
    using assms by (simp add: busy_ok_def keyed_def)
  have queue: "queue (drainSelect now s q) = filter (\<lambda>x. \<not> ?mine x) (queue q)"
    using filter_mine [OF d, of ?mine]
    by (simp add: drainSelect_def Let_def case_prod_unfold)
  have "promises (drainSelect now s q) = promises q"
    using mset_parts [of "entryPromise \<circ> snd" ?mine "queue q"]
      mset_parts [of entryPromise ?fresh "map snd (filter ?mine (queue q))"]
    unfolding promises_def queue
    by (simp add: drainSelect_def Let_def case_prod_unfold comp_def ac_simps)
  then show ?thesis
    using assms by (simp add: busy_ok_def queue keyed_filter) (simp add: drainSelect_def Let_def)
qed

lemma sendDone_ok:
  assumes "busy_ok q" "d < length (drains q)" "drains q ! d \<noteq> []"
  shows "busy_ok (sendDone d ok q)"
proof -
  obtain x xs where x: "drains q ! d = x # xs" using assms(3) by (cases "drains q ! d") auto
  have "promises (sendDone d ok q) = promises q"
    using mset_concat_update [OF assms(2) x, of entryPromise]
    by (simp add: promises_def sendDone_def resolveDrain_def x)
  then show ?thesis
    using assms(1) by (simp add: busy_ok_def) (simp add: sendDone_def resolveDrain_def)
qed

interpretation busy: event_system newBusyQueue send_pending busy_step busy_ok
proof
  show "busy_ok newBusyQueue"
    by (simp add: busy_ok_def newBusyQueue_def promises_def keyed_def)
  show "busy_ok (busy_step e q)" if "busy_ok q" "send_pending q e" for q e
    using that by (cases e) (simp_all add: enqueue_ok removeCron_ok drainSelect_ok sendDone_ok)
qed

section \<open>Keys\<close>

definition no_colon :: "string \<Rightarrow> bool" where
  "no_colon s \<longleftrightarrow> CHR '':'' \<notin> set s"

lemma key_inj:
  assumes "key s a c = key s' a' c'" "no_colon s" "no_colon a" "no_colon s'" "no_colon a'"
  shows "s = s' \<and> a = a' \<and> c = c'"
  using assms by (simp add: key_def no_colon_def first_mark_eq)

definition entry_of :: "string \<Rightarrow> string \<Rightarrow> string \<Rightarrow> queued_entry \<Rightarrow> bool" where
  "entry_of s a c e \<longleftrightarrow> sessionId e = s \<and> agentName e = a \<and> cronName e = c"

definition entries :: "busy_queue \<Rightarrow> queued_entry set" where
  "entries q = snd ` set (queue q)"

lemma entries_iff:
  assumes "busy_ok q"
  shows "e \<in> entries q \<longleftrightarrow>
    map_of (queue q) (key (sessionId e) (agentName e) (cronName e)) = Some e"
proof -
  from assms have d: "distinct (map fst (queue q))"
    and k: "map_of (queue q) k = Some e \<Longrightarrow> k = key (sessionId e) (agentName e) (cronName e)" for k
    by (simp_all add: busy_ok_def keyed_def)
  have "e \<in> entries q \<longleftrightarrow> (\<exists>k. (k, e) \<in> set (queue q))"
    by (force simp: entries_def)
  also have "\<dots> \<longleftrightarrow> (\<exists>k. map_of (queue q) k = Some e)"
    using d by simp
  also have "\<dots> \<longleftrightarrow> map_of (queue q) (key (sessionId e) (agentName e) (cronName e)) = Some e"
    using k by metis
  finally show ?thesis .
qed

section \<open>Properties\<close>

text \<open>
  C32: no message is lost or answered twice: every promise \<open>enqueue\<close> has returned belongs to exactly
  one queued entry, one entry being drained, or one resolution.
\<close>

theorem busy_promises:
  "busy_reach q \<Longrightarrow> count (promises q) p = (if p < promiseCount q then 1 else 0)"
proof -
  assume "busy_reach q"
  then have "busy_ok q" by (rule busy.reached_ok)
  then have "promises q = mset [0 ..< promiseCount q]" by (simp add: busy_ok_def)
  moreover have "count (mset [0 ..< n]) p = (if p < n then 1 else 0)" for n
    by (induction n) auto
  ultimately show ?thesis by simp
qed

text \<open>
  The latest message of a cron task for a session replaces the one before and no other: where
  session and agent names have no colon, the queue after \<open>enqueue\<close> holds the new entry for its
  session, agent and task, and every entry that is for another one.
\<close>

theorem busy_latest_wins:
  "busy_reach q \<Longrightarrow> no_colon s \<Longrightarrow> no_colon a \<Longrightarrow>
   \<forall>e \<in> entries q. no_colon (sessionId e) \<and> no_colon (agentName e) \<Longrightarrow>
   entries (enqueueEntry now s a c q)
     = insert \<lparr>entryPromise = promiseCount q, enqueuedAt = now, agentName = a, cronName = c, sessionId = s\<rparr>
         {e \<in> entries q. \<not> entry_of s a c e}"
proof -
  assume reach: "busy_reach q" and n: "no_colon s" "no_colon a"
    "\<forall>e \<in> entries q. no_colon (sessionId e) \<and> no_colon (agentName e)"
  let ?e = "\<lparr>entryPromise = promiseCount q, enqueuedAt = now, agentName = a, cronName = c, sessionId = s\<rparr>"
  from reach have ok: "busy_ok q" by (rule busy.reached_ok)
  have queue: "queue (enqueueEntry now s a c q) = AList.update (key s a c) ?e (queue q)"
    by (auto simp: enqueueEntry_def resolveDrain_def Let_def split: option.split)
  have "e \<in> entries (enqueueEntry now s a c q) \<longleftrightarrow> e = ?e \<or> e \<in> entries q \<and> \<not> entry_of s a c e" for e
  proof (cases "key (sessionId e) (agentName e) (cronName e) = key s a c")
    case True
    have "entry_of s a c e" if "e \<in> entries q"
      using key_inj [OF True] n that by (auto simp: entry_of_def)
    then show ?thesis
      unfolding entries_iff [OF enqueueEntry_ok [OF ok]] queue omap.lookup_store True by auto
  next
    case False
    then have "\<not> entry_of s a c e" "e \<noteq> ?e" by (auto simp: entry_of_def)
    then show ?thesis using False
      unfolding entries_iff [OF enqueueEntry_ok [OF ok]] entries_iff [OF ok] queue omap.lookup_store by simp
  qed
  then show ?thesis by blast
qed

definition sample_queue :: busy_queue where
  "sample_queue = enqueue 0 ''s'' ''c'' SendFn NoArg newBusyQueue"

lemma sample_queue_reach: "busy_reach sample_queue"
  using reached.event [OF reached.start, of send_pending newBusyQueue "Enqueue 0 ''s'' ''c'' SendFn NoArg" busy_step]
  by (simp add: sample_queue_def)

lemma sample_queue_entries:
  "queue sample_queue = [(''s::c'', \<lparr>entryPromise = 0, enqueuedAt = 0, agentName = [], cronName = ''c'',
     sessionId = ''s''\<rparr>)]"
  "promiseCount sample_queue = 1"
  by (simp_all add: sample_queue_def enqueue_def enqueueEntry_def newBusyQueue_def key_def Let_def)

lemma busy_promises_witness: "count (promises sample_queue) 0 = 1"
  using busy_promises [OF sample_queue_reach, of 0] by (simp add: sample_queue_entries)

lemma busy_latest_wins_witness:
  "entries (enqueueEntry 5 ''s'' [] ''c'' sample_queue)
     = {\<lparr>entryPromise = 1, enqueuedAt = 5, agentName = [], cronName = ''c'', sessionId = ''s''\<rparr>}"
  using busy_latest_wins [OF sample_queue_reach, of "''s''" "[]" 5 "''c''"]
  by (simp add: entries_def sample_queue_entries no_colon_def entry_of_def Collect_conv_if)

text \<open>With a colon in a name, tasks of different sessions and agents share a key.\<close>

lemma colon_collision:
  "length (queue (enqueueEntry 1 ''a'' ''b:c'' ''d'' (enqueueEntry 0 ''a:b'' ''c'' ''d'' newBusyQueue))) = 1"
  by (simp add: enqueueEntry_def newBusyQueue_def key_def Let_def resolveDrain_def)

end
