(* ===== verification/TurnFence.thy ===== *)
theory TurnFence
  imports Prelude
begin

text \<open>
  The fence that gives queued work priority over new turns (\<open>turn-priority-fence.ts\<close> of
  \<open>local-runtime-v2\<close>, with the types of \<open>contracts.ts\<close> and the two tables of \<open>schema/queue.ts\<close>).  The
  tables are the state: the rows of the queue, of which the fence reads the columns below, and the
  pauses, keyed by session.  A comparison with NULL is not true.
\<close>

section \<open>Tables and priorities\<close>

datatype queue_status = Queued | Claimed | OtherStatus

record queue_row =
  rowId :: nat
  rowSession :: string
  rowItem :: string
  rowStatus :: queue_status
  rowCreatedAtMs :: int
  rowExpiresAtMs :: "int option"
  rowClaimId :: "string option"

datatype queue_pause_cause = UserStop | TurnFinalFailure

record queue_pause =
  pauseCause :: queue_pause_cause
  triggerTurnId :: string
  pausedAtMs :: int

record fence_db =
  queueItems :: "queue_row list"
  queuePauses :: "string \<Rightarrow> queue_pause option"

datatype turn_priority =
    Fifo int "string option" "string list option"
  | ContinuedQueueHead string "string list option"
  | SelectedQueueItem string
  | RetryContinuation
  | PausedQueueSend
  | UserInputResume
  | TurnContinuation

datatype queue_fact = ExecutionStateChanged string bool

section \<open>Admission\<close>

fun bypassesQueuePause :: "turn_priority \<Rightarrow> bool" where
  "bypassesQueuePause (Fifo created claim yielded) = False"
| "bypassesQueuePause _ = True"

fun bypassesQueueOrder :: "turn_priority \<Rightarrow> bool" where
  "bypassesQueueOrder RetryContinuation = True"
| "bypassesQueueOrder TurnContinuation = True"
| "bypassesQueueOrder PausedQueueSend = True"
| "bypassesQueueOrder UserInputResume = True"
| "bypassesQueueOrder _ = False"

fun queueClaimId :: "turn_priority \<Rightarrow> string option" where
  "queueClaimId (Fifo created claim yielded) = claim"
| "queueClaimId (ContinuedQueueHead claim yielded) = Some claim"
| "queueClaimId (SelectedQueueItem claim) = Some claim"
| "queueClaimId _ = None"

fun yieldedQueueItemIds :: "turn_priority \<Rightarrow> string list" where
  "yieldedQueueItemIds (Fifo created claim yielded) = or_default yielded []"
| "yieldedQueueItemIds (ContinuedQueueHead claim yielded) = or_default yielded []"
| "yieldedQueueItemIds _ = []"

text \<open>The rows of a session that wait or run: status \<open>queued\<close> or \<open>claimed\<close>.\<close>

definition liveRows :: "fence_db \<Rightarrow> string \<Rightarrow> queue_row list" where
  "liveRows db sid = filter (\<lambda>r. rowSession r = sid \<and> rowStatus r \<in> {Queued, Claimed}) (queueItems db)"

definition firstClaimedId :: "fence_db \<Rightarrow> string \<Rightarrow> string \<Rightarrow> nat option" where
  "firstClaimedId db sid claim =
     (let ids = map rowId (filter (\<lambda>r. rowSession r = sid \<and> rowClaimId r = Some claim \<and> rowStatus r = Claimed)
            (queueItems db))
      in if ids = [] then None else Some (Min (set ids)))"

definition claimedQueueItemBlocks :: "fence_db \<Rightarrow> string \<Rightarrow> turn_priority \<Rightarrow> string \<Rightarrow> bool" where
  "claimedQueueItemBlocks db sid priority claim =
     (case firstClaimedId db sid claim of
        None \<Rightarrow> True
      | Some firstId \<Rightarrow>
          (case priority of
             SelectedQueueItem c \<Rightarrow> False
           | _ \<Rightarrow> list_ex (\<lambda>r. rowId r < firstId \<and> rowItem r \<notin> set (yieldedQueueItemIds priority))
                   (liveRows db sid)))"

definition blocksQueueCandidate :: "fence_db \<Rightarrow> string \<Rightarrow> turn_priority \<Rightarrow> bool" where
  "blocksQueueCandidate db sid priority =
     (if queuePauses db sid \<noteq> None \<and> \<not> bypassesQueuePause priority then True
      else if bypassesQueueOrder priority then False
      else if truthy_opt (queueClaimId priority)
        then claimedQueueItemBlocks db sid priority (the (queueClaimId priority))
      else (case priority of
          Fifo created claim yielded \<Rightarrow> list_ex (\<lambda>r. rowCreatedAtMs r \<le> created) (liveRows db sid)
        | _ \<Rightarrow> True))"

section \<open>Pauses\<close>

text \<open>Work of the session that has not expired at a time; claimed work does not expire.\<close>

definition pendingAt :: "fence_db \<Rightarrow> string \<Rightarrow> int \<Rightarrow> queue_row list" where
  "pendingAt db sid time =
     filter (\<lambda>r. rowStatus r = Claimed \<or> rowExpiresAtMs r = None
               \<or> (\<exists>e. rowExpiresAtMs r = Some e \<and> time < e)) (liveRows db sid)"

definition acceptedInTransaction ::
    "fence_db \<Rightarrow> string \<Rightarrow> bool \<Rightarrow> (queue_pause option \<times> queue_fact list) \<times> fence_db" where
  "acceptedInTransaction db sid consumeQueuePause =
     (if \<not> consumeQueuePause then ((None, []), db)
      else (case queuePauses db sid of
          None \<Rightarrow> ((None, []), db)
        | Some row \<Rightarrow> ((Some row, [ExecutionStateChanged sid False]),
            db\<lparr>queuePauses := (queuePauses db)(sid := None)\<rparr>)))"

definition settledInTransaction ::
    "fence_db \<Rightarrow> string \<Rightarrow> string \<Rightarrow> queue_pause_cause option \<Rightarrow> int \<Rightarrow> queue_fact list \<times> fence_db" where
  "settledInTransaction db sid turn cause time =
     (case cause of
        None \<Rightarrow> ([], db)
      | Some c \<Rightarrow>
          if length (pendingAt db sid time) = 0 then ([], db)
          else ([ExecutionStateChanged sid True],
            db\<lparr>queuePauses := (queuePauses db)(sid :=
              Some \<lparr>pauseCause = c, triggerTurnId = turn, pausedAtMs = time\<rparr>)\<rparr>))"

definition revokedInTransaction ::
    "fence_db \<Rightarrow> string \<Rightarrow> queue_pause option \<Rightarrow> int \<Rightarrow> queue_fact list \<times> fence_db" where
  "revokedInTransaction db sid revokeToken restoredAtMs =
     (case revokeToken of
        None \<Rightarrow> ([], db)
      | Some pause \<Rightarrow>
          if pendingAt db sid restoredAtMs = [] then ([], db)
          else if queuePauses db sid = None
            then ([ExecutionStateChanged sid True],
              db\<lparr>queuePauses := (queuePauses db)(sid := Some pause)\<rparr>)
          else ([], db))"

section \<open>The pause ledger\<close>

text \<open>
  What turn admission relies on: a pause can be taken once, and putting it back never overwrites a
  newer one.
\<close>

locale pause_ledger =
  fixes pause_of :: "'db \<Rightarrow> 'k \<Rightarrow> 'p option"
    and take_pause :: "'k \<Rightarrow> 'db \<Rightarrow> 'p option \<times> 'db"
    and put_back :: "'k \<Rightarrow> 'p option \<Rightarrow> 'db \<Rightarrow> 'db"
    and wanted :: "'db \<Rightarrow> 'k \<Rightarrow> bool"
  assumes take_token: "fst (take_pause k db) = pause_of db k"
    and take_clears: "pause_of (snd (take_pause k db)) k' = (if k' = k then None else pause_of db k')"
    and take_wanted: "wanted (snd (take_pause k db)) k' = wanted db k'"
    and put_result: "pause_of (put_back k p db) k' =
      (if k' = k \<and> pause_of db k = None \<and> wanted db k then p else pause_of db k')"
begin

lemma take_twice: "fst (take_pause k (snd (take_pause k db))) = None"
  by (simp add: take_token take_clears)

lemma take_put: "wanted db k \<Longrightarrow> pause_of (put_back k (fst (take_pause k db)) (snd (take_pause k db))) = pause_of db"
  by (auto simp: put_result take_clears take_wanted take_token)

lemma put_keeps: "pause_of db k \<noteq> None \<Longrightarrow> pause_of (put_back k p db) = pause_of db"
  by (auto simp: put_result)

end

lemma pendingAt_pauses [simp]: "pendingAt (db\<lparr>queuePauses := f\<rparr>) sid time = pendingAt db sid time"
  by (simp add: pendingAt_def liveRows_def)

interpretation ledger: pause_ledger queuePauses
  "\<lambda>sid db. (fst (fst (acceptedInTransaction db sid True)), snd (acceptedInTransaction db sid True))"
  "\<lambda>sid token db. snd (revokedInTransaction db sid token time)"
  "\<lambda>db sid. pendingAt db sid time \<noteq> []"
  for time
  by unfold_locales
    (auto simp: acceptedInTransaction_def revokedInTransaction_def split: option.split)

section \<open>One claim at a time\<close>

text \<open>A claim that competes in queue order: not a user's selection, and without rows that yield to it.\<close>

definition in_order :: "turn_priority \<Rightarrow> string \<Rightarrow> bool" where
  "in_order p claim \<longleftrightarrow> queueClaimId p = Some claim \<and> truthy claim \<and> yieldedQueueItemIds p = []
     \<and> p \<noteq> SelectedQueueItem claim"

lemma Min_list: "xs \<noteq> [] \<Longrightarrow> Min (set xs) \<in> set xs"
  by (rule Min_in) simp_all

lemma firstClaimed_row:
  assumes "firstClaimedId db sid claim = Some i"
  obtains r where "r \<in> set (queueItems db)" "rowId r = i" "rowClaimId r = Some claim"
    "r \<in> set (liveRows db sid)"
proof -
  define rows where
    "rows = filter (\<lambda>r. rowSession r = sid \<and> rowClaimId r = Some claim \<and> rowStatus r = Claimed) (queueItems db)"
  have "map rowId rows \<noteq> []" "i = Min (set (map rowId rows))"
    using assms unfolding firstClaimedId_def Let_def rows_def [symmetric] by (simp_all split: if_splits)
  then have "i \<in> set (map rowId rows)" using Min_list by blast
  then obtain r where "r \<in> set rows" "rowId r = i" by auto
  then show ?thesis using that [of r] by (simp add: rows_def liveRows_def)
qed

lemma admitted_first:
  assumes "in_order p claim" "\<not> blocksQueueCandidate db sid p"
  obtains r where "r \<in> set (liveRows db sid)" "r \<in> set (queueItems db)" "rowClaimId r = Some claim"
    "\<forall>r' \<in> set (liveRows db sid). rowId r \<le> rowId r'"
proof -
  have "\<not> claimedQueueItemBlocks db sid p claim"
    using assms by (cases p) (auto simp: in_order_def blocksQueueCandidate_def truthy_opt_def truthy_def split: if_splits)
  then obtain i where i: "firstClaimedId db sid claim = Some i"
      "\<forall>r \<in> set (liveRows db sid). i \<le> rowId r"
    using assms(1)
    by (cases p) (auto simp: claimedQueueItemBlocks_def in_order_def list_ex_iff not_less split: option.splits)
  from firstClaimed_row [OF i(1)] show ?thesis using i(2) that by metis
qed

section \<open>Properties\<close>

text \<open>
  C34: the queue runs in order: of the claims of a session that compete in queue order at most one is
  admitted at a time, and while the session is paused it is one whose kind bypasses pauses.
\<close>

theorem fence_admits_one:
  "distinct (map rowId (queueItems db)) \<Longrightarrow> in_order p1 c1 \<Longrightarrow> in_order p2 c2 \<Longrightarrow>
   \<not> blocksQueueCandidate db sid p1 \<Longrightarrow> \<not> blocksQueueCandidate db sid p2 \<Longrightarrow>
   c1 = c2 \<and> (queuePauses db sid \<noteq> None \<longrightarrow> bypassesQueuePause p1 \<and> bypassesQueuePause p2)"
proof -
  assume d: "distinct (map rowId (queueItems db))" and p: "in_order p1 c1" "in_order p2 c2"
    and free: "\<not> blocksQueueCandidate db sid p1" "\<not> blocksQueueCandidate db sid p2"
  obtain r1 where r1: "r1 \<in> set (liveRows db sid)" "r1 \<in> set (queueItems db)" "rowClaimId r1 = Some c1"
    "\<forall>r' \<in> set (liveRows db sid). rowId r1 \<le> rowId r'"
    using p(1) free(1) by (rule admitted_first)
  obtain r2 where r2: "r2 \<in> set (liveRows db sid)" "r2 \<in> set (queueItems db)" "rowClaimId r2 = Some c2"
    "\<forall>r' \<in> set (liveRows db sid). rowId r2 \<le> rowId r'"
    using p(2) free(2) by (rule admitted_first)
  have "rowId r1 = rowId r2" using r1(1,4) r2(1,4) by (meson order_antisym)
  then have "r1 = r2" using d r1(2) r2(2) by (auto simp: distinct_map dest: inj_onD)
  moreover have "queuePauses db sid \<noteq> None \<longrightarrow> bypassesQueuePause p1 \<and> bypassesQueuePause p2"
    using free by (auto simp: blocksQueueCandidate_def split: if_splits)
  ultimately show ?thesis using r1(3) r2(3) by simp
qed

text \<open>
  C35: a turn that consumed the pause of a session and is revoked puts it back: as long as the session
  has pending work the tables are again what they were, and listeners are told of the pause.
\<close>

theorem fence_revoke_restores:
  "acceptedInTransaction db sid True = ((token, facts), db') \<Longrightarrow> queuePauses db sid \<noteq> None \<Longrightarrow>
   pendingAt db sid time \<noteq> [] \<Longrightarrow>
   revokedInTransaction db' sid token time = ([ExecutionStateChanged sid True], db)"
proof -
  assume a: "acceptedInTransaction db sid True = ((token, facts), db')" and paused: "queuePauses db sid \<noteq> None"
    and pending: "pendingAt db sid time \<noteq> []"
  have "queuePauses (snd (revokedInTransaction db' sid token time)) = queuePauses db"
    using ledger.take_put [where time = time and db = db and k = sid] pending a by simp
  moreover have "queueItems (snd (revokedInTransaction db' sid token time)) = queueItems db"
    using a by (auto simp: acceptedInTransaction_def revokedInTransaction_def split: option.splits if_splits)
  moreover have "fst (revokedInTransaction db' sid token time) = [ExecutionStateChanged sid True]"
  proof -
    obtain pause where "queuePauses db sid = Some pause" using paused by blast
    moreover from this a have "db' = db\<lparr>queuePauses := (queuePauses db)(sid := None)\<rparr>" "token = Some pause"
      by (simp_all add: acceptedInTransaction_def)
    ultimately show ?thesis using pending by (simp add: revokedInTransaction_def)
  qed
  ultimately show ?thesis by (cases "revokedInTransaction db' sid token time") (auto intro: fence_db.equality)
qed

definition sample_row :: "nat \<Rightarrow> string \<Rightarrow> queue_row" where
  "sample_row i claim = \<lparr>rowId = i, rowSession = ''s'', rowItem = ''i'', rowStatus = Claimed,
     rowCreatedAtMs = 0, rowExpiresAtMs = None, rowClaimId = Some claim\<rparr>"

definition sample_db :: fence_db where
  "sample_db = \<lparr>queueItems = [sample_row 1 ''a'', sample_row 2 ''b''],
     queuePauses = (\<lambda>s. if s = ''s'' then Some \<lparr>pauseCause = UserStop, triggerTurnId = ''t'', pausedAtMs = 3\<rparr> else None)\<rparr>"

lemma sample_live: "liveRows sample_db ''s'' = [sample_row 1 ''a'', sample_row 2 ''b'']"
  by (simp add: liveRows_def sample_db_def sample_row_def)

lemma sample_first: "firstClaimedId sample_db ''s'' ''a'' = Some 1"
  unfolding firstClaimedId_def sample_db_def sample_row_def Let_def fence_db.simps filter.simps by simp

lemma sample_head_admitted: "\<not> blocksQueueCandidate sample_db ''s'' (ContinuedQueueHead ''a'' None)"
  by (simp add: blocksQueueCandidate_def claimedQueueItemBlocks_def sample_first sample_live sample_row_def
      truthy_opt_def truthy_def)

lemma fence_admits_one_witness: "blocksQueueCandidate sample_db ''s'' (ContinuedQueueHead ''b'' None)"
  using fence_admits_one [of sample_db "ContinuedQueueHead ''a'' None" "''a''" "ContinuedQueueHead ''b'' None" "''b''" "''s''"]
    sample_head_admitted
  by (auto simp: in_order_def truthy_def sample_db_def sample_row_def)

lemma fence_revoke_restores_witness:
  "revokedInTransaction (snd (acceptedInTransaction sample_db ''s'' True)) ''s''
     (fst (fst (acceptedInTransaction sample_db ''s'' True))) 9 = ([ExecutionStateChanged ''s'' True], sample_db)"
proof -
  have "pendingAt sample_db ''s'' 9 \<noteq> []" by (simp add: pendingAt_def sample_live sample_row_def)
  moreover have "queuePauses sample_db ''s'' \<noteq> None" by (simp add: sample_db_def)
  ultimately show ?thesis
    using fence_revoke_restores [of sample_db "''s''" _ _ _ 9] by (metis prod.collapse)
qed

end
