(* ===== verification/RunawayFingerprint.thy ===== *)
theory RunawayFingerprint
  imports JsonText Numbers "HOL-Library.Monad_Syntax" "HOL-Library.Multiset" "HOL-Library.List_Lexorder"
    "HOL-Library.Char_ord"
begin

text \<open>
  Fingerprints of tool calls and results (\<open>fingerprint.ts\<close> of the runaway guard): a value is written
  as text with the properties of its objects in order, within a budget of bytes, and the text is hashed
  with the secret of the turn.  The keyed hash is an argument.  Values are trees (a value that contains
  itself is refused by the code), all objects are plain, and a number is written in decimal, which is
  what \<open>JSON.stringify\<close> does below \<open>10 ^ 21\<close>.
\<close>

section \<open>Writing within a budget\<close>

definition DEFAULT_MAX_FINGERPRINT_BYTES :: nat where
  "DEFAULT_MAX_FINGERPRINT_BYTES = 16 * 1024"

definition MAX_SERIALIZE_DEPTH :: nat where
  "MAX_SERIALIZE_DEPTH = 32"

text \<open>Bytes in UTF-8.\<close>

definition byte_length :: "string \<Rightarrow> nat" where
  "byte_length s = sum_list (map (\<lambda>c. if code c < 128 then 1 else 2) s)"

definition number_text :: "int \<Rightarrow> string" where
  "number_text i = (if i < 0 then ''-'' else []) @ decimal (nat \<bar>i\<bar>)"

text \<open>The bytes and the parts written so far; \<open>None\<close> once the budget is exceeded.\<close>

type_synonym writer = "nat \<times> string list"

definition append_part :: "nat \<Rightarrow> string \<Rightarrow> writer \<Rightarrow> writer option" where
  "append_part maxBytes part w =
     (let bytes = fst w + byte_length part
      in if bytes > maxBytes then None else Some (bytes, snd w @ [part]))"

definition keys_ok :: "jsobj \<Rightarrow> bool" where
  "keys_ok obj \<longleftrightarrow> length obj \<le> 1024 \<and> list_all (\<lambda>p. length (fst p) \<le> DEFAULT_MAX_FINGERPRINT_BYTES) obj"

lemma size_sorted: "size_list f (sort_key h xs) = size_list f xs"
proof -
  have "size_list f ys = sum_mset (image_mset f (mset ys)) + length ys" for ys :: "'a list"
    by (induction ys) simp_all
  then show ?thesis by (metis length_sort mset_sort)
qed

function writeStableValue :: "nat \<Rightarrow> jsval \<Rightarrow> writer \<Rightarrow> nat \<Rightarrow> writer option"
  and writeStableArray :: "nat \<Rightarrow> bool \<Rightarrow> jsval list \<Rightarrow> writer \<Rightarrow> nat \<Rightarrow> writer option"
  and writeStableRecord :: "nat \<Rightarrow> bool \<Rightarrow> jsobj \<Rightarrow> writer \<Rightarrow> nat \<Rightarrow> writer option"
where
  "writeStableValue maxBytes v w depth =
     (if depth > MAX_SERIALIZE_DEPTH then None
      else (case v of
          JUndefined \<Rightarrow> None
        | JNull \<Rightarrow> append_part maxBytes ''null'' w
        | JBool b \<Rightarrow> append_part maxBytes (if b then ''true'' else ''false'') w
        | JNumber i \<Rightarrow> append_part maxBytes (number_text i) w
        | JNonFinite \<Rightarrow> None
        | JString s \<Rightarrow>
            if length s > DEFAULT_MAX_FINGERPRINT_BYTES then None
            else append_part maxBytes (json_quote s) w
        | JArray vs \<Rightarrow> do {
            w \<leftarrow> append_part maxBytes ''['' w;
            w \<leftarrow> writeStableArray maxBytes True vs w depth;
            append_part maxBytes '']'' w }
        | JObject obj \<Rightarrow>
            if \<not> keys_ok obj then None
            else do {
              w \<leftarrow> append_part maxBytes ''{'' w;
              w \<leftarrow> writeStableRecord maxBytes True (sort_key fst obj) w depth;
              append_part maxBytes ''}'' w }))"
| "writeStableArray maxBytes first [] w depth = Some w"
| "writeStableArray maxBytes first (v # vs) w depth = do {
     w \<leftarrow> (if first then Some w else append_part maxBytes '','' w);
     w \<leftarrow> writeStableValue maxBytes v w (depth + 1);
     writeStableArray maxBytes False vs w depth }"
| "writeStableRecord maxBytes first [] w depth = Some w"
| "writeStableRecord maxBytes first (p # ps) w depth = do {
     w \<leftarrow> (if first then Some w else append_part maxBytes '','' w);
     w \<leftarrow> append_part maxBytes (json_quote (fst p)) w;
     w \<leftarrow> append_part maxBytes '':'' w;
     w \<leftarrow> writeStableValue maxBytes (snd p) w (depth + 1);
     writeStableRecord maxBytes False ps w depth }"
  by pat_completeness auto
termination
  by (relation "measure (\<lambda>x. case x of
      Inl (m, v, w, d) \<Rightarrow> size v
    | Inr (Inl (m, f, vs, w, d)) \<Rightarrow> size_list size vs
    | Inr (Inr (m, f, ps, w, d)) \<Rightarrow> size_list (\<lambda>p. Suc (size (snd p))) ps)")
    (auto simp: size_sorted size_prod_simp)

declare writeStableValue.simps [simp del]

definition stableSerializeWithinBudget :: "jsval \<Rightarrow> nat \<Rightarrow> string option" where
  "stableSerializeWithinBudget value maxBytes =
     map_option (\<lambda>w. concat (snd w)) (writeStableValue maxBytes value (0, []) 0)"

section \<open>Fingerprints\<close>

definition fingerprint :: "(string \<Rightarrow> string \<Rightarrow> string) \<Rightarrow> string \<Rightarrow> string \<Rightarrow> string" where
  "fingerprint hmac secret value = hmac secret value"

definition fingerprintWithinBudget ::
    "(string \<Rightarrow> string \<Rightarrow> string) \<Rightarrow> string \<Rightarrow> jsval \<Rightarrow> nat \<Rightarrow> string option" where
  "fingerprintWithinBudget hmac secret value maxBytes =
     (case stableSerializeWithinBudget value maxBytes of
        None \<Rightarrow> None
      | Some serialized \<Rightarrow> Some (fingerprint hmac secret serialized))"

definition isRecord :: "jsval \<Rightarrow> bool" where
  "isRecord v = (case v of JObject obj \<Rightarrow> True | _ \<Rightarrow> False)"

definition obj_fields :: "jsval \<Rightarrow> jsobj" where
  "obj_fields v = (case v of JObject obj \<Rightarrow> obj | _ \<Rightarrow> [])"

text \<open>The message of the thrown error is left out: the result is \<open>None\<close>.\<close>

definition positiveIntegerField :: "js_number \<Rightarrow> nat option" where
  "positiveIntegerField value =
     (case value of
        NotFinite \<Rightarrow> None
      | Finite v \<Rightarrow> if \<not> is_integer value \<or> v \<le> 0 then None else Some (nat \<lfloor>v\<rfloor>))"

section \<open>The text of a value\<close>

fun normal :: "jsval \<Rightarrow> jsval" where
  "normal (JArray vs) = JArray (map normal vs)"
| "normal (JObject obj) = JObject (sort_key fst (map (\<lambda>(k, v). (k, normal v)) obj))"
| "normal v = v"

text \<open>Equality up to the order of properties.\<close>

definition same_value :: "jsval \<Rightarrow> jsval \<Rightarrow> bool" where
  "same_value v w \<longleftrightarrow> normal v = normal w"

fun plain_value :: "jsval \<Rightarrow> bool" where
  "plain_value JUndefined = False"
| "plain_value JNonFinite = False"
| "plain_value (JArray vs) = list_all plain_value vs"
| "plain_value (JObject obj) = list_all (\<lambda>(k, v). plain_value v) obj"
| "plain_value _ = True"

fun value_text :: "jsval \<Rightarrow> string" where
  "value_text JUndefined = []"
| "value_text JNull = ''null''"
| "value_text (JBool b) = (if b then ''true'' else ''false'')"
| "value_text (JNumber i) = number_text i"
| "value_text JNonFinite = []"
| "value_text (JString s) = json_quote s"
| "value_text (JArray vs) = ''['' @ js_join '','' (map value_text vs) @ '']''"
| "value_text (JObject obj) =
     ''{'' @ js_join '','' (map (\<lambda>(k, v). json_quote k @ '':'' @ value_text v) obj) @ ''}''"

lemma insort_map: "(\<And>x. k (f x) = k x) \<Longrightarrow> insort_key k (f x) (map f xs) = map f (insort_key k x xs)"
  by (induction xs) simp_all

lemma sort_map: "(\<And>x. k (f x) = k x) \<Longrightarrow> sort_key k (map f xs) = map f (sort_key k xs)"
  by (induction xs) (simp_all add: insort_map)

lemma normal_object: "normal (JObject obj) = JObject (map (\<lambda>(k, v). (k, normal v)) (sort_key fst obj))"
  by (simp add: sort_map split_beta)

definition items_text :: "bool \<Rightarrow> string list \<Rightarrow> string" where
  "items_text first ts = (if first then js_join '','' ts else concat (map (\<lambda>t. '','' @ t) ts))"

lemma items_text_simps [simp]:
  "items_text b [] = []"
  "items_text True (t # ts) = t @ items_text False ts"
  "items_text False (t # ts) = CHR '','' # t @ items_text False ts"
proof -
  show "items_text True (t # ts) = t @ items_text False ts"
    by (induction ts arbitrary: t) (simp_all add: items_text_def)
qed (simp_all add: items_text_def)

lemma append_part_text:
  "append_part m part w = Some w' \<Longrightarrow> concat (snd w') = concat (snd w) @ part"
  by (auto simp: append_part_def Let_def split: if_splits)

lemma write_text:
  "writeStableValue m v w d = Some w' \<Longrightarrow>
     plain_value v \<and> concat (snd w') = concat (snd w) @ value_text (normal v)"
  "writeStableArray m b vs w d = Some w' \<Longrightarrow>
     list_all plain_value vs
     \<and> concat (snd w') = concat (snd w) @ items_text b (map (\<lambda>v. value_text (normal v)) vs)"
  "writeStableRecord m b ps w d = Some w' \<Longrightarrow>
     list_all (\<lambda>(k, v). plain_value v) ps
     \<and> concat (snd w') = concat (snd w)
         @ items_text b (map (\<lambda>(k, v). json_quote k @ '':'' @ value_text (normal v)) ps)"
proof (induction m v w d and m b vs w d and m b ps w d arbitrary: w' and w' and w'
    rule: writeStableValue_writeStableArray_writeStableRecord.induct)
  case (1 m v w d)
  show ?case
  proof (cases v)
    case (JArray vs)
    with "1.prems" obtain w1 w2 where w: "append_part m ''['' w = Some w1"
        "writeStableArray m True vs w1 d = Some w2" "append_part m '']'' w2 = Some w'"
        and d: "\<not> d > MAX_SERIALIZE_DEPTH"
      by (auto simp: writeStableValue.simps bind_eq_Some_conv split: if_splits)
    with "1.IH"(1) [OF d JArray w(1,2)] show ?thesis
      by (auto simp: JArray items_text_def o_def dest!: append_part_text)
  next
    case (JObject obj)
    with "1.prems" obtain w1 w2 where w: "append_part m ''{'' w = Some w1"
        "writeStableRecord m True (sort_key fst obj) w1 d = Some w2" "append_part m ''}'' w2 = Some w'"
        and d: "\<not> d > MAX_SERIALIZE_DEPTH" "\<not> \<not> keys_ok obj"
      by (auto simp: writeStableValue.simps bind_eq_Some_conv split: if_splits)
    with "1.IH"(2) [OF d(1) JObject d(2) w(1,2)] show ?thesis
      by (auto simp: JObject normal_object items_text_def o_def split_beta list_all_iff
          dest!: append_part_text simp del: normal.simps)
  qed (use "1.prems" in \<open>auto simp: writeStableValue.simps dest!: append_part_text split: if_splits\<close>)
next
  case (3 m b v vs w d)
  then obtain w1 w2 where w: "(if b then Some w else append_part m '','' w) = Some w1"
      "writeStableValue m v w1 (d + 1) = Some w2" "writeStableArray m False vs w2 d = Some w'"
    by (auto simp: bind_eq_Some_conv)
  from "3.IH"(1) [OF w(1,2)] "3.IH"(2) [OF w] w(1) show ?case
    by (cases b) (auto dest!: append_part_text)
next
  case (5 m b p ps w d)
  then obtain w1 w2 w3 w4 where w: "(if b then Some w else append_part m '','' w) = Some w1"
      "append_part m (json_quote (fst p)) w1 = Some w2" "append_part m '':'' w2 = Some w3"
      "writeStableValue m (snd p) w3 (d + 1) = Some w4" "writeStableRecord m False ps w4 d = Some w'"
    by (auto simp: bind_eq_Some_conv)
  from "5.IH"(1) [OF w(1-4)] "5.IH"(2) [OF w] w(1-3) show ?case
    by (cases b) (auto simp: split_beta dest!: append_part_text)
qed simp_all

section \<open>The text determines the value\<close>

definition tail_ok :: "string \<Rightarrow> bool" where
  "tail_ok r \<longleftrightarrow> r = [] \<or> \<not> is_digit (hd r)"

lemma digits_unique:
  "decimal n @ r = decimal k @ r' \<Longrightarrow> tail_ok r \<Longrightarrow> tail_ok r' \<Longrightarrow> n = k \<and> r = r'"
proof -
  have cut: "takeWhile is_digit (decimal n @ r) = decimal n" if "tail_ok r" for n r
  proof -
    have "\<And>c. c \<in> set (decimal n) \<Longrightarrow> is_digit c" using decimal_digits(1) by (simp add: list_all_iff)
    moreover have "takeWhile is_digit r = []" using that by (cases r) (auto simp: tail_ok_def)
    ultimately show ?thesis by (simp add: takeWhile_append2)
  qed
  assume a: "decimal n @ r = decimal k @ r'" "tail_ok r" "tail_ok r'"
  then have "decimal n = decimal k" by (metis cut)
  then show ?thesis using a(1) by (metis read_decimal_decimal same_append_eq)
qed

lemma decimal_head: "decimal n @ r \<noteq> CHR ''-'' # t"
  using decimal_digits [of n] by (cases "decimal n") (auto simp: is_digit_def code_def)

lemma number_unique:
  "number_text i @ r = number_text j @ r' \<Longrightarrow> tail_ok r \<Longrightarrow> tail_ok r' \<Longrightarrow> i = j \<and> r = r'"
  using decimal_head [of "nat \<bar>i\<bar>" r] decimal_head [of "nat \<bar>j\<bar>" r', symmetric]
  by (auto simp: number_text_def dest!: digits_unique split: if_splits)

lemma quote_unique: "json_quote s @ r = json_quote t @ r' \<Longrightarrow> s = t \<and> r = r'"
proof -
  assume "json_quote s @ r = json_quote t @ r'"
  then have "json_body (concat (map json_escape s) @ DQ # r) = json_body (concat (map json_escape t) @ DQ # r')"
    by (simp add: json_quote_def)
  then show ?thesis by (simp add: json_body_quote)
qed

lemma tail_ok_items: "\<not> is_digit c \<Longrightarrow> tail_ok (items_text False ts @ c # r)"
  by (cases ts) (simp_all add: tail_ok_def is_digit_def code_def)

lemma items_unique:
  assumes "\<And>x y r r'. x \<in> set xs \<Longrightarrow> Q y \<Longrightarrow> tail_ok r \<Longrightarrow> tail_ok r' \<Longrightarrow> f x @ r = f y @ r' \<Longrightarrow> x = y \<and> r = r'"
    and "list_all Q ys" "c \<noteq> CHR '',''" "\<not> is_digit c"
    and "items_text False (map f xs) @ c # r = items_text False (map f ys) @ c # r'"
  shows "xs = ys \<and> r = r'"
  using assms
proof (induction xs arbitrary: ys)
  case Nil
  then show ?case by (cases ys) auto
next
  case (Cons x xs)
  obtain y ys' where ys: "ys = y # ys'" using Cons.prems(3,5) by (cases ys) auto
  have "f x @ items_text False (map f xs) @ c # r = f y @ items_text False (map f ys') @ c # r'"
    using Cons.prems(5) ys by simp
  moreover have "Q y" "list_all Q ys'" using Cons.prems(2) ys by simp_all
  ultimately have "x = y \<and> items_text False (map f xs) @ c # r = items_text False (map f ys') @ c # r'"
    using Cons.prems(1,4) tail_ok_items by (metis list.set_intros(1))
  moreover have "xs = ys' \<and> r = r'"
    using Cons.IH [OF _ \<open>list_all Q ys'\<close> Cons.prems(3,4)] Cons.prems(1) calculation by auto
  ultimately show ?case using ys by simp
qed

lemma items_unique_first:
  assumes "\<And>x y r r'. x \<in> set xs \<Longrightarrow> Q y \<Longrightarrow> tail_ok r \<Longrightarrow> tail_ok r' \<Longrightarrow> f x @ r = f y @ r' \<Longrightarrow> x = y \<and> r = r'"
    and "list_all Q ys" "c \<noteq> CHR '',''" "\<not> is_digit c"
    and "\<And>x. x \<in> set xs \<or> x \<in> set ys \<Longrightarrow> f x \<noteq> [] \<and> hd (f x) \<noteq> c"
    and "js_join '','' (map f xs) @ c # r = js_join '','' (map f ys) @ c # r'"
  shows "xs = ys \<and> r = r'"
proof -
  have e: "items_text True (map f xs) @ c # r = items_text True (map f ys) @ c # r'"
    using assms(6) by (simp add: items_text_def)
  show ?thesis
  proof (cases "xs = [] \<or> ys = []")
    case True
    have "f x @ u \<noteq> c # v" if "x \<in> set xs \<or> x \<in> set ys" for x u v
      using assms(5) [OF that] by (cases "f x") auto
    from this [of "hd xs"] this [of "hd ys", THEN not_sym] True e
    show ?thesis by (cases xs; cases ys) auto
  next
    case False
    then obtain x xs' y ys' where "xs = x # xs'" "ys = y # ys'" by (meson neq_Nil_conv)
    then have "items_text False (map f xs) @ c # r = items_text False (map f ys) @ c # r'" using e by simp
    then show ?thesis using items_unique [OF assms(1-4)] by blast
  qed
qed

lemma number_head: obtains c t where "number_text i = c # t" "c = CHR ''-'' \<or> is_digit c"
proof -
  obtain c t where "decimal (nat \<bar>i\<bar>) = c # t" "is_digit c"
    using decimal_digits [of "nat \<bar>i\<bar>"] by (cases "decimal (nat \<bar>i\<bar>)") auto
  then show ?thesis using that by (cases "i < 0") (auto simp: number_text_def)
qed

lemma value_head:
  "plain_value v \<Longrightarrow> value_text v \<noteq> [] \<and> hd (value_text v) \<noteq> CHR '']''"
  by (cases v; cases "case v of JNumber i \<Rightarrow> i | _ \<Rightarrow> 0" rule: number_head)
    (auto simp: json_quote_def is_digit_def code_def)

fun value_kind :: "jsval \<Rightarrow> nat" where
  "value_kind JNull = 0"
| "value_kind (JBool b) = (if b then 1 else 2)"
| "value_kind (JNumber i) = 3"
| "value_kind (JString s) = 4"
| "value_kind (JArray vs) = 5"
| "value_kind _ = 6"

definition head_kind :: "char \<Rightarrow> nat" where
  "head_kind c =
     (if c = CHR ''n'' then 0 else if c = CHR ''t'' then 1 else if c = CHR ''f'' then 2
      else if c = CHR ''-'' \<or> is_digit c then 3 else if c = DQ then 4 else if c = CHR ''['' then 5 else 6)"

lemma value_kind_head: "plain_value v \<Longrightarrow> value_kind v = head_kind (hd (value_text v @ r))"
  by (cases v; cases "case v of JNumber i \<Rightarrow> i | _ \<Rightarrow> 0" rule: number_head)
    (auto simp: head_kind_def json_quote_def is_digit_def code_def)

lemma value_unique:
  "plain_value v \<Longrightarrow> plain_value w \<Longrightarrow> tail_ok r \<Longrightarrow> tail_ok r' \<Longrightarrow>
   value_text v @ r = value_text w @ r' \<Longrightarrow> v = w \<and> r = r'"
proof (induction v arbitrary: w r r')
  case (JArray vs)
  have "value_kind w = 5" using value_kind_head JArray.prems by (metis value_kind.simps(5))
  then obtain ws where w: "w = JArray ws" by (cases w) (auto split: if_splits)
  have "js_join '','' (map value_text vs) @ CHR '']'' # r = js_join '','' (map value_text ws) @ CHR '']'' # r'"
    using JArray.prems(5) w by simp
  moreover have "x = y \<and> q = q'"
    if "x \<in> set vs" "plain_value y" "tail_ok q" "tail_ok q'" "value_text x @ q = value_text y @ q'" for x y q q'
    using JArray.IH [OF that(1) _ that(2-5)] JArray.prems(1) that(1) by (simp add: list_all_iff)
  ultimately have "vs = ws \<and> r = r'"
    using JArray.prems(1,2) w value_head
    by (intro items_unique_first [where Q = plain_value and f = value_text and c = "CHR '']''"])
      (auto simp: list_all_iff is_digit_def code_def)
  with w show ?case by simp
next
  case (JObject obj)
  let ?f = "\<lambda>(k, v). json_quote k @ '':'' @ value_text v"
  have "value_kind w = value_kind (JObject obj)" using value_kind_head JObject.prems by metis
  then obtain ws where w: "w = JObject ws" using JObject.prems(2) by (cases w) (auto split: if_splits)
  have "js_join '','' (map ?f obj) @ CHR ''}'' # r = js_join '','' (map ?f ws) @ CHR ''}'' # r'"
    using JObject.prems(5) w by simp
  moreover have "x = y \<and> q = q'"
    if x: "x \<in> set obj" and y: "case y of (k, v) \<Rightarrow> plain_value v" and q: "tail_ok q" "tail_ok q'"
      and e: "?f x @ q = ?f y @ q'" for x y q q'
  proof -
    obtain k v k' v' where kv: "x = (k, v)" "y = (k', v')" by (cases x; cases y)
    then have "json_quote k @ '':'' @ value_text v @ q = json_quote k' @ '':'' @ value_text v' @ q'"
      using e by simp
    then have "k = k'" "value_text v @ q = value_text v' @ q'" by (auto dest: quote_unique)
    moreover have "plain_value v" using JObject.prems(1) x kv by (auto simp: list_all_iff)
    ultimately show ?thesis
      using JObject.IH [of x v v' q q'] x y q kv by simp
  qed
  ultimately have "obj = ws \<and> r = r'"
    using JObject.prems(1,2) w
    by (intro items_unique_first [where Q = "\<lambda>(k, v). plain_value v" and f = ?f and c = "CHR ''}''"])
      (auto simp: list_all_iff is_digit_def code_def json_quote_def)
  with w show ?case by simp
next
  case (JNumber i)
  have "value_kind w = 3" using value_kind_head JNumber.prems by (metis value_kind.simps(3))
  then obtain j where "w = JNumber j" by (cases w) (auto split: if_splits)
  with JNumber.prems show ?case by (auto dest: number_unique)
next
  case (JString t)
  have "value_kind w = 4" using value_kind_head JString.prems by (metis value_kind.simps(4))
  then obtain j where "w = JString j" by (cases w) (auto split: if_splits)
  with JString.prems show ?case by (auto dest: quote_unique)
next
  case (JBool b)
  have "value_kind w = value_kind (JBool b)" using value_kind_head JBool.prems by metis
  then have "w = JBool b" by (cases w) (auto split: if_splits)
  with JBool.prems show ?case by simp
next
  case JNull
  have "value_kind w = value_kind JNull" using value_kind_head JNull.prems by metis
  then have "w = JNull" by (cases w) (auto split: if_splits)
  with JNull.prems show ?case by simp
qed simp_all

lemma plain_normal: "plain_value v \<Longrightarrow> plain_value (normal v)"
proof (induction v)
  case (JObject obj)
  then show ?case unfolding normal_object by (auto simp: list_all_iff)
qed (auto simp: list_all_iff)

section \<open>Property\<close>

text \<open>
  C38: two values that are both within the budget get the same text exactly when they are equal up to
  the order of object properties, so a fingerprint confuses two calls only if the hash does.
\<close>

theorem serialization_faithful:
  "stableSerializeWithinBudget v m = Some s \<Longrightarrow> stableSerializeWithinBudget w m' = Some t \<Longrightarrow>
   s = t \<longleftrightarrow> same_value v w"
proof -
  assume "stableSerializeWithinBudget v m = Some s" "stableSerializeWithinBudget w m' = Some t"
  then have st: "s = value_text (normal v)" "t = value_text (normal w)" "plain_value v" "plain_value w"
    using write_text(1) by (fastforce simp: stableSerializeWithinBudget_def)+
  show ?thesis
    using value_unique [of "normal v" "normal w" "[]" "[]"] plain_normal st
    by (auto simp: same_value_def tail_ok_def)
qed

definition sample_object :: "bool \<Rightarrow> jsval" where
  "sample_object b =
     (let p = (''cmd'', JString ''ls''); q = (''n'', JNumber (- 12))
      in JObject (if b then [p, q] else [q, p]))"

lemma serialization_faithful_witness:
  "stableSerializeWithinBudget (sample_object True) 100 = stableSerializeWithinBudget (sample_object False) 100"
proof -
  have "stableSerializeWithinBudget (sample_object True) 100 \<noteq> None"
    "stableSerializeWithinBudget (sample_object False) 100 \<noteq> None"
    by code_simp+
  then obtain s t where st: "stableSerializeWithinBudget (sample_object True) 100 = Some s"
      "stableSerializeWithinBudget (sample_object False) 100 = Some t" by blast
  have "same_value (sample_object True) (sample_object False)" by code_simp
  then have "s = t" using serialization_faithful [OF st] by simp
  with st show ?thesis by simp
qed

end
