(* ===== verification/RunawayStepView.thy ===== *)
theory RunawayStepView
  imports RunawayFingerprint
begin

text \<open>
  The turn state of the runaway guard (\<open>state.ts\<close>) and the projection of one step of a turn, an
  assistant message with its tool results, to the keys the detectors count (\<open>step-view.ts\<close>).  Tool
  policies are records of functions, of which \<open>None\<close> as a result means that the function throws.
  Objects made by hosts and policies are values of type \<open>unknown\<close>, as the code checks them at run
  time.  A JavaScript \<open>Map\<close> is its list of entries in insertion order.
\<close>

section \<open>State of a turn\<close>

datatype signal_kind =
  ExactAction | ExactResult | SameErrorFamily | AbabCycle | PollingRepeat | UnchangedProgress

record signal_stats =
  episodeCount :: nat
  maxOccurrences :: nat
  firstStepIndex :: "nat option"
  lastStepIndex :: "nat option"

record progress_streak =
  streakKey :: string
  streakOccurrences :: nat
  streakContinuous :: bool
  streakEligible :: bool

record shadow_state =
  secret :: string
  stepIndex :: nat
  fingerprintSkippedCount :: nat
  reminderAttempted :: bool
  reminderInjected :: bool
  signalStats :: "signal_kind \<Rightarrow> signal_stats"
  detectActionStreaks :: "(string \<times> nat) list"
  pollingActionStreaks :: "(string \<times> nat) list"
  detectResultStreaks :: "(string \<times> nat) list"
  errorFamilyStreaks :: "(string \<times> nat) list"
  progressStreaks :: "(string \<times> progress_streak) list"
  recentActionBatches :: "string list"
  activeAbabKey :: "string option"

definition emptySignalStats :: signal_stats where
  "emptySignalStats = \<lparr>episodeCount = 0, maxOccurrences = 0, firstStepIndex = None, lastStepIndex = None\<rparr>"

definition newShadowState :: "string \<Rightarrow> shadow_state" where
  "newShadowState randomBytes =
     \<lparr>secret = randomBytes, stepIndex = 0, fingerprintSkippedCount = 0, reminderAttempted = False,
      reminderInjected = False, signalStats = (\<lambda>_. emptySignalStats), detectActionStreaks = [],
      pollingActionStreaks = [], detectResultStreaks = [], errorFamilyStreaks = [], progressStreaks = [],
      recentActionBatches = [], activeAbabKey = None\<rparr>"

definition clearDetectionStreaks :: "shadow_state \<Rightarrow> shadow_state" where
  "clearDetectionStreaks st = st\<lparr>detectActionStreaks := [], pollingActionStreaks := [], detectResultStreaks := [],
     errorFamilyStreaks := [], progressStreaks := [], recentActionBatches := [], activeAbabKey := None\<rparr>"

definition recordMaxOccurrences :: "signal_kind \<Rightarrow> nat \<Rightarrow> shadow_state \<Rightarrow> shadow_state" where
  "recordMaxOccurrences kind occurrences st =
     (let stats = signalStats st kind
      in st\<lparr>signalStats := (signalStats st)(kind :=
           stats\<lparr>maxOccurrences := max (maxOccurrences stats) occurrences\<rparr>)\<rparr>)"

definition skip_fingerprints :: "nat \<Rightarrow> shadow_state \<Rightarrow> shadow_state" where
  "skip_fingerprints n st = st\<lparr>fingerprintSkippedCount := fingerprintSkippedCount st + n\<rparr>"

section \<open>Steps and policies\<close>

datatype message_block = ToolCallBlock string string jsval | OtherBlock

datatype message = AssistantMessage "message_block list" jsval | OtherMessage

record tool_result =
  resultCallId :: string
  resultToolName :: string
  resultContent :: jsval
  resultDetails :: jsval
  resultIsError :: bool

record tool_step =
  stepCallId :: string
  stepToolName :: string
  stepArguments :: jsval
  stepResult :: "tool_result option"
  stepVerified :: "jsval option"
  stepProvenance :: "jsval option"

datatype policy_kind = Detect | Polling | Exempt

record tool_policy =
  policyKind :: policy_kind
  projectActionKey :: "(jsval \<Rightarrow> jsval option) option"
  isExpectedResult :: "(tool_step \<Rightarrow> jsval option) option"
  projectProgress :: "(tool_step \<Rightarrow> jsval option) option"

record progress_observation =
  viewKind :: policy_kind
  viewLoopKey :: string
  viewProgressKey :: string
  viewVerifiedProgress :: bool
  viewContinuousPolling :: bool
  viewReminderEligible :: bool

datatype progress_view = Observation progress_observation | Reset string | Interrupt

record step_view =
  detectActionKeys :: "string list"
  pollingActionKeys :: "string list"
  detectResultKeys :: "string list"
  errorFamilyKeys :: "string list"
  remindableErrorFamilyKeys :: "string list"
  viewProgress :: "progress_view list"
  detectActionBatchKey :: "string option"

section \<open>Host facts\<close>

definition MAX_SAFE_INTEGER :: int where
  "MAX_SAFE_INTEGER = 9007199254740991"

definition field :: "jsval \<Rightarrow> string \<Rightarrow> jsval" where
  "field v k = prop_of (obj_fields v) k"

definition nullish :: "jsval \<Rightarrow> bool" where
  "nullish v \<longleftrightarrow> v = JUndefined \<or> v = JNull"

definition opt_bool :: "jsval \<Rightarrow> bool" where
  "opt_bool v \<longleftrightarrow> v = JUndefined \<or> v = JBool True \<or> v = JBool False"

definition validPollingControl :: "jsval \<Rightarrow> bool" where
  "validPollingControl v \<longleftrightarrow> v = JUndefined \<or>
     isRecord v \<and> (field v ''mode'' = JString ''continuous'' \<or> field v ''mode'' = JString ''reset'')
     \<and> opt_bool (field v ''reminderEligible'')"

definition validProgressProjection :: "jsval \<Rightarrow> bool" where
  "validProgressProjection projection \<longleftrightarrow>
     isRecord projection \<and> \<not> nullish (field projection ''loopKey'') \<and> \<not> nullish (field projection ''progressKey'')
     \<and> (case field projection ''newFacts'' of
          JUndefined \<Rightarrow> True | JNumber n \<Rightarrow> 0 \<le> n \<and> n \<le> MAX_SAFE_INTEGER | _ \<Rightarrow> False)
     \<and> opt_bool (field projection ''stateChanged'') \<and> opt_bool (field projection ''artifactChanged'')
     \<and> validPollingControl (field projection ''polling'')"

fun block_call_id :: "message_block \<Rightarrow> string list" where
  "block_call_id (ToolCallBlock i name args) = [i]"
| "block_call_id OtherBlock = []"

fun toolCallIdsFromMessage :: "message \<Rightarrow> string list" where
  "toolCallIdsFromMessage (AssistantMessage blocks usage) = concat (map block_call_id blocks)"
| "toolCallIdsFromMessage OtherMessage = []"

text \<open>A map from the call ids of the valid values to the values; later ones replace earlier ones.\<close>

definition call_map :: "(jsval \<Rightarrow> bool) \<Rightarrow> jsval list \<Rightarrow> string list \<Rightarrow> string \<Rightarrow> jsval option" where
  "call_map valid values expected =
     map_of (rev (concat (map (\<lambda>v. case field v ''toolCallId'' of
         JString i \<Rightarrow> if isRecord v \<and> i \<in> set expected \<and> valid v then [(i, v)] else []
       | _ \<Rightarrow> []) values)))"

definition verifiedProgressMap :: "jsval list \<Rightarrow> string list \<Rightarrow> string \<Rightarrow> jsval option" where
  "verifiedProgressMap = call_map validProgressProjection"

definition trustedToolProvenanceMap :: "jsval list \<Rightarrow> string list \<Rightarrow> string \<Rightarrow> jsval option" where
  "trustedToolProvenanceMap = call_map (\<lambda>v.
     (case field v ''toolName'' of JString s \<Rightarrow> s \<noteq> [] | _ \<Rightarrow> False)
     \<and> (field v ''source'' = JString ''builtin'' \<or> field v ''source'' = JString ''captured-compatibility''))"

definition hasPositiveProgress :: "jsval option \<Rightarrow> bool" where
  "hasPositiveProgress projection =
     (case projection of
        None \<Rightarrow> False
      | Some p \<Rightarrow> field p ''stateChanged'' = JBool True \<or> field p ''artifactChanged'' = JBool True
          \<or> (case field p ''newFacts'' of JNumber n \<Rightarrow> n > 0 | _ \<Rightarrow> False))"

section \<open>Policies, best effort\<close>

definition projectActionKeyBestEffort :: "tool_policy option \<Rightarrow> jsval \<Rightarrow> jsval" where
  "projectActionKeyBestEffort policy args =
     (case policy of
        None \<Rightarrow> args
      | Some p \<Rightarrow>
          (case projectActionKey p of
             None \<Rightarrow> args
           | Some f \<Rightarrow> (case f args of None \<Rightarrow> args | Some v \<Rightarrow> if nullish v then args else v)))"

definition given_fields :: "jsval \<Rightarrow> string list \<Rightarrow> jsobj" where
  "given_fields v ks = concat (map (\<lambda>k. if field v k = JUndefined then [] else [(k, field v k)]) ks)"

definition verifiedProjection :: "tool_step \<Rightarrow> jsval option" where
  "verifiedProjection step =
     (case stepVerified step of
        None \<Rightarrow> None
      | Some v \<Rightarrow>
          if \<not> validProgressProjection v then None
          else Some (JObject ([(''loopKey'', field v ''loopKey''), (''progressKey'', field v ''progressKey'')]
            @ given_fields v [''newFacts'', ''stateChanged'', ''artifactChanged''])))"

definition projectProgressBestEffort :: "tool_policy option \<Rightarrow> tool_step \<Rightarrow> jsval option" where
  "projectProgressBestEffort policy step =
     (case policy of
        None \<Rightarrow> verifiedProjection step
      | Some p \<Rightarrow>
          (case projectProgress p of
             None \<Rightarrow> verifiedProjection step
           | Some f \<Rightarrow>
               (case f step of
                  None \<Rightarrow> verifiedProjection step
                | Some projection \<Rightarrow>
                    if validProgressProjection projection then Some projection
                    else verifiedProjection step)))"

definition isExpectedResultBestEffort :: "tool_policy option \<Rightarrow> tool_step \<Rightarrow> bool" where
  "isExpectedResultBestEffort policy step =
     (case policy of
        None \<Rightarrow> False
      | Some p \<Rightarrow> (case isExpectedResult p of None \<Rightarrow> False | Some f \<Rightarrow> f step = Some (JBool True)))"

section \<open>Error families\<close>

definition structuredErrorCode :: "jsval \<Rightarrow> string option" where
  "structuredErrorCode details =
     (if \<not> isRecord details then None
      else (case concat (map (\<lambda>k. case field details k of
              JString s \<Rightarrow> if s \<noteq> [] \<and> length s \<le> 128 then [s] else []
            | JNumber n \<Rightarrow> [number_text n]
            | _ \<Rightarrow> []) [''error_code'', ''errorCode'', ''code'', ''status'']) of
          [] \<Rightarrow> None | s # rest \<Rightarrow> Some s))"

definition block_text :: "jsval \<Rightarrow> string list" where
  "block_text block =
     (if \<not> isRecord block \<or> field block ''type'' \<noteq> JString ''text'' then []
      else (case field block ''text'' of
          JString s \<Rightarrow> if s \<noteq> [] \<and> length s \<le> 4096 then [s] else [] | _ \<Rightarrow> []))"

definition firstText :: "jsval \<Rightarrow> string option" where
  "firstText content =
     (case content of
        JArray blocks \<Rightarrow> (case concat (map block_text blocks) of [] \<Rightarrow> None | s # rest \<Rightarrow> Some s)
      | _ \<Rightarrow> None)"

text \<open>The expressions \<open>/\b429\b/\<close> and \<open>/rate.?limit/\<close>.\<close>

definition word_char :: "char \<Rightarrow> bool" where
  "word_char c \<longleftrightarrow> is_alnum c \<or> c = CHR ''_''"

fun has_word_from :: "bool \<Rightarrow> string \<Rightarrow> string \<Rightarrow> bool" where
  "has_word_from prev t [] = False"
| "has_word_from prev t (c # s) =
     (\<not> prev \<and> starts_with t (c # s)
        \<and> (case drop (length t) (c # s) of [] \<Rightarrow> True | d # r \<Rightarrow> \<not> word_char d)
      \<or> has_word_from (word_char c) t s)"

definition has_word :: "string \<Rightarrow> string \<Rightarrow> bool" where
  "has_word t s = has_word_from False t s"

fun has_rate_limit :: "string \<Rightarrow> bool" where
  "has_rate_limit [] = False"
| "has_rate_limit (c # s) =
     (starts_with ''ratelimit'' (c # s)
      \<or> (starts_with ''rate'' (c # s) \<and> (case drop 4 (c # s) of
            [] \<Rightarrow> False | d # r \<Rightarrow> d \<noteq> LF \<and> d \<noteq> CR \<and> starts_with ''limit'' r))
      \<or> has_rate_limit s)"

definition has_any :: "string list \<Rightarrow> string \<Rightarrow> bool" where
  "has_any ts s = list_ex (\<lambda>t. str_includes t s) ts"

definition ERROR_CATEGORIES :: "(string \<times> (string \<Rightarrow> bool)) list" where
  "ERROR_CATEGORIES =
     [(''timeout'', has_any [''timeout'', ''timed out'', ''deadline exceeded'']),
      (''rate_limit'', \<lambda>s. has_rate_limit s \<or> str_includes ''too many requests'' s \<or> has_word ''429'' s),
      (''network'', has_any [''network'', ''econn'', ''socket'', ''dns'', ''connection reset'']),
      (''auth'', \<lambda>s. has_any [''unauth'', ''invalid api key''] s \<or> has_word ''401'' s),
      (''permission'', \<lambda>s. has_any [''permission'', ''forbidden'', ''access denied''] s \<or> has_word ''403'' s),
      (''not_found'', \<lambda>s. has_any [''not found'', ''enoent''] s \<or> has_word ''404'' s),
      (''invalid_argument'', \<lambda>s. has_any [''invalid argument'', ''validation failed'', ''bad request''] s
          \<or> has_word ''400'' s),
      (''process_exit'', has_any [''exit code'', ''non-zero'', ''process failed''])]"

definition errorFamily :: "string \<Rightarrow> jsval \<Rightarrow> jsval \<Rightarrow> string option" where
  "errorFamily toolName details content =
     (case structuredErrorCode details of
        Some structured \<Rightarrow> Some (toolName @ [CHR 0x00] @ ''code:'' @ structured)
      | None \<Rightarrow>
          (case firstText content of
             None \<Rightarrow> None
           | Some text \<Rightarrow>
               (let normalized = to_lower text
                in case find (\<lambda>p. snd p normalized) ERROR_CATEGORIES of
                     Some p \<Rightarrow> Some (toolName @ [CHR 0x00] @ ''category:'' @ fst p)
                   | None \<Rightarrow>
                       (let bounded = take 1024 (js_trim (collapse_ws False normalized))
                        in if bounded = [] then None
                           else Some (toolName @ [CHR 0x00] @ ''text:'' @ bounded)))))"

section \<open>The loops over calls and results\<close>

text \<open>What the projection of a step reads besides the blocks.\<close>

record step_env =
  envHmac :: "string \<Rightarrow> string \<Rightarrow> string"
  envPolicies :: "string \<Rightarrow> tool_policy option"
  envMaxBytes :: nat
  envVerified :: "string \<Rightarrow> jsval option"
  envProvenance :: "string \<Rightarrow> jsval option"
  envExcluded :: "string list"
  envResults :: "tool_result list"

record step_acc =
  accState :: shadow_state
  accDetect :: "string list"
  accPolling :: "string list"
  accResult :: "string list"
  accFamilies :: "string list"
  accRemindable :: "string list"
  accProgress :: "progress_view list"
  accActionKeys :: "(string \<times> string) list"
  accExpected :: "string list"

definition step_fingerprint :: "step_env \<Rightarrow> shadow_state \<Rightarrow> jsobj \<Rightarrow> string option" where
  "step_fingerprint env st obj =
     fingerprintWithinBudget (envHmac env) (secret st) (JObject obj) (envMaxBytes env)"

definition policy_kind_of :: "tool_policy option \<Rightarrow> policy_kind" where
  "policy_kind_of p = (case p of None \<Rightarrow> Detect | Some q \<Rightarrow> policyKind q)"

definition appendPollingControl :: "step_env \<Rightarrow> jsval \<Rightarrow> jsval option \<Rightarrow> string \<Rightarrow> step_acc \<Rightarrow> step_acc" where
  "appendPollingControl env control projection name acc =
     (case projection of
        None \<Rightarrow> acc
      | Some p \<Rightarrow>
          if field control ''mode'' \<noteq> JString ''reset'' then acc
          else (let loopKey = step_fingerprint env (accState acc)
                  [(''toolName'', JString name), (''loopKey'', field p ''loopKey'')]
            in if \<not> truthy_opt loopKey
               then acc\<lparr>accState := skip_fingerprints 1 (accState acc), accProgress := accProgress acc @ [Interrupt]\<rparr>
               else acc\<lparr>accProgress := accProgress acc @ [Reset (the loopKey)]\<rparr>))"

definition stepOf :: "step_env \<Rightarrow> string \<Rightarrow> string \<Rightarrow> jsval \<Rightarrow> tool_step" where
  "stepOf env i name args =
     (let excluded = i \<in> set (envExcluded env)
      in \<lparr>stepCallId = i, stepToolName = name, stepArguments = args,
          stepResult = (if excluded then None
            else map_of (rev (map (\<lambda>r. (resultCallId r, r)) (envResults env))) i),
          stepVerified = (if excluded then None else envVerified env i),
          stepProvenance = envProvenance env i\<rparr>)"

text \<open>The part of a round that observes progress: whether a change was observed, and the accumulators.\<close>

definition progressRound ::
    "step_env \<Rightarrow> policy_kind \<Rightarrow> jsval \<Rightarrow> jsval option \<Rightarrow> tool_step \<Rightarrow> step_acc \<Rightarrow> bool \<times> step_acc" where
  "progressRound env policy control projection step acc =
     (case projection of
        None \<Rightarrow> (False, acc)
      | Some p \<Rightarrow>
          if field control ''mode'' = JString ''reset'' then (False, acc)
          else
            (let st = accState acc;
                 name = stepToolName step;
                 continuous = (field control ''mode'' = JString ''continuous'');
                 loopKey = step_fingerprint env st [(''toolName'', JString name), (''loopKey'', field p ''loopKey'')];
                 progressKey = step_fingerprint env st
                   [(''toolName'', JString name), (''progressKey'', field p ''progressKey'')]
             in if truthy_opt loopKey \<and> truthy_opt progressKey then
                  (let observedChange = hasPositiveProgress (Some p)
                         \<or> (continuous \<and> hasPositiveProgress (stepVerified step))
                   in (observedChange, acc\<lparr>accProgress := accProgress acc @ [Observation
                        \<lparr>viewKind = policy, viewLoopKey = the loopKey, viewProgressKey = the progressKey,
                         viewVerifiedProgress = observedChange, viewContinuousPolling = continuous,
                         viewReminderEligible = (continuous \<and> field control ''reminderEligible'' = JBool True)\<rparr>]\<rparr>))
                else (False, acc\<lparr>
                  accState := skip_fingerprints
                    (of_bool (\<not> truthy_opt loopKey) + of_bool (\<not> truthy_opt progressKey)) st,
                  accProgress := accProgress acc @ (if continuous then [Interrupt] else [])\<rparr>)))"

fun projectBlock :: "step_env \<Rightarrow> message_block \<Rightarrow> step_acc \<Rightarrow> step_acc" where
  "projectBlock env OtherBlock acc = acc"
| "projectBlock env (ToolCallBlock i name args) acc =
     (let excluded = i \<in> set (envExcluded env);
          configured = envPolicies env name;
          policy = policy_kind_of configured;
          result = map_of (rev (map (\<lambda>r. (resultCallId r, r)) (envResults env))) i;
          step = stepOf env i name args;
          projection = projectProgressBestEffort configured step;
          control = (if policy = Polling then (case projection of None \<Rightarrow> JUndefined | Some p \<Rightarrow> field p ''polling'')
            else JUndefined);
          acc1 = appendPollingControl env control projection name acc;
          acc2 = (if control = JUndefined then acc1\<lparr>accProgress := accProgress acc1 @ [Interrupt]\<rparr> else acc1)
      in if excluded \<or> policy = Exempt then acc2
         else
           (let acc3 = (if (case result of None \<Rightarrow> False | Some r \<Rightarrow> resultIsError r)
                  \<and> isExpectedResultBestEffort configured step
                then acc2\<lparr>accExpected := List.insert i (accExpected acc2)\<rparr> else acc2);
                (observedChange, acc4) = progressRound env policy control projection step acc3;
                actionKey = step_fingerprint env (accState acc4)
                  [(''toolName'', JString name), (''actionKey'', projectActionKeyBestEffort configured args)]
            in if \<not> truthy_opt actionKey then acc4\<lparr>accState := skip_fingerprints 1 (accState acc4)\<rparr>
               else
                 (let acc5 = acc4\<lparr>accActionKeys := AList.update i (the actionKey) (accActionKeys acc4)\<rparr>
                  in if observedChange then acc5\<lparr>accExpected := List.insert i (accExpected acc5)\<rparr>
                     else if policy = Polling then
                       (if projection = None then acc5\<lparr>accPolling := accPolling acc5 @ [the actionKey]\<rparr> else acc5)
                     else acc5\<lparr>accDetect := accDetect acc5 @ [the actionKey]\<rparr>)))"

definition resultValue :: "tool_result \<Rightarrow> jsobj" where
  "resultValue r = [(''toolName'', JString (resultToolName r)), (''content'', resultContent r),
     (''isError'', JBool (resultIsError r))]
     @ (if resultDetails r = JUndefined then [] else [(''details'', resultDetails r)])"

definition projectResult :: "step_env \<Rightarrow> tool_result \<Rightarrow> step_acc \<Rightarrow> step_acc" where
  "projectResult env r acc =
     (if resultCallId r \<in> set (envExcluded env) then acc
      else
        (let policy = policy_kind_of (envPolicies env (resultToolName r));
             acc1 = (if policy = Detect then
                 (let resultKey = step_fingerprint env (accState acc) (resultValue r)
                  in if truthy_opt resultKey then acc\<lparr>accResult := accResult acc @ [the resultKey]\<rparr>
                     else acc\<lparr>accState := skip_fingerprints 1 (accState acc)\<rparr>)
               else acc)
         in if \<not> resultIsError r \<or> policy = Exempt \<or> resultCallId r \<in> set (accExpected acc1) then acc1
            else (case errorFamily (resultToolName r) (resultDetails r) (resultContent r) of
                None \<Rightarrow> acc1
              | Some family \<Rightarrow>
                  (let actionKey = map_of (accActionKeys acc1) (resultCallId r);
                       key = step_fingerprint env (accState acc1)
                         [(''family'', JString family),
                          (''actionKey'', case actionKey of None \<Rightarrow> JNull | Some k \<Rightarrow> JString k)]
                   in if \<not> truthy_opt key then acc1\<lparr>accState := skip_fingerprints 1 (accState acc1)\<rparr>
                      else (let acc2 = acc1\<lparr>accFamilies := accFamilies acc1 @ [the key]\<rparr>
                        in if policy = Detect \<and> truthy_opt actionKey
                           then acc2\<lparr>accRemindable := List.insert (the key) (accRemindable acc2)\<rparr> else acc2)))))"

text \<open>The view of a step, and the state with the skipped fingerprints counted.\<close>

definition projectStep ::
    "(string \<Rightarrow> string \<Rightarrow> string) \<Rightarrow> message \<Rightarrow> tool_result list \<Rightarrow> shadow_state \<Rightarrow> (string \<Rightarrow> tool_policy option)
     \<Rightarrow> nat \<Rightarrow> (string \<Rightarrow> jsval option) \<Rightarrow> (string \<Rightarrow> jsval option) \<Rightarrow> string list \<Rightarrow> step_view \<times> shadow_state" where
  "projectStep hmac message toolResults st policies maxBytes verified provenance blockedByPermission =
     (let env = \<lparr>envHmac = hmac, envPolicies = policies, envMaxBytes = maxBytes, envVerified = verified,
            envProvenance = provenance, envExcluded = blockedByPermission, envResults = toolResults\<rparr>;
          acc0 = \<lparr>accState = st, accDetect = [], accPolling = [], accResult = [], accFamilies = [],
            accRemindable = [], accProgress = [], accActionKeys = [], accExpected = []\<rparr>;
          acc1 = (case message of
              AssistantMessage blocks usage \<Rightarrow> fold (projectBlock env) blocks acc0 | OtherMessage \<Rightarrow> acc0);
          acc = fold (projectResult env) toolResults acc1;
          detect = sort (accDetect acc)
      in (\<lparr>detectActionKeys = detect, pollingActionKeys = sort (accPolling acc),
           detectResultKeys = sort (accResult acc), errorFamilyKeys = sort (accFamilies acc),
           remindableErrorFamilyKeys = accRemindable acc, viewProgress = accProgress acc,
           detectActionBatchKey = (if length detect > 0
             then Some (fingerprint hmac (secret (accState acc))
               (''action-batch'' @ [CHR 0x00] @ js_join [CHR 0x00] detect))
             else None)\<rparr>, accState acc))"

section \<open>What a projection changes\<close>

definition skip_only :: "shadow_state \<Rightarrow> shadow_state \<Rightarrow> bool" where
  "skip_only st st' \<longleftrightarrow> st' = st\<lparr>fingerprintSkippedCount := fingerprintSkippedCount st'\<rparr>"

lemma skip_only_simps [simp]:
  "skip_only st st" "skip_only st (skip_fingerprints n st') \<longleftrightarrow> skip_only st st'"
  by (cases st; cases st'; simp add: skip_only_def skip_fingerprints_def)+

lemma progressRound_skip:
  "progressRound env policy control projection step acc = (b, acc') \<Longrightarrow>
   skip_only st (accState acc') \<longleftrightarrow> skip_only st (accState acc)"
  by (auto simp: progressRound_def Let_def split: option.splits if_splits)

lemma appendPollingControl_skip:
  "skip_only st (accState (appendPollingControl env control projection name acc)) \<longleftrightarrow> skip_only st (accState acc)"
  by (simp add: appendPollingControl_def Let_def split: option.split)

lemma projectBlock_skip: "skip_only st (accState (projectBlock env b acc)) \<longleftrightarrow> skip_only st (accState acc)"
proof (cases b)
  case (ToolCallBlock i name args)
  show ?thesis
    unfolding ToolCallBlock projectBlock.simps Let_def
    by (simp add: split_beta progressRound_skip [OF prod.collapse [symmetric]] appendPollingControl_skip)
qed simp

lemma projectResult_skip: "skip_only st (accState (projectResult env r acc)) \<longleftrightarrow> skip_only st (accState acc)"
  by (simp add: projectResult_def Let_def split: option.split)

lemma fold_skip:
  "(\<And>b acc. skip_only st (accState (f b acc)) \<longleftrightarrow> skip_only st (accState acc)) \<Longrightarrow>
   skip_only st (accState (fold f bs acc)) \<longleftrightarrow> skip_only st (accState acc)"
  by (induction bs arbitrary: acc) simp_all

lemma projectStep_skip:
  "skip_only st (snd (projectStep hmac msg results st policies maxBytes verified provenance blocked))"
  by (simp add: projectStep_def Let_def fold_skip projectBlock_skip projectResult_skip split: message.split)

end
