(* ===== verification/RunawayDetectors.thy ===== *)
theory RunawayDetectors
  imports RunawayStepView
begin

text \<open>
  The detectors of the runaway guard (\<open>signals.ts\<close>): the counts of repeated keys, the unchanged
  progress of work targets, and alternating actions, with what each of them changes.  What the
  observer would be told is a log.
\<close>

section \<open>Observations\<close>

record run_identity =
  runSession :: string
  runTurn :: string
  runAgent :: string

record observation =
  obsRun :: run_identity
  obsKind :: signal_kind
  obsStepIndex :: nat
  obsOccurrences :: nat

text \<open>The sinks of a detection: the state, what the observer is told, and the reminder candidates.\<close>

record detection =
  detState :: shadow_state
  detLog :: "observation list"
  detCandidates :: "signal_kind list"

definition emitObservation :: "run_identity \<Rightarrow> signal_kind \<Rightarrow> nat \<Rightarrow> detection \<Rightarrow> detection" where
  "emitObservation ctx kind occurrences d =
     (let st = detState d;
          stats = signalStats st kind;
          stats' = stats\<lparr>episodeCount := episodeCount stats + 1,
            firstStepIndex := or_else (firstStepIndex stats) (Some (stepIndex st)),
            lastStepIndex := Some (stepIndex st)\<rparr>;
          st' = recordMaxOccurrences kind occurrences (st\<lparr>signalStats := (signalStats st)(kind := stats')\<rparr>)
      in d\<lparr>detState := st', detLog := detLog d @ [\<lparr>obsRun = ctx, obsKind = kind,
           obsStepIndex = stepIndex st, obsOccurrences = occurrences\<rparr>]\<rparr>)"

definition record_max :: "signal_kind \<Rightarrow> nat \<Rightarrow> detection \<Rightarrow> detection" where
  "record_max kind occurrences d = d\<lparr>detState := recordMaxOccurrences kind occurrences (detState d)\<rparr>"

definition addReminderCandidate :: "signal_kind \<Rightarrow> detection \<Rightarrow> detection" where
  "addReminderCandidate kind d = d\<lparr>detCandidates := List.insert kind (detCandidates d)\<rparr>"

definition REMINDER_CANDIDATE_PRIORITY :: "signal_kind list" where
  "REMINDER_CANDIDATE_PRIORITY = [UnchangedProgress, SameErrorFamily, ExactAction, PollingRepeat]"

definition isReminderSignalKind :: "signal_kind \<Rightarrow> bool" where
  "isReminderSignalKind kind \<longleftrightarrow> kind \<in> set REMINDER_CANDIDATE_PRIORITY"

text \<open>An occurrence count crosses a threshold in this step.\<close>

definition crosses :: "nat option \<Rightarrow> nat \<Rightarrow> nat \<Rightarrow> bool" where
  "crosses threshold prior occurrences =
     (case threshold of None \<Rightarrow> False | Some t \<Rightarrow> prior < t \<and> occurrences \<ge> t)"

section \<open>Repeated keys\<close>

definition count_of :: "(string \<times> nat) list \<Rightarrow> string \<Rightarrow> nat" where
  "count_of m k = or_default (map_of m k) 0"

definition occurrenceCounts :: "string list \<Rightarrow> (string \<times> nat) list" where
  "occurrenceCounts values = fold (\<lambda>v m. AList.update v (count_of m v + 1) m) values []"

definition repeatedRound ::
    "run_identity \<Rightarrow> (string \<times> nat) list \<Rightarrow> signal_kind \<Rightarrow> nat option \<Rightarrow> (string \<Rightarrow> bool)
     \<Rightarrow> string \<times> nat \<Rightarrow> (string \<times> nat) list \<times> detection \<Rightarrow> (string \<times> nat) list \<times> detection" where
  "repeatedRound ctx previous kind remindAfter eligible entry acc =
     (case (entry, acc) of
        ((k, n), (nxt, d)) \<Rightarrow>
          (let prior = count_of previous k;
               occurrences = prior + n;
               d1 = record_max kind occurrences d;
               d2 = (if prior < 2 \<and> occurrences \<ge> 2 then emitObservation ctx kind 2 d1 else d1);
               d3 = (if crosses remindAfter prior occurrences \<and> eligible k \<and> isReminderSignalKind kind
                 then addReminderCandidate kind d2 else d2)
           in (AList.update k occurrences nxt, d3)))"

definition observeRepeatedKeys ::
    "run_identity \<Rightarrow> (string \<times> nat) list \<Rightarrow> string list \<Rightarrow> signal_kind \<Rightarrow> nat option \<Rightarrow> (string \<Rightarrow> bool)
     \<Rightarrow> detection \<Rightarrow> (string \<times> nat) list \<times> detection" where
  "observeRepeatedKeys ctx previous current kind remindAfter eligible d =
     fold (repeatedRound ctx previous kind remindAfter eligible) (occurrenceCounts current) ([], d)"

section \<open>Progress\<close>

record progress_acc =
  progNext :: "(string \<times> progress_streak) list"
  progCandidates :: "string list"
  progDetection :: detection

definition set_streak :: "progress_observation \<Rightarrow> nat \<Rightarrow> progress_acc \<Rightarrow> progress_acc" where
  "set_streak view occurrences acc = acc\<lparr>progNext := AList.update (viewLoopKey view)
     \<lparr>streakKey = viewProgressKey view, streakOccurrences = occurrences,
      streakContinuous = viewContinuousPolling view, streakEligible = viewReminderEligible view\<rparr> (progNext acc)\<rparr>"

definition progressObserved ::
    "run_identity \<Rightarrow> (string \<times> progress_streak) list \<Rightarrow> nat option \<Rightarrow> progress_observation
     \<Rightarrow> progress_acc \<Rightarrow> progress_acc" where
  "progressObserved ctx previous remindAfter view acc =
     (let loop = viewLoopKey view;
          prior = (if viewContinuousPolling view
            then (case map_of (progNext acc) loop of
                Some s \<Rightarrow> if streakContinuous s then Some s else None | None \<Rightarrow> None)
            else map_of previous loop)
      in if viewVerifiedProgress view then
           (set_streak view 0 acc)\<lparr>progCandidates := removeAll loop (progCandidates acc)\<rparr>
         else
           (let same = (case prior of Some s \<Rightarrow> streakKey s = viewProgressKey view | None \<Rightarrow> False);
                before = (case prior of Some s \<Rightarrow> streakOccurrences s | None \<Rightarrow> 0);
                occurrences = (if same then before + 1 else 1);
                acc1 = set_streak view occurrences acc;
                acc2 = (if same then acc1 else acc1\<lparr>progCandidates := removeAll loop (progCandidates acc1)\<rparr>);
                kind = (if viewKind view = Polling then PollingRepeat else UnchangedProgress);
                d1 = record_max kind occurrences (progDetection acc2);
                d2 = (if before < 2 \<and> occurrences \<ge> 2 then emitObservation ctx kind 2 d1 else d1);
                d3 = (if crosses remindAfter before occurrences \<and> viewKind view = Detect
                  then addReminderCandidate UnchangedProgress d2 else d2)
            in acc2\<lparr>progDetection := d3, progCandidates :=
                 (if crosses remindAfter before occurrences \<and> viewContinuousPolling view \<and> viewReminderEligible view
                  then List.insert loop (progCandidates acc2) else progCandidates acc2)\<rparr>))"

fun progressRoundOf ::
    "run_identity \<Rightarrow> (string \<times> progress_streak) list \<Rightarrow> nat option \<Rightarrow> progress_view
     \<Rightarrow> progress_acc \<Rightarrow> progress_acc" where
  "progressRoundOf ctx previous remindAfter Interrupt acc =
     acc\<lparr>progNext := filter (\<lambda>p. \<not> streakContinuous (snd p)) (progNext acc), progCandidates := []\<rparr>"
| "progressRoundOf ctx previous remindAfter (Reset loop) acc =
     acc\<lparr>progNext := AList.delete loop (progNext acc), progCandidates := removeAll loop (progCandidates acc)\<rparr>"
| "progressRoundOf ctx previous remindAfter (Observation view) acc = progressObserved ctx previous remindAfter view acc"

definition observeProgress ::
    "run_identity \<Rightarrow> (string \<times> progress_streak) list \<Rightarrow> progress_view list \<Rightarrow> nat option \<Rightarrow> detection
     \<Rightarrow> (string \<times> progress_streak) list \<times> detection" where
  "observeProgress ctx previous current remindAfter d =
     (let acc = fold (progressRoundOf ctx previous remindAfter) current
            \<lparr>progNext = filter (\<lambda>p. streakContinuous (snd p)) previous, progCandidates = [], progDetection = d\<rparr>;
          polled = list_ex (\<lambda>loop. case (map_of (progNext acc) loop, remindAfter) of
              (Some s, Some t) \<Rightarrow> streakContinuous s \<and> streakEligible s \<and> streakOccurrences s \<ge> t
            | _ \<Rightarrow> False) (progCandidates acc)
      in (progNext acc,
          if polled then addReminderCandidate PollingRepeat (progDetection acc) else progDetection acc))"

section \<open>Alternating actions\<close>

definition observeAbab :: "run_identity \<Rightarrow> string option \<Rightarrow> detection \<Rightarrow> detection" where
  "observeAbab ctx current d =
     (let st = detState d
      in if \<not> truthy_opt current
         then d\<lparr>detState := st\<lparr>recentActionBatches := [], activeAbabKey := None\<rparr>\<rparr>
         else
           (let pushed = recentActionBatches st @ [the current];
                recent = (if length pushed > 4 then tl pushed else pushed);
                st1 = st\<lparr>recentActionBatches := recent\<rparr>
            in if length recent < 4 then d\<lparr>detState := st1\<rparr>
               else
                 (let a = recent ! 0; b = recent ! 1; c = recent ! 2; e = recent ! 3
                  in if a = [] \<or> b = [] \<or> a = b \<or> a \<noteq> c \<or> b \<noteq> e
                     then d\<lparr>detState := st1\<lparr>activeAbabKey := None\<rparr>\<rparr>
                     else
                       (let episode = a @ [CHR 0x00] @ b
                        in if activeAbabKey st1 = Some episode then d\<lparr>detState := st1\<rparr>
                           else emitObservation ctx AbabCycle 2
                             (d\<lparr>detState := st1\<lparr>activeAbabKey := Some episode\<rparr>\<rparr>)))))"

section \<open>What a detector changes\<close>

definition stats_only :: "detection \<Rightarrow> detection \<Rightarrow> bool" where
  "stats_only d d' \<longleftrightarrow> detState d' = (detState d)\<lparr>signalStats := signalStats (detState d')\<rparr>"

lemma stats_only_refl [simp]: "stats_only d d"
  by (simp add: stats_only_def)

lemma stats_onlyE:
  assumes "stats_only d d'" obtains g where "detState d' = (detState d)\<lparr>signalStats := g\<rparr>"
  using assms unfolding stats_only_def by blast

lemma stats_only_trans: "stats_only d d' \<Longrightarrow> stats_only d' d'' \<Longrightarrow> stats_only d d''"
  by (metis (no_types, lifting) shadow_state.update_convs(6) shadow_state.surjective stats_only_def)

lemma stats_only_update:
  "detState d'' = (detState d')\<lparr>signalStats := f\<rparr> \<Longrightarrow> stats_only d d'' \<longleftrightarrow> stats_only d d'"
  by (cases "detState d"; cases "detState d'") (simp add: stats_only_def)

lemma stats_only_basic [simp]:
  "stats_only d (emitObservation ctx kind n d') \<longleftrightarrow> stats_only d d'"
  "stats_only d (record_max kind n d') \<longleftrightarrow> stats_only d d'"
  "stats_only d (addReminderCandidate kind d') \<longleftrightarrow> stats_only d d'"
proof -
  show "stats_only d (emitObservation ctx kind n d') \<longleftrightarrow> stats_only d d'"
    by (rule stats_only_update) (simp add: emitObservation_def recordMaxOccurrences_def Let_def)
  show "stats_only d (record_max kind n d') \<longleftrightarrow> stats_only d d'"
    by (rule stats_only_update) (simp add: record_max_def recordMaxOccurrences_def Let_def)
  show "stats_only d (addReminderCandidate kind d') \<longleftrightarrow> stats_only d d'"
    by (simp add: stats_only_def addReminderCandidate_def)
qed

lemma candidates_basic [simp]:
  "detCandidates (emitObservation ctx kind n d) = detCandidates d"
  "detCandidates (record_max kind n d) = detCandidates d"
  "set (detCandidates (addReminderCandidate kind d)) = insert kind (set (detCandidates d))"
  by (simp_all add: emitObservation_def record_max_def addReminderCandidate_def Let_def)

subsection \<open>Counting\<close>

lemma count_of_update [simp]: "count_of (AList.update k n m) k' = (if k' = k then n else count_of m k')"
  by (simp add: count_of_def omap.lookup_store)

lemma counts_fold:
  "distinct (map fst m) \<Longrightarrow>
   distinct (map fst (fold (\<lambda>v m. AList.update v (count_of m v + 1) m) ks m)) \<and>
   count_of (fold (\<lambda>v m. AList.update v (count_of m v + 1) m) ks m) k = count_of m k + count_list ks k \<and>
   fst ` set (fold (\<lambda>v m. AList.update v (count_of m v + 1) m) ks m) = fst ` set m \<union> set ks"
proof (induction ks arbitrary: m)
  case (Cons v ks)
  have "distinct (map fst (AList.update v (count_of m v + 1) m))"
    using Cons.prems by (simp add: distinct_update)
  from Cons.IH [OF this] show ?case
    by (auto simp: dom_update)
qed simp

lemma occurrenceCounts_facts:
  "distinct (map fst (occurrenceCounts ks))"
  "(k, n) \<in> set (occurrenceCounts ks) \<longleftrightarrow> k \<in> set ks \<and> n = count_list ks k"
proof -
  note f = counts_fold [of "[]" ks, folded occurrenceCounts_def, simplified]
  show d: "distinct (map fst (occurrenceCounts ks))" using f by simp
  have c: "count_of (occurrenceCounts ks) k = count_list ks k" for k using f by (simp add: count_of_def)
  have "(k, n) \<in> set (occurrenceCounts ks) \<longleftrightarrow> map_of (occurrenceCounts ks) k = Some n"
    using d by simp
  also have "\<dots> \<longleftrightarrow> k \<in> fst ` set (occurrenceCounts ks) \<and> n = count_of (occurrenceCounts ks) k"
    using d by (force simp: count_of_def image_iff)
  finally show "(k, n) \<in> set (occurrenceCounts ks) \<longleftrightarrow> k \<in> set ks \<and> n = count_list ks k"
    using c f by simp
qed

lemma repeated_fold:
  assumes "fold (repeatedRound ctx prev kind t el) es (nxt, d) = (nxt', d')" "distinct (map fst es)"
  shows "stats_only d d'"
    and "count_of nxt' k = (case map_of es k of None \<Rightarrow> count_of nxt k | Some n \<Rightarrow> count_of prev k + n)"
    and "set (detCandidates d') = set (detCandidates d) \<union>
      (if isReminderSignalKind kind \<and> (\<exists>(k, n) \<in> set es. crosses t (count_of prev k) (count_of prev k + n) \<and> el k)
       then {kind} else {})"
proof -
  have "stats_only d d' \<and>
    count_of nxt' k = (case map_of es k of None \<Rightarrow> count_of nxt k | Some n \<Rightarrow> count_of prev k + n) \<and>
    set (detCandidates d') = set (detCandidates d) \<union>
      (if isReminderSignalKind kind \<and> (\<exists>(k, n) \<in> set es. crosses t (count_of prev k) (count_of prev k + n) \<and> el k)
       then {kind} else {})"
    using assms
  proof (induction es arbitrary: nxt d)
    case (Cons e es)
    obtain a n where e: "e = (a, n)" by (cases e)
    obtain nxt1 d1 where r: "repeatedRound ctx prev kind t el e (nxt, d) = (nxt1, d1)"
      by (cases "repeatedRound ctx prev kind t el e (nxt, d)")
    have s: "stats_only d d1" "nxt1 = AList.update a (count_of prev a + n) nxt"
      "set (detCandidates d1) = set (detCandidates d) \<union>
        (if isReminderSignalKind kind \<and> crosses t (count_of prev a) (count_of prev a + n) \<and> el a then {kind} else {})"
      using r by (auto simp: repeatedRound_def e Let_def split: if_splits)
    have a: "a \<notin> fst ` set es" using Cons.prems(2) e by simp
    then have n: "map_of es a = None" by (simp add: map_of_eq_None_iff)
    from Cons.IH [of nxt1 d1] Cons.prems r have IH: "stats_only d1 d'"
      "count_of nxt' k = (case map_of es k of None \<Rightarrow> count_of nxt1 k | Some n \<Rightarrow> count_of prev k + n)"
      "set (detCandidates d') = set (detCandidates d1) \<union>
        (if isReminderSignalKind kind \<and> (\<exists>(k, n) \<in> set es. crosses t (count_of prev k) (count_of prev k + n) \<and> el k)
         then {kind} else {})"
      by auto
    from IH(1) s(1) have "stats_only d d'" by (blast intro: stats_only_trans)
    moreover have "count_of nxt' k
        = (case map_of (e # es) k of None \<Rightarrow> count_of nxt k | Some n \<Rightarrow> count_of prev k + n)"
      using IH(2) s(2) e n by (auto split: option.splits)
    ultimately show ?case using IH(3) s(3) e by auto
  qed simp
  then show "stats_only d d'"
    and "count_of nxt' k = (case map_of es k of None \<Rightarrow> count_of nxt k | Some n \<Rightarrow> count_of prev k + n)"
    and "set (detCandidates d') = set (detCandidates d) \<union>
      (if isReminderSignalKind kind \<and> (\<exists>(k, n) \<in> set es. crosses t (count_of prev k) (count_of prev k + n) \<and> el k)
       then {kind} else {})"
    by blast+
qed

lemma observeRepeatedKeys_facts:
  assumes "observeRepeatedKeys ctx prev ks kind t el d = (nxt, d')"
  shows "stats_only d d'"
    and "count_of nxt k = (if k \<in> set ks then count_of prev k + count_list ks k else 0)"
    and "kind' \<in> set (detCandidates d') \<longleftrightarrow> kind' \<in> set (detCandidates d) \<or>
      (kind' = kind \<and> isReminderSignalKind kind
        \<and> (\<exists>k \<in> set ks. crosses t (count_of prev k) (count_of prev k + count_list ks k) \<and> el k))"
proof -
  note f = repeated_fold [OF assms [unfolded observeRepeatedKeys_def] occurrenceCounts_facts(1)]
  show "stats_only d d'" by (rule f(1))
  have "map_of (occurrenceCounts ks) k = (if k \<in> set ks then Some (count_list ks k) else None)"
    using occurrenceCounts_facts(2) [of k] occurrenceCounts_facts(1) [of ks]
    by (metis map_of_SomeD map_of_is_SomeI not_None_eq)
  then show "count_of nxt k = (if k \<in> set ks then count_of prev k + count_list ks k else 0)"
    using f(2) [of k] by (simp add: count_of_def)
  have "(\<exists>(k, n) \<in> set (occurrenceCounts ks). crosses t (count_of prev k) (count_of prev k + n) \<and> el k)
      \<longleftrightarrow> (\<exists>k \<in> set ks. crosses t (count_of prev k) (count_of prev k + count_list ks k) \<and> el k)"
    by (auto simp: occurrenceCounts_facts(2))
  then show "kind' \<in> set (detCandidates d') \<longleftrightarrow> kind' \<in> set (detCandidates d) \<or>
      (kind' = kind \<and> isReminderSignalKind kind
        \<and> (\<exists>k \<in> set ks. crosses t (count_of prev k) (count_of prev k + count_list ks k) \<and> el k))"
    using f(3) by auto
qed

subsection \<open>Progress and alternation\<close>

lemma progressRoundOf_frame:
  "stats_only d (progDetection (progressRoundOf ctx prev t v acc)) \<longleftrightarrow> stats_only d (progDetection acc)"
  "kind \<noteq> UnchangedProgress \<Longrightarrow>
   kind \<in> set (detCandidates (progDetection (progressRoundOf ctx prev t v acc)))
     \<longleftrightarrow> kind \<in> set (detCandidates (progDetection acc))"
  by (cases v; simp add: progressObserved_def set_streak_def Let_def)+

lemma progress_fold:
  "stats_only d (progDetection (fold (progressRoundOf ctx prev t) vs acc)) \<longleftrightarrow> stats_only d (progDetection acc)"
  "kind \<noteq> UnchangedProgress \<Longrightarrow>
   kind \<in> set (detCandidates (progDetection (fold (progressRoundOf ctx prev t) vs acc)))
     \<longleftrightarrow> kind \<in> set (detCandidates (progDetection acc))"
  by (induction vs arbitrary: acc) (simp_all add: progressRoundOf_frame)

lemma observeProgress_frame:
  assumes "observeProgress ctx prev vs t d = (nxt, d')"
  shows "stats_only d d'"
    and "kind \<noteq> UnchangedProgress \<Longrightarrow> kind \<noteq> PollingRepeat \<Longrightarrow>
      kind \<in> set (detCandidates d') \<longleftrightarrow> kind \<in> set (detCandidates d)"
  using assms by (auto simp: observeProgress_def Let_def progress_fold split: if_splits)

lemma observeAbab_frame:
  "detCandidates (observeAbab ctx b d) = detCandidates d"
  "detState (observeAbab ctx b d) = (detState d)\<lparr>
     signalStats := signalStats (detState (observeAbab ctx b d)),
     recentActionBatches := recentActionBatches (detState (observeAbab ctx b d)),
     activeAbabKey := activeAbabKey (detState (observeAbab ctx b d))\<rparr>"
  by (simp_all add: observeAbab_def emitObservation_def recordMaxOccurrences_def Let_def)

end
