(* ===== verification/RunawayProgress.thy ===== *)
theory RunawayProgress
  imports RunawayDetectors
begin

text \<open>
  What the progress detector of the runaway guard counts, stated over the events the steps of a turn
  showed: the run of equal observations of a work target, the observation at which it reaches the
  threshold, and the invariant that the stored streaks agree with both.
\<close>

section \<open>Counting from the history\<close>

text \<open>
  Events are listed the latest first.  The current run of continuous polling of a loop with a key: its
  unverified observations since the last event that ends it.
\<close>

fun run_members :: "string \<Rightarrow> string \<Rightarrow> progress_view list \<Rightarrow> progress_observation list" where
  "run_members loop key [] = []"
| "run_members loop key (Interrupt # events) = []"
| "run_members loop key (Reset l # events) = (if l = loop then [] else run_members loop key events)"
| "run_members loop key (Observation v # events) =
     (if viewLoopKey v \<noteq> loop then run_members loop key events
      else if viewContinuousPolling v \<and> \<not> viewVerifiedProgress v \<and> viewProgressKey v = key
      then v # run_members loop key events
      else [])"

text \<open>The observation with which a step settles a loop that is not polled continuously.\<close>

fun settled :: "string \<Rightarrow> progress_view list \<Rightarrow> progress_observation option" where
  "settled loop [] = None"
| "settled loop (Interrupt # events) = settled loop events"
| "settled loop (Reset l # events) = (if l = loop then None else settled loop events)"
| "settled loop (Observation v # events) =
     (if viewLoopKey v \<noteq> loop then settled loop events
      else if viewContinuousPolling v then None else Some v)"

text \<open>
  How often a loop was seen with a key, after the given steps, the latest first: continuous polling
  counts observations, everything else counts the consecutive steps that settle it unchanged.
\<close>

fun progress_run :: "string \<Rightarrow> string \<Rightarrow> progress_view list list \<Rightarrow> nat" where
  "progress_run loop key [] = 0"
| "progress_run loop key (events # steps) =
     (case settled loop events of
        Some v \<Rightarrow> if viewVerifiedProgress v \<or> viewProgressKey v \<noteq> key then 0
          else Suc (progress_run loop key steps)
      | None \<Rightarrow> length (run_members loop key (events @ concat steps)))"

text \<open>An observation reaches the threshold, after the earlier events of its step and the steps before.\<close>

fun unchanged_at :: "nat \<Rightarrow> progress_view list list \<Rightarrow> progress_view list \<Rightarrow> progress_view \<Rightarrow> bool" where
  "unchanged_at t steps events (Observation v) \<longleftrightarrow>
     viewKind v = Detect \<and> \<not> viewVerifiedProgress v \<and>
     Suc (if viewContinuousPolling v
       then length (run_members (viewLoopKey v) (viewProgressKey v) (events @ concat steps))
       else progress_run (viewLoopKey v) (viewProgressKey v) steps) = t"
| "unchanged_at t steps events view \<longleftrightarrow> False"

fun unchanged_passes :: "nat \<Rightarrow> progress_view list list \<Rightarrow> progress_view list \<Rightarrow> progress_view list \<Rightarrow> bool" where
  "unchanged_passes t steps events [] \<longleftrightarrow> False"
| "unchanged_passes t steps events (view # views) \<longleftrightarrow>
     unchanged_at t steps events view \<or> unchanged_passes t steps (view # events) views"

text \<open>
  After the events of a step, a run of continuous polling that is long enough reached the threshold in
  this very step, with an observation that may be reminded of, and the latest one may be too.
\<close>

definition run_passed :: "nat \<Rightarrow> progress_view list list \<Rightarrow> progress_view list \<Rightarrow> string \<Rightarrow> string \<Rightarrow> bool" where
  "run_passed t steps events loop key \<longleftrightarrow>
     (let run = run_members loop key (events @ concat steps)
      in t \<le> length run \<and> length run < length (run_members loop key events) + t
         \<and> viewReminderEligible (run ! (length run - t)))"

definition polling_passes :: "nat \<Rightarrow> progress_view list list \<Rightarrow> progress_view list \<Rightarrow> bool" where
  "polling_passes t steps events \<longleftrightarrow>
     list_ex (\<lambda>event. case event of
         Observation v \<Rightarrow> run_passed t steps events (viewLoopKey v) (viewProgressKey v)
           \<and> viewReminderEligible (hd (run_members (viewLoopKey v) (viewProgressKey v) (events @ concat steps)))
       | _ \<Rightarrow> False) events"

lemma polling_passes_iff:
  "polling_passes t steps events \<longleftrightarrow>
     (\<exists>v. Observation v \<in> set events \<and> run_passed t steps events (viewLoopKey v) (viewProgressKey v)
        \<and> viewReminderEligible (hd (run_members (viewLoopKey v) (viewProgressKey v) (events @ concat steps))))"
  unfolding polling_passes_def list_ex_iff
  by (auto split: progress_view.splits) (metis progress_view.exhaust)

lemma run_members_in:
  "v \<in> set (run_members loop key events) \<Longrightarrow>
   Observation v \<in> set events \<and> viewLoopKey v = loop \<and> viewProgressKey v = key"
  by (induction loop key events rule: run_members.induct) (auto split: if_splits)

lemma run_members_settled: "settled loop events = Some v \<Longrightarrow> run_members loop key (events @ rest) = []"
  by (induction loop events rule: settled.induct) (auto split: if_splits)

section \<open>The stored streaks\<close>

definition streak_ok :: "progress_view list list \<Rightarrow> progress_view list \<Rightarrow> string \<Rightarrow> progress_streak option \<Rightarrow> bool" where
  "streak_ok steps events loop so \<longleftrightarrow>
     (case so of
        None \<Rightarrow> settled loop events = None \<and> (\<forall>key. run_members loop key (events @ concat steps) = [])
      | Some s \<Rightarrow>
          if streakContinuous s then settled loop events = None
            \<and> (\<forall>key. length (run_members loop key (events @ concat steps))
                 = (if key = streakKey s then streakOccurrences s else 0))
            \<and> (streakOccurrences s \<noteq> 0 \<longrightarrow> streakEligible s
                 = viewReminderEligible (hd (run_members loop (streakKey s) (events @ concat steps))))
          else (\<exists>v. settled loop events = Some v \<and> streakKey s = viewProgressKey v
            \<and> streakOccurrences s = (if viewVerifiedProgress v then 0
                else Suc (progress_run loop (viewProgressKey v) steps))))"

definition streaks_match :: "progress_view list list \<Rightarrow> progress_view list \<Rightarrow> (string \<times> progress_streak) list \<Rightarrow> bool" where
  "streaks_match steps events streaks \<longleftrightarrow>
     distinct (map fst streaks) \<and> (\<forall>loop. streak_ok steps events loop (map_of streaks loop))"

text \<open>The streaks kept after the steps of a turn.\<close>

fun progress_ok :: "progress_view list list \<Rightarrow> (string \<times> progress_streak) list \<Rightarrow> bool" where
  "progress_ok [] streaks \<longleftrightarrow> streaks = []"
| "progress_ok (events # steps) streaks \<longleftrightarrow> streaks_match steps events streaks"

text \<open>What the stored streak of a loop says of the current run of polling.\<close>

lemma streak_ok_run:
  assumes "streak_ok steps events loop so"
  shows "length (run_members loop key (events @ concat steps)) =
    (case so of None \<Rightarrow> 0 | Some s \<Rightarrow> if streakContinuous s \<and> key = streakKey s then streakOccurrences s else 0)"
proof (cases so)
  case (Some s)
  show ?thesis
  proof (cases "streakContinuous s")
    case True
    with assms Some have "\<forall>key. length (run_members loop key (events @ concat steps))
        = (if key = streakKey s then streakOccurrences s else 0)"
      by (simp add: streak_ok_def)
    then show ?thesis using Some True by simp
  next
    case False
    with assms Some obtain v where "settled loop events = Some v" by (auto simp: streak_ok_def)
    from run_members_settled [OF this] Some False show ?thesis by simp
  qed
qed (use assms in \<open>simp add: streak_ok_def\<close>)

lemma streak_ok_count:
  assumes "streak_ok steps events loop so"
  shows "progress_run loop key (events # steps) =
    (case so of None \<Rightarrow> 0 | Some s \<Rightarrow> if key = streakKey s then streakOccurrences s else 0)"
proof (cases so)
  case None
  with streak_ok_run [OF assms, of key] assms show ?thesis by (simp add: streak_ok_def)
next
  case (Some s)
  show ?thesis
  proof (cases "streakContinuous s")
    case True
    with assms Some have "settled loop events = None" by (simp add: streak_ok_def)
    then show ?thesis using streak_ok_run [OF assms, of key] Some True by simp
  next
    case False
    with assms Some show ?thesis by (auto simp: streak_ok_def)
  qed
qed

lemma progress_ok_count:
  "progress_ok steps streaks \<Longrightarrow> progress_run loop key steps = (case map_of streaks loop of
     None \<Rightarrow> 0 | Some s \<Rightarrow> if key = streakKey s then streakOccurrences s else 0)"
proof (cases steps)
  case (Cons events older)
  assume "progress_ok steps streaks"
  then have "streak_ok older events loop (map_of streaks loop)" by (simp add: Cons streaks_match_def)
  from streak_ok_count [OF this] show ?thesis by (simp add: Cons)
qed simp

lemma map_of_filter_value:
  "distinct (map fst m) \<Longrightarrow> map_of (filter (\<lambda>p. P (snd p)) m) k =
     (case map_of m k of None \<Rightarrow> None | Some v \<Rightarrow> if P v then Some v else None)"
  by (induction m) (auto simp: map_of_eq_None_iff split: option.splits)

lemma distinct_filter_keys: "distinct (map fst m) \<Longrightarrow> distinct (map fst (filter P m))"
  by (simp add: distinct_map_filter)

text \<open>A step starts with the continuous streaks of the one before.\<close>

lemma streaks_match_start:
  "progress_ok steps streaks \<Longrightarrow> streaks_match steps [] (filter (\<lambda>p. streakContinuous (snd p)) streaks)"
proof (cases steps)
  case Nil
  assume "progress_ok steps streaks"
  then show ?thesis by (simp add: Nil streaks_match_def streak_ok_def)
next
  case (Cons events older)
  assume "progress_ok steps streaks"
  then have m: "distinct (map fst streaks)" "streak_ok older events loop (map_of streaks loop)" for loop
    by (simp_all add: Cons streaks_match_def)
  have "streak_ok steps [] loop (map_of (filter (\<lambda>p. streakContinuous (snd p)) streaks) loop)" for loop
  proof (cases "map_of streaks loop")
    case None
    with m(2) [of loop] m(1) show ?thesis by (simp add: map_of_filter_value streak_ok_def Cons)
  next
    case (Some s)
    show ?thesis
    proof (cases "streakContinuous s")
      case True
      with m(2) [of loop] m(1) Some show ?thesis by (simp add: map_of_filter_value streak_ok_def Cons)
    next
      case False
      with m(2) [of loop] Some obtain v where "settled loop events = Some v" by (auto simp: streak_ok_def)
      from run_members_settled [OF this] m(1) Some False show ?thesis
        by (simp add: map_of_filter_value streak_ok_def Cons)
    qed
  qed
  with m(1) show ?thesis by (simp add: streaks_match_def distinct_filter_keys)
qed

section \<open>One event\<close>

definition prior_streak :: "(string \<times> progress_streak) list \<Rightarrow> progress_observation \<Rightarrow> progress_acc \<Rightarrow> progress_streak option" where
  "prior_streak previous v acc =
     (if viewContinuousPolling v
      then (case map_of (progNext acc) (viewLoopKey v) of
          Some s \<Rightarrow> if streakContinuous s then Some s else None | None \<Rightarrow> None)
      else map_of previous (viewLoopKey v))"

definition prior_count :: "progress_view list list \<Rightarrow> progress_view list \<Rightarrow> progress_observation \<Rightarrow> nat" where
  "prior_count steps events v =
     (if viewContinuousPolling v
      then length (run_members (viewLoopKey v) (viewProgressKey v) (events @ concat steps))
      else progress_run (viewLoopKey v) (viewProgressKey v) steps)"

lemma prior_count_streak:
  "progress_ok steps previous \<Longrightarrow> streak_ok steps events (viewLoopKey v) (map_of (progNext acc) (viewLoopKey v)) \<Longrightarrow>
   prior_count steps events v = (case prior_streak previous v acc of None \<Rightarrow> 0
     | Some s \<Rightarrow> if viewProgressKey v = streakKey s then streakOccurrences s else 0)"
  by (auto simp: prior_count_def prior_streak_def progress_ok_count streak_ok_run split: option.splits)

lemma observed_verified:
  "viewVerifiedProgress v \<Longrightarrow> progressObserved ctx previous t v acc =
     (set_streak v 0 acc)\<lparr>progCandidates := removeAll (viewLoopKey v) (progCandidates acc)\<rparr>"
  by (simp add: progressObserved_def Let_def)

lemma observed_unverified:
  fixes ctx :: run_identity
  assumes "progress_ok steps previous"
    "streak_ok steps events (viewLoopKey v) (map_of (progNext acc) (viewLoopKey v))"
    "\<not> viewVerifiedProgress v" "2 \<le> t"
  defines "n \<equiv> prior_count steps events v"
    and "acc' \<equiv> progressObserved ctx previous (Some t) v acc"
  shows "progNext acc' = progNext (set_streak v (Suc n) acc)"
    and "UnchangedProgress \<in> set (detCandidates (progDetection acc')) \<longleftrightarrow>
      UnchangedProgress \<in> set (detCandidates (progDetection acc)) \<or> (viewKind v = Detect \<and> Suc n = t)"
    and "loop \<noteq> viewLoopKey v \<Longrightarrow> loop \<in> set (progCandidates acc') \<longleftrightarrow> loop \<in> set (progCandidates acc)"
    and "n \<noteq> 0 \<Longrightarrow> viewLoopKey v \<in> set (progCandidates acc') \<longleftrightarrow> viewLoopKey v \<in> set (progCandidates acc)
      \<or> (Suc n = t \<and> viewContinuousPolling v \<and> viewReminderEligible v)"
    and "n = 0 \<Longrightarrow> viewLoopKey v \<in> set (progCandidates acc') \<Longrightarrow> viewLoopKey v \<in> set (progCandidates acc)
      \<and> (\<exists>s. prior_streak previous v acc = Some s \<and> streakKey s = viewProgressKey v)"
proof -
  define same where "same = (case prior_streak previous v acc of
    Some s \<Rightarrow> streakKey s = viewProgressKey v | None \<Rightarrow> False)"
  define before where "before = (case prior_streak previous v acc of
    Some s \<Rightarrow> streakOccurrences s | None \<Rightarrow> 0)"
  have n: "n = (if same then before else 0)"
    using prior_count_streak [OF assms(1,2)] by (auto simp: n_def same_def before_def split: option.splits)
  have occ: "(if same then before + 1 else 1) = Suc n" using n by simp
  have crossed: "crosses (Some t) before (Suc n) \<longleftrightarrow> Suc n = t"
    using n assms(4) by (auto simp: crosses_def)
  have some: "same \<Longrightarrow> \<exists>s. prior_streak previous v acc = Some s \<and> streakKey s = viewProgressKey v"
    by (auto simp: same_def split: option.splits)
  note eq = acc'_def [unfolded progressObserved_def Let_def, folded prior_streak_def, folded same_def before_def,
    unfolded occ crossed, unfolded set_streak_def]
  show "progNext acc' = progNext (set_streak v (Suc n) acc)"
    using assms(3) by (simp add: eq set_streak_def)
  show "UnchangedProgress \<in> set (detCandidates (progDetection acc')) \<longleftrightarrow>
      UnchangedProgress \<in> set (detCandidates (progDetection acc)) \<or> (viewKind v = Detect \<and> Suc n = t)"
    using assms(3) by (simp add: eq) blast
  show "loop \<noteq> viewLoopKey v \<Longrightarrow> loop \<in> set (progCandidates acc') \<longleftrightarrow> loop \<in> set (progCandidates acc)"
    using assms(3) by (simp add: eq)
  show "n \<noteq> 0 \<Longrightarrow> viewLoopKey v \<in> set (progCandidates acc') \<longleftrightarrow> viewLoopKey v \<in> set (progCandidates acc)
      \<or> (Suc n = t \<and> viewContinuousPolling v \<and> viewReminderEligible v)"
    using assms(3) n by (auto simp: eq split: if_splits)
  show "n = 0 \<Longrightarrow> viewLoopKey v \<in> set (progCandidates acc') \<Longrightarrow> viewLoopKey v \<in> set (progCandidates acc)
      \<and> (\<exists>s. prior_streak previous v acc = Some s \<and> streakKey s = viewProgressKey v)"
    using assms(3,4) some by (auto simp: eq split: if_splits)
qed

definition candidates_match ::
    "nat \<Rightarrow> progress_view list list \<Rightarrow> progress_view list \<Rightarrow> progress_acc \<Rightarrow> bool" where
  "candidates_match t steps events acc \<longleftrightarrow>
     (\<forall>loop s. map_of (progNext acc) loop = Some s \<and> streakContinuous s \<longrightarrow>
       (loop \<in> set (progCandidates acc) \<longleftrightarrow> run_passed t steps events loop (streakKey s)))"

lemma other_loop:
  "l \<noteq> loop \<Longrightarrow> streak_ok steps (Reset l # events) loop so = streak_ok steps events loop so"
  "l \<noteq> loop \<Longrightarrow> run_passed t steps (Reset l # events) loop key = run_passed t steps events loop key"
  "viewLoopKey v \<noteq> loop \<Longrightarrow> streak_ok steps (Observation v # events) loop so = streak_ok steps events loop so"
  "viewLoopKey v \<noteq> loop \<Longrightarrow>
   run_passed t steps (Observation v # events) loop key = run_passed t steps events loop key"
  by (cases so; simp add: streak_ok_def run_passed_def)+

text \<open>The stored streak after an observation of its loop.\<close>

lemma streak_ok_observed:
  assumes "streak_ok steps events (viewLoopKey v) so"
  shows "streak_ok steps (Observation v # events) (viewLoopKey v)
    (Some \<lparr>streakKey = viewProgressKey v,
       streakOccurrences = (if viewVerifiedProgress v then 0 else Suc (prior_count steps events v)),
       streakContinuous = viewContinuousPolling v, streakEligible = viewReminderEligible v\<rparr>)"
  by (simp add: streak_ok_def prior_count_def)

lemma run_passed_observed:
  fixes steps :: "progress_view list list" and events :: "progress_view list"
  assumes "viewContinuousPolling v" "\<not> viewVerifiedProgress v" "2 \<le> t"
  defines "n \<equiv> prior_count steps events v"
  shows "run_passed t steps (Observation v # events) (viewLoopKey v) (viewProgressKey v) \<longleftrightarrow>
    (if n = 0 then False
     else (Suc n = t \<and> viewReminderEligible v) \<or> run_passed t steps events (viewLoopKey v) (viewProgressKey v))"
proof -
  let ?run = "run_members (viewLoopKey v) (viewProgressKey v) (events @ concat steps)"
  have n: "n = length ?run" using assms(1) by (simp add: n_def prior_count_def)
  consider "Suc (length ?run) < t" | "Suc (length ?run) = t" | "t \<le> length ?run" by linarith
  then show ?thesis
  proof cases
    case 3
    then have "(v # ?run) ! (Suc (length ?run) - t) = ?run ! (length ?run - t)" by (simp add: Suc_diff_le)
    with 3 assms(1-3) show ?thesis by (auto simp: run_passed_def n Let_def)
  qed (use assms(1-3) in \<open>auto simp: run_passed_def n Let_def\<close>)
qed

lemma run_passed_verified:
  "viewVerifiedProgress v \<Longrightarrow> 2 \<le> t \<Longrightarrow> \<not> run_passed t steps (Observation v # events) (viewLoopKey v) key"
  by (simp add: run_passed_def)

text \<open>Each event keeps the streaks and the polling candidates as the history has them.\<close>

lemma event_interrupt:
  fixes ctx :: run_identity and previous :: "(string \<times> progress_streak) list" and t :: "nat option"
  assumes "streaks_match steps events (progNext acc)"
  defines "acc' \<equiv> progressRoundOf ctx previous t Interrupt acc"
  shows "streaks_match steps (Interrupt # events) (progNext acc')"
    and "candidates_match t' steps (Interrupt # events) acc'"
proof -
  have m: "distinct (map fst (progNext acc))" "streak_ok steps events loop (map_of (progNext acc) loop)" for loop
    using assms(1) by (simp_all add: streaks_match_def)
  have kept: "map_of (progNext acc') loop = (case map_of (progNext acc) loop of None \<Rightarrow> None
      | Some s \<Rightarrow> if \<not> streakContinuous s then Some s else None)" for loop
    unfolding acc'_def using map_of_filter_value [OF m(1), of "\<lambda>s. \<not> streakContinuous s"] by simp
  have "streak_ok steps (Interrupt # events) loop (map_of (progNext acc') loop)" for loop
    using m(2) [of loop] unfolding kept streak_ok_def by (auto split: option.splits if_splits)
  with m(1) show "streaks_match steps (Interrupt # events) (progNext acc')"
    by (simp add: streaks_match_def acc'_def distinct_filter_keys)
  show "candidates_match t' steps (Interrupt # events) acc'"
    unfolding candidates_match_def kept by (auto split: option.splits if_splits)
qed

lemma event_reset:
  fixes l :: string and ctx :: run_identity and previous :: "(string \<times> progress_streak) list" and t :: "nat option"
  assumes "streaks_match steps events (progNext acc)" "candidates_match t' steps events acc"
  defines "acc' \<equiv> progressRoundOf ctx previous t (Reset l) acc"
  shows "streaks_match steps (Reset l # events) (progNext acc')"
    and "candidates_match t' steps (Reset l # events) acc'"
proof -
  have m: "distinct (map fst (progNext acc))" "streak_ok steps events loop (map_of (progNext acc) loop)" for loop
    using assms(1) by (simp_all add: streaks_match_def)
  have kept: "map_of (progNext acc') loop = (if loop = l then None else map_of (progNext acc) loop)" for loop
    by (simp add: acc'_def delete_conv')
  have "streak_ok steps (Reset l # events) loop (map_of (progNext acc') loop)" for loop
    using m(2) [of loop] by (cases "l = loop") (simp_all add: kept other_loop, simp add: streak_ok_def)
  with m(1) show "streaks_match steps (Reset l # events) (progNext acc')"
    by (simp add: streaks_match_def acc'_def distinct_delete)
  show "candidates_match t' steps (Reset l # events) acc'"
    using assms(2) unfolding candidates_match_def kept by (auto simp: acc'_def other_loop)
qed

lemma event_verified:
  fixes ctx :: run_identity and previous :: "(string \<times> progress_streak) list" and t :: "nat option"
  assumes "streaks_match steps events (progNext acc)" "candidates_match t' steps events acc"
    "viewVerifiedProgress v" "2 \<le> t'"
  defines "acc' \<equiv> progressRoundOf ctx previous t (Observation v) acc"
  shows "streaks_match steps (Observation v # events) (progNext acc')"
    and "candidates_match t' steps (Observation v # events) acc'"
proof -
  have m: "distinct (map fst (progNext acc))" "streak_ok steps events loop (map_of (progNext acc) loop)" for loop
    using assms(1) by (simp_all add: streaks_match_def)
  have kept: "map_of (progNext acc') loop = (if loop = viewLoopKey v then Some \<lparr>streakKey = viewProgressKey v,
      streakOccurrences = 0, streakContinuous = viewContinuousPolling v, streakEligible = viewReminderEligible v\<rparr>
      else map_of (progNext acc) loop)" for loop
    by (simp add: acc'_def observed_verified assms(3) set_streak_def update_conv')
  have "streak_ok steps (Observation v # events) loop (map_of (progNext acc') loop)" for loop
    using m(2) [of loop] streak_ok_observed [of steps events v] assms(3)
    by (cases "viewLoopKey v = loop") (simp_all add: kept other_loop)
  with m(1) show "streaks_match steps (Observation v # events) (progNext acc')"
    by (simp add: streaks_match_def acc'_def observed_verified assms(3) set_streak_def distinct_update)
  show "candidates_match t' steps (Observation v # events) acc'"
    using assms(2) unfolding candidates_match_def kept
    by (auto simp: acc'_def observed_verified assms(3) set_streak_def other_loop run_passed_verified assms(4))
qed

lemma event_unverified:
  fixes ctx :: run_identity and previous :: "(string \<times> progress_streak) list" and t :: nat
  assumes "progress_ok steps previous" "streaks_match steps events (progNext acc)"
    "candidates_match t steps events acc" "\<not> viewVerifiedProgress v" "2 \<le> t"
  defines "acc' \<equiv> progressRoundOf ctx previous (Some t) (Observation v) acc"
  shows "streaks_match steps (Observation v # events) (progNext acc')"
    and "candidates_match t steps (Observation v # events) acc'"
    and "UnchangedProgress \<in> set (detCandidates (progDetection acc'))
      \<longleftrightarrow> UnchangedProgress \<in> set (detCandidates (progDetection acc)) \<or> unchanged_at t steps events (Observation v)"
proof -
  have m: "distinct (map fst (progNext acc))" "streak_ok steps events loop (map_of (progNext acc) loop)" for loop
    using assms(2) by (simp_all add: streaks_match_def)
  let ?n = "prior_count steps events v"
  note ob = observed_unverified [OF assms(1) m(2) assms(4,5), where ctx = ctx,
    folded progressRoundOf.simps(3), folded acc'_def]
  have kept: "map_of (progNext acc') loop = (if loop = viewLoopKey v then Some \<lparr>streakKey = viewProgressKey v,
      streakOccurrences = Suc ?n, streakContinuous = viewContinuousPolling v, streakEligible = viewReminderEligible v\<rparr>
      else map_of (progNext acc) loop)" for loop
    by (simp add: ob(1) set_streak_def update_conv')
  have "streak_ok steps (Observation v # events) loop (map_of (progNext acc') loop)" for loop
    using m(2) [of loop] streak_ok_observed [of steps events v] assms(4)
    by (cases "viewLoopKey v = loop") (simp_all add: kept other_loop)
  with m(1) show "streaks_match steps (Observation v # events) (progNext acc')"
    by (simp add: streaks_match_def ob(1) set_streak_def distinct_update)
  show "UnchangedProgress \<in> set (detCandidates (progDetection acc'))
      \<longleftrightarrow> UnchangedProgress \<in> set (detCandidates (progDetection acc)) \<or> unchanged_at t steps events (Observation v)"
    using ob(2) assms(4) by (simp add: prior_count_def)
  have "viewLoopKey v \<in> set (progCandidates acc') \<longleftrightarrow>
      run_passed t steps (Observation v # events) (viewLoopKey v) (viewProgressKey v)"
    if cont: "viewContinuousPolling v"
  proof -
    note prior = prior_count_streak [OF assms(1) m(2), of v]
    have before: "viewLoopKey v \<in> set (progCandidates acc) \<longleftrightarrow>
        run_passed t steps events (viewLoopKey v) (streakKey s)" if "prior_streak previous v acc = Some s" for s
      using that cont assms(3)
      by (auto simp: candidates_match_def prior_streak_def split: option.splits if_splits)
    show ?thesis
    proof (cases "?n = 0")
      case True
      have "viewLoopKey v \<notin> set (progCandidates acc')"
      proof
        assume "viewLoopKey v \<in> set (progCandidates acc')"
        with ob(5) True obtain s where "prior_streak previous v acc = Some s" "streakKey s = viewProgressKey v"
          "viewLoopKey v \<in> set (progCandidates acc)" by blast
        with before have "run_passed t steps events (viewLoopKey v) (viewProgressKey v)" by auto
        with True cont assms(5) show False by (simp add: run_passed_def prior_count_def)
      qed
      with True show ?thesis using run_passed_observed [OF cont assms(4,5)] by simp
    next
      case False
      then obtain s where "prior_streak previous v acc = Some s" "streakKey s = viewProgressKey v"
        using prior by (auto split: option.splits if_splits)
      with before False show ?thesis using run_passed_observed [OF cont assms(4,5)] ob(4) cont by auto
    qed
  qed
  then show "candidates_match t steps (Observation v # events) acc'"
    using assms(3) ob(3) unfolding candidates_match_def kept by (auto simp: other_loop)
qed

section \<open>One step\<close>

lemma fold_match:
  assumes "progress_ok steps previous" "2 \<le> t"
  shows "streaks_match steps events (progNext acc) \<Longrightarrow> candidates_match t steps events acc \<Longrightarrow>
    acc' = fold (progressRoundOf ctx previous (Some t)) views acc \<Longrightarrow>
    streaks_match steps (rev views @ events) (progNext acc') \<and>
    candidates_match t steps (rev views @ events) acc' \<and>
    (UnchangedProgress \<in> set (detCandidates (progDetection acc'))
      \<longleftrightarrow> UnchangedProgress \<in> set (detCandidates (progDetection acc)) \<or> unchanged_passes t steps events views)"
proof (induction views arbitrary: events acc)
  case (Cons view views)
  let ?acc = "progressRoundOf ctx previous (Some t) view acc"
  have "streaks_match steps (view # events) (progNext ?acc) \<and> candidates_match t steps (view # events) ?acc
    \<and> (UnchangedProgress \<in> set (detCandidates (progDetection ?acc))
      \<longleftrightarrow> UnchangedProgress \<in> set (detCandidates (progDetection acc)) \<or> unchanged_at t steps events view)"
  proof (cases view)
    case (Observation v)
    show ?thesis
    proof (cases "viewVerifiedProgress v")
      case True
      then show ?thesis
        using event_verified [OF Cons.prems(1,2) True assms(2)]
        by (simp add: Observation observed_verified set_streak_def)
    next
      case False
      from event_unverified [OF assms(1) Cons.prems(1,2) False assms(2)] show ?thesis
        unfolding Observation by blast
    qed
  next
    case (Reset l)
    then show ?thesis using event_reset [OF Cons.prems(1,2)] by simp
  next
    case Interrupt
    then show ?thesis using event_interrupt [OF Cons.prems(1)] by simp
  qed
  with Cons.IH [of "view # events" ?acc] Cons.prems(3) show ?case by auto
qed simp

lemma progNext_threshold:
  "progNext acc = progNext other \<Longrightarrow>
   progNext (fold (progressRoundOf ctx previous t) views acc)
     = progNext (fold (progressRoundOf ctx previous t') views other)"
proof (induction views arbitrary: acc other)
  case (Cons view views)
  have "progNext (progressRoundOf ctx previous t view acc) = progNext (progressRoundOf ctx previous t' view other)"
    using Cons.prems by (cases view) (simp_all add: progressObserved_def set_streak_def Let_def)
  from Cons.IH [OF this] show ?case by simp
qed simp

text \<open>The runs that are long enough are those of the stored continuous streaks.\<close>

lemma polled_streak:
  assumes "streaks_match steps events streaks" "t \<noteq> 0"
  shows "(\<exists>loop s. map_of streaks loop = Some s \<and> streakContinuous s \<and> run_passed t steps events loop (streakKey s)
      \<and> streakEligible s \<and> t \<le> streakOccurrences s) \<longleftrightarrow> polling_passes t steps events" (is "?l \<longleftrightarrow> ?r")
proof
  have ok: "streak_ok steps events loop (map_of streaks loop)" for loop
    using assms(1) by (simp add: streaks_match_def)
  {
    assume ?l
    then obtain loop s where s: "map_of streaks loop = Some s" "streakContinuous s"
      "run_passed t steps events loop (streakKey s)" "streakEligible s" "t \<le> streakOccurrences s" by blast
    then have "run_members loop (streakKey s) events \<noteq> []" by (auto simp: run_passed_def Let_def)
    then obtain v where "Observation v \<in> set events" "viewLoopKey v = loop" "viewProgressKey v = streakKey s"
      using run_members_in [OF hd_in_set] by blast
    moreover have "viewReminderEligible (hd (run_members loop (streakKey s) (events @ concat steps)))"
      using ok [of loop] s assms(2) by (simp add: streak_ok_def)
    ultimately show ?r using s(3) by (auto simp: polling_passes_iff)
  }
  {
    assume ?r
    then obtain v :: progress_observation where v: "run_passed t steps events (viewLoopKey v) (viewProgressKey v)"
      "viewReminderEligible (hd (run_members (viewLoopKey v) (viewProgressKey v) (events @ concat steps)))"
      unfolding polling_passes_iff by blast
    then have long: "t \<le> length (run_members (viewLoopKey v) (viewProgressKey v) (events @ concat steps))"
      by (simp add: run_passed_def Let_def)
    with streak_ok_run [OF ok, of "viewLoopKey v" "viewProgressKey v"] assms(2)
    obtain s where s: "map_of streaks (viewLoopKey v) = Some s" "streakContinuous s"
        "streakKey s = viewProgressKey v" "t \<le> streakOccurrences s"
      by (auto split: option.splits if_splits)
    moreover have "streakEligible s"
      using ok [of "viewLoopKey v"] s v(2) assms(2) by (simp add: streak_ok_def)
    ultimately show ?l using v(1) by metis
  }
qed

lemma observeProgress_facts:
  assumes "observeProgress ctx previous views t d = (nxt, d')" "progress_ok steps previous"
  shows "progress_ok (rev views # steps) nxt"
    and "t = Some n \<Longrightarrow> 2 \<le> n \<Longrightarrow> UnchangedProgress \<in> set (detCandidates d') \<longleftrightarrow>
      UnchangedProgress \<in> set (detCandidates d) \<or> unchanged_passes n steps [] views"
    and "t = Some n \<Longrightarrow> 2 \<le> n \<Longrightarrow> PollingRepeat \<in> set (detCandidates d') \<longleftrightarrow>
      PollingRepeat \<in> set (detCandidates d) \<or> polling_passes n steps (rev views)"
proof -
  let ?start = "\<lparr>progNext = filter (\<lambda>p. streakContinuous (snd p)) previous, progCandidates = [], progDetection = d\<rparr>"
  let ?acc = "\<lambda>t. fold (progressRoundOf ctx previous t) views ?start"
  have start: "streaks_match steps [] (progNext ?start)"
    using streaks_match_start [OF assms(2)] by simp
  have cands: "candidates_match n steps [] ?start" if "2 \<le> n" for n
    using that by (auto simp: candidates_match_def run_passed_def Let_def)
  have fold: "streaks_match steps (rev views) (progNext (?acc (Some n)))"
    "candidates_match n steps (rev views) (?acc (Some n))"
    "UnchangedProgress \<in> set (detCandidates (progDetection (?acc (Some n)))) \<longleftrightarrow>
      UnchangedProgress \<in> set (detCandidates d) \<or> unchanged_passes n steps [] views" if "2 \<le> n" for n
    using fold_match [OF assms(2) that start cands [OF that] refl, of views ctx] by simp_all
  have "nxt = progNext (?acc t)" using assms(1) by (auto simp: observeProgress_def Let_def)
  then have nxt: "nxt = progNext (?acc (Some 2))" using progNext_threshold [OF refl] by metis
  then show "progress_ok (rev views # steps) nxt" using fold(1) [of 2] by simp
  assume t: "t = Some n" "2 \<le> n"
  note f = fold [OF t(2)]
  have "d' = snd (observeProgress ctx previous views (Some n) d)" using assms(1) t(1) by simp
  then have polled: "d' = (if list_ex (\<lambda>loop. case map_of (progNext (?acc (Some n))) loop of
        Some s \<Rightarrow> streakContinuous s \<and> streakEligible s \<and> n \<le> streakOccurrences s | None \<Rightarrow> False)
      (progCandidates (?acc (Some n)))
    then addReminderCandidate PollingRepeat (progDetection (?acc (Some n))) else progDetection (?acc (Some n)))"
    by (simp add: observeProgress_def Let_def cong: option.case_cong)
  show "UnchangedProgress \<in> set (detCandidates d') \<longleftrightarrow>
      UnchangedProgress \<in> set (detCandidates d) \<or> unchanged_passes n steps [] views"
    using f unfolding polled by simp
  have "list_ex (\<lambda>loop. case map_of (progNext (?acc (Some n))) loop of
        Some s \<Rightarrow> streakContinuous s \<and> streakEligible s \<and> n \<le> streakOccurrences s | None \<Rightarrow> False)
      (progCandidates (?acc (Some n))) \<longleftrightarrow> polling_passes n steps (rev views)"
  proof -
    have "(loop \<in> set (progCandidates (?acc (Some n))) \<and> streakContinuous s \<and> streakEligible s \<and> n \<le> streakOccurrences s)
        \<longleftrightarrow> (streakContinuous s \<and> run_passed n steps (rev views) loop (streakKey s)
          \<and> streakEligible s \<and> n \<le> streakOccurrences s)"
      if "map_of (progNext (?acc (Some n))) loop = Some s" for loop s
      using f(2) that unfolding candidates_match_def by blast
    then have "(\<exists>loop s. map_of (progNext (?acc (Some n))) loop = Some s \<and> loop \<in> set (progCandidates (?acc (Some n)))
          \<and> streakContinuous s \<and> streakEligible s \<and> n \<le> streakOccurrences s) \<longleftrightarrow> polling_passes n steps (rev views)"
      using polled_streak [OF f(1), of n] t(2) by (metis not_numeral_le_zero)
    moreover have "list_ex (\<lambda>loop. case m loop of Some s \<Rightarrow> P s | None \<Rightarrow> False) cs
        \<longleftrightarrow> (\<exists>loop s. m loop = Some s \<and> loop \<in> set cs \<and> P s)" for m :: "string \<rightharpoonup> progress_streak" and P cs
      by (auto simp: list_ex_iff split: option.splits)
    ultimately show ?thesis by simp
  qed
  then show "PollingRepeat \<in> set (detCandidates d') \<longleftrightarrow>
      PollingRepeat \<in> set (detCandidates d) \<or> polling_passes n steps (rev views)"
    unfolding polled by (simp add: progress_fold)
qed

end
