(* ===== verification/RunawayGuard.thy ===== *)
theory RunawayGuard
  imports RunawayProgress
begin

text \<open>
  One step of the runaway guard over its detectors (\<open>signals.ts\<close>), its reminder (\<open>reminder.ts\<close>), the
  guard with a state per turn (\<open>guard.ts\<close>) and the offline replay (\<open>replay.ts\<close>).  The observer and its
  failures are left out: what it would be told is a log.  The random secret of a new turn is an argument
  of the operation that creates the turn.
\<close>

section \<open>One step\<close>

definition observeStep ::
    "run_identity \<Rightarrow> step_view \<Rightarrow> nat option \<Rightarrow> shadow_state \<Rightarrow> detection" where
  "observeStep ctx view remindAfter st =
     (let d0 = \<lparr>detState = st, detLog = [], detCandidates = []\<rparr>;
          (s1, d1) = observeRepeatedKeys ctx (detectActionStreaks st) (detectActionKeys view) ExactAction
            remindAfter (\<lambda>_. True) d0;
          d1 = d1\<lparr>detState := (detState d1)\<lparr>detectActionStreaks := s1\<rparr>\<rparr>;
          (s2, d2) = observeRepeatedKeys ctx (pollingActionStreaks st) (pollingActionKeys view) PollingRepeat
            remindAfter (\<lambda>_. False) d1;
          d2 = d2\<lparr>detState := (detState d2)\<lparr>pollingActionStreaks := s2\<rparr>\<rparr>;
          (s3, d3) = observeRepeatedKeys ctx (detectResultStreaks st) (detectResultKeys view) ExactResult
            remindAfter (\<lambda>_. False) d2;
          d3 = d3\<lparr>detState := (detState d3)\<lparr>detectResultStreaks := s3\<rparr>\<rparr>;
          (s4, d4) = observeRepeatedKeys ctx (errorFamilyStreaks st) (errorFamilyKeys view) SameErrorFamily
            remindAfter (\<lambda>k. k \<in> set (remindableErrorFamilyKeys view)) d3;
          d4 = d4\<lparr>detState := (detState d4)\<lparr>errorFamilyStreaks := s4\<rparr>\<rparr>;
          (s5, d5) = observeProgress ctx (progressStreaks st) (viewProgress view) remindAfter d4;
          d5 = d5\<lparr>detState := (detState d5)\<lparr>progressStreaks := s5\<rparr>\<rparr>
      in observeAbab ctx (detectActionBatchKey view) d5)"

section \<open>The reminder\<close>

record reminder =
  reminderText :: string
  reminderObservation :: observation

definition reminderGuidance :: "signal_kind \<Rightarrow> nat option \<Rightarrow> string option" where
  "reminderGuidance kind occurrences =
     (case occurrences of
        None \<Rightarrow> None
      | Some n \<Rightarrow>
          if n = 0 then None
          else if kind = ExactAction then Some
            (''[runaway guard] The immediately repeated tool action has now occurred '' @ decimal n
             @ '' times with the same arguments. Do not repeat it unchanged. Inspect the results already ''
             @ ''available, then either change strategy with a concrete expected state change, or report the ''
             @ ''blocker. Repetition alone does not establish that the task is complete or impossible.'')
          else if kind = SameErrorFamily then Some
            (''[runaway guard] The same tool error family has now occurred '' @ decimal n @ '' times in ''
             @ ''a row. Do not retry the same route unchanged. Diagnose the cause, change one controlled ''
             @ ''variable or switch route. Do not infer that the entire task has failed from this signal.'')
          else if kind = UnchangedProgress then Some
            (''[runaway guard] Verified progress for the same work target has remained unchanged across ''
             @ decimal n @ '' attempts. Do not continue the same route without a concrete expected state ''
             @ ''change. Inspect the current artifact or state, change strategy, or explain the blocker. ''
             @ ''Unchanged observed state is not proof that the entire task has failed.'')
          else None)"

definition pollingReminderContent :: "nat option \<Rightarrow> string option" where
  "pollingReminderContent occurrences =
     (case occurrences of
        None \<Rightarrow> None
      | Some n \<Rightarrow>
          if n = 0 then None
          else Some (''<system-reminder>'' @ [LF] @ (if n = 3 then ''Three'' else decimal n)
            @ '' task_output reads for the same task have returned an unchanged status and output cursor.''
            @ '' Avoid repeated polling; you will be notified automatically and this conversation will''
            @ '' resume when the background task completes.'' @ [LF]
            @ ''This reminder applies only to the current Turn. Do not save or generalize it into Memory,''
            @ '' Skills, or other persistent instructions.'' @ [LF] @ ''</system-reminder>''))"

definition reminderContent :: "signal_kind \<Rightarrow> nat option \<Rightarrow> string option" where
  "reminderContent kind occurrences =
     (if kind = PollingRepeat then pollingReminderContent occurrences
      else map_option (\<lambda>guidance. guidance
          @ '' This is a temporary runtime reminder for the current Turn only, not a user preference or a''
          @ '' durable rule; do not save this reminder or generalize it into Memory, Skills, or other''
          @ '' persistent instruction files for future Turns or sessions.'')
        (reminderGuidance kind occurrences))"

definition takePreferredReminder ::
    "signal_kind list \<Rightarrow> run_identity \<Rightarrow> nat \<Rightarrow> shadow_state \<Rightarrow> reminder option \<times> shadow_state" where
  "takePreferredReminder candidates ctx afterOccurrences st =
     (case find (\<lambda>k. k \<in> set candidates) REMINDER_CANDIDATE_PRIORITY of
        None \<Rightarrow> (None, st)
      | Some kind \<Rightarrow>
          (case reminderContent kind (Some afterOccurrences) of
             None \<Rightarrow> (None, st)
           | Some content \<Rightarrow>
               if reminderAttempted st then (None, st)
               else (Some \<lparr>reminderText = content, reminderObservation =
                   \<lparr>obsRun = ctx, obsKind = kind, obsStepIndex = stepIndex st, obsOccurrences = afterOccurrences\<rparr>\<rparr>,
                 st\<lparr>reminderAttempted := True\<rparr>)))"

section \<open>The guard\<close>

record replay_step =
  stepMessage :: message
  stepToolResults :: "tool_result list"
  stepBlocked :: "string list"
  stepVerifiedProgress :: "jsval list"
  stepTrusted :: "jsval list"

record guard_options =
  optToolPolicies :: "string \<Rightarrow> tool_policy option"
  optMaxFingerprintBytes :: "js_number option"
  optRemindAfter :: "js_number option"

record runaway_guard =
  guardHmac :: "string \<Rightarrow> string \<Rightarrow> string"
  guardPolicies :: "string \<Rightarrow> tool_policy option"
  guardMaxBytes :: nat
  guardAfter :: "nat option"
  guardStates :: "(string \<times> shadow_state) list"

record turn_summary =
  summaryRun :: run_identity
  summaryStepCount :: nat
  summarySkipped :: nat
  summaryReminderInjected :: bool
  summarySignals :: "signal_kind \<Rightarrow> signal_stats"

definition integerAtLeast :: "js_number \<Rightarrow> nat \<Rightarrow> nat option" where
  "integerAtLeast value minimum =
     (case value of
        NotFinite \<Rightarrow> None
      | Finite v \<Rightarrow> if \<not> is_integer value \<or> v < of_nat minimum then None else Some (nat \<lfloor>v\<rfloor>))"

text \<open>\<open>None\<close> when an option is refused.\<close>

definition createRunawayGuard :: "(string \<Rightarrow> string \<Rightarrow> string) \<Rightarrow> guard_options \<Rightarrow> runaway_guard option" where
  "createRunawayGuard hmac options =
     (case (case optMaxFingerprintBytes options of
              None \<Rightarrow> Some DEFAULT_MAX_FINGERPRINT_BYTES | Some v \<Rightarrow> positiveIntegerField v) of
        None \<Rightarrow> None
      | Some maxBytes \<Rightarrow>
          (case (case optRemindAfter options of
                   None \<Rightarrow> Some None | Some v \<Rightarrow> map_option Some (integerAtLeast v 3)) of
             None \<Rightarrow> None
           | Some after \<Rightarrow> Some \<lparr>guardHmac = hmac, guardPolicies = optToolPolicies options,
               guardMaxBytes = maxBytes, guardAfter = after, guardStates = []\<rparr>))"

definition runKey :: "run_identity \<Rightarrow> string" where
  "runKey ctx = runSession ctx @ [CHR 0x00] @ runTurn ctx"

definition stateFor :: "string \<Rightarrow> runaway_guard \<Rightarrow> run_identity \<Rightarrow> shadow_state" where
  "stateFor randomBytes g ctx = or_default (map_of (guardStates g) (runKey ctx)) (newShadowState randomBytes)"

definition put_state :: "run_identity \<Rightarrow> shadow_state \<Rightarrow> runaway_guard \<Rightarrow> runaway_guard" where
  "put_state ctx st g = g\<lparr>guardStates := AList.update (runKey ctx) st (guardStates g)\<rparr>"

definition projectReplayStep ::
    "(string \<Rightarrow> string \<Rightarrow> string) \<Rightarrow> (string \<Rightarrow> tool_policy option) \<Rightarrow> nat \<Rightarrow> replay_step \<Rightarrow> shadow_state
     \<Rightarrow> step_view \<times> shadow_state" where
  "projectReplayStep hmac policies maxBytes step st =
     (let toolCallIds = toolCallIdsFromMessage (stepMessage step)
      in projectStep hmac (stepMessage step) (stepToolResults step) st policies maxBytes
           (verifiedProgressMap (stepVerifiedProgress step) toolCallIds)
           (trustedToolProvenanceMap (stepTrusted step) toolCallIds) (stepBlocked step))"

definition observe ::
    "string \<Rightarrow> run_identity \<Rightarrow> replay_step \<Rightarrow> bool \<Rightarrow> runaway_guard
     \<Rightarrow> reminder option \<times> observation list \<times> runaway_guard" where
  "observe randomBytes ctx step shouldRemind g =
     (let st0 = stateFor randomBytes g ctx;
          st1 = st0\<lparr>stepIndex := stepIndex st0 + 1\<rparr>;
          (view, st2) = projectReplayStep (guardHmac g) (guardPolicies g) (guardMaxBytes g) step st1;
          threshold = (if shouldRemind then guardAfter g else None);
          d = observeStep ctx view threshold st2
      in case threshold of
           None \<Rightarrow> (None, detLog d, put_state ctx (detState d) g)
         | Some t \<Rightarrow>
             (let (rem, st3) = takePreferredReminder (detCandidates d) ctx t (detState d)
              in (rem, detLog d, put_state ctx st3 g)))"

definition guardClear :: "run_identity \<Rightarrow> runaway_guard \<Rightarrow> runaway_guard" where
  "guardClear ctx g =
     (case map_of (guardStates g) (runKey ctx) of
        None \<Rightarrow> g | Some st \<Rightarrow> put_state ctx (clearDetectionStreaks st) g)"

definition markReminderInjected :: "run_identity \<Rightarrow> runaway_guard \<Rightarrow> runaway_guard" where
  "markReminderInjected ctx g =
     (case map_of (guardStates g) (runKey ctx) of
        None \<Rightarrow> g | Some st \<Rightarrow> put_state ctx (st\<lparr>reminderInjected := True\<rparr>) g)"

definition snapshotTurnSummary :: "run_identity \<Rightarrow> shadow_state \<Rightarrow> turn_summary" where
  "snapshotTurnSummary ctx st =
     \<lparr>summaryRun = ctx, summaryStepCount = stepIndex st, summarySkipped = fingerprintSkippedCount st,
      summaryReminderInjected = reminderInjected st, summarySignals = signalStats st\<rparr>"

definition finishTurn :: "run_identity \<Rightarrow> runaway_guard \<Rightarrow> turn_summary option \<times> runaway_guard" where
  "finishTurn ctx g =
     (case map_of (guardStates g) (runKey ctx) of
        None \<Rightarrow> (None, g)
      | Some st \<Rightarrow> (Some (snapshotTurnSummary ctx st),
          g\<lparr>guardStates := AList.delete (runKey ctx) (guardStates g)\<rparr>))"

section \<open>Replay\<close>

record replay_metrics =
  toolCallCount :: nat
  providerTokens :: int
  firstSignalStepIndex :: "nat option"
  postSignalStepCount :: nat
  postSignalToolCallCount :: nat
  postSignalProviderTokens :: int

text \<open>Token counts are integers.\<close>

fun assistantMessageTokens :: "message \<Rightarrow> int" where
  "assistantMessageTokens (AssistantMessage blocks usage) =
     (case field usage ''totalTokens'' of JNumber n \<Rightarrow> if n \<ge> 0 then n else 0 | _ \<Rightarrow> 0)"
| "assistantMessageTokens OtherMessage = 0"

definition replayMetrics :: "replay_step list \<Rightarrow> observation list \<Rightarrow> replay_metrics" where
  "replayMetrics steps observations =
     (let first = fold (\<lambda>ob m. case m of None \<Rightarrow> Some (obsStepIndex ob)
            | Some i \<Rightarrow> Some (min i (obsStepIndex ob))) observations None;
          calls = (\<lambda>s. length (toolCallIdsFromMessage (stepMessage s)));
          tokens = (\<lambda>s. assistantMessageTokens (stepMessage s));
          post = (case first of None \<Rightarrow> [] | Some i \<Rightarrow> map snd (filter (\<lambda>p. fst p + 1 > i) (enumerate 0 steps)))
      in \<lparr>toolCallCount = sum_list (map calls steps), providerTokens = sum_list (map tokens steps),
          firstSignalStepIndex = first,
          postSignalStepCount = (case first of None \<Rightarrow> 0 | Some i \<Rightarrow> length steps - i),
          postSignalToolCallCount = sum_list (map calls post),
          postSignalProviderTokens = sum_list (map tokens post)\<rparr>)"

definition replayRound ::
    "(string \<Rightarrow> string \<Rightarrow> string) \<Rightarrow> (string \<Rightarrow> tool_policy option) \<Rightarrow> nat \<Rightarrow> run_identity \<Rightarrow> replay_step
     \<Rightarrow> observation list \<times> shadow_state \<Rightarrow> observation list \<times> shadow_state" where
  "replayRound hmac policies maxBytes ctx step acc =
     (let st = snd acc;
          (view, st2) = projectReplayStep hmac policies maxBytes step (st\<lparr>stepIndex := stepIndex st + 1\<rparr>);
          d = observeStep ctx view None st2
      in (fst acc @ detLog d, detState d))"

definition replayRunawayGuardTrajectory ::
    "(string \<Rightarrow> string \<Rightarrow> string) \<Rightarrow> string \<Rightarrow> (string \<Rightarrow> tool_policy option) \<Rightarrow> js_number option \<Rightarrow> run_identity
     \<Rightarrow> replay_step list \<Rightarrow> (observation list \<times> turn_summary \<times> replay_metrics) option" where
  "replayRunawayGuardTrajectory hmac randomBytes policies maxOption ctx steps =
     (case (case maxOption of None \<Rightarrow> Some DEFAULT_MAX_FINGERPRINT_BYTES | Some v \<Rightarrow> positiveIntegerField v) of
        None \<Rightarrow> None
      | Some maxBytes \<Rightarrow>
          (let (obs, st) = fold (replayRound hmac policies maxBytes ctx) steps ([], newShadowState randomBytes)
           in Some (obs, snapshotTurnSummary ctx st, replayMetrics steps obs)))"

section \<open>What a step changes\<close>

text \<open>The occurrence counts of the repeated-key detectors after a step.\<close>

definition counts_after :: "(string \<times> nat) list \<Rightarrow> string list \<Rightarrow> (string \<times> nat) list \<Rightarrow> bool" where
  "counts_after prev ks nxt \<longleftrightarrow>
     (\<forall>k. count_of nxt k = (if k \<in> set ks then count_of prev k + count_list ks k else 0))"

definition step_counts :: "step_view \<Rightarrow> shadow_state \<Rightarrow> shadow_state \<Rightarrow> bool" where
  "step_counts view st st' \<longleftrightarrow>
     counts_after (detectActionStreaks st) (detectActionKeys view) (detectActionStreaks st')
     \<and> counts_after (pollingActionStreaks st) (pollingActionKeys view) (pollingActionStreaks st')
     \<and> counts_after (detectResultStreaks st) (detectResultKeys view) (detectResultStreaks st')
     \<and> counts_after (errorFamilyStreaks st) (errorFamilyKeys view) (errorFamilyStreaks st')"

definition crossing :: "nat option \<Rightarrow> (string \<times> nat) list \<Rightarrow> string list \<Rightarrow> (string \<Rightarrow> bool) \<Rightarrow> bool" where
  "crossing t prev ks el \<longleftrightarrow>
     (\<exists>k \<in> set ks. crosses t (count_of prev k) (count_of prev k + count_list ks k) \<and> el k)"

lemma observeStep_facts:
  assumes d: "d = observeStep ctx view t st"
  shows "step_counts view st (detState d)"
    and "secret (detState d) = secret st" "reminderAttempted (detState d) = reminderAttempted st"
      "stepIndex (detState d) = stepIndex st"
    and "ExactAction \<in> set (detCandidates d) \<longleftrightarrow>
      crossing t (detectActionStreaks st) (detectActionKeys view) (\<lambda>_. True)"
    and "SameErrorFamily \<in> set (detCandidates d) \<longleftrightarrow>
      crossing t (errorFamilyStreaks st) (errorFamilyKeys view) (\<lambda>k. k \<in> set (remindableErrorFamilyKeys view))"
    and "progress_ok steps (progressStreaks st) \<Longrightarrow>
      progress_ok (rev (viewProgress view) # steps) (progressStreaks (detState d))"
    and "progress_ok steps (progressStreaks st) \<Longrightarrow> t = Some n \<Longrightarrow> 2 \<le> n \<Longrightarrow>
      UnchangedProgress \<in> set (detCandidates d) \<longleftrightarrow> unchanged_passes n steps [] (viewProgress view)"
    and "progress_ok steps (progressStreaks st) \<Longrightarrow> t = Some n \<Longrightarrow> 2 \<le> n \<Longrightarrow>
      PollingRepeat \<in> set (detCandidates d) \<longleftrightarrow> polling_passes n steps (rev (viewProgress view))"
proof -
  let ?d0 = "\<lparr>detState = st, detLog = [], detCandidates = []\<rparr>"
  obtain s1 d1 where r1: "observeRepeatedKeys ctx (detectActionStreaks st) (detectActionKeys view) ExactAction
      t (\<lambda>_. True) ?d0 = (s1, d1)" by fastforce
  let ?e1 = "d1\<lparr>detState := (detState d1)\<lparr>detectActionStreaks := s1\<rparr>\<rparr>"
  obtain s2 d2 where r2: "observeRepeatedKeys ctx (pollingActionStreaks st) (pollingActionKeys view) PollingRepeat
      t (\<lambda>_. False) ?e1 = (s2, d2)" by fastforce
  let ?e2 = "d2\<lparr>detState := (detState d2)\<lparr>pollingActionStreaks := s2\<rparr>\<rparr>"
  obtain s3 d3 where r3: "observeRepeatedKeys ctx (detectResultStreaks st) (detectResultKeys view) ExactResult
      t (\<lambda>_. False) ?e2 = (s3, d3)" by fastforce
  let ?e3 = "d3\<lparr>detState := (detState d3)\<lparr>detectResultStreaks := s3\<rparr>\<rparr>"
  obtain s4 d4 where r4: "observeRepeatedKeys ctx (errorFamilyStreaks st) (errorFamilyKeys view) SameErrorFamily
      t (\<lambda>k. k \<in> set (remindableErrorFamilyKeys view)) ?e3 = (s4, d4)" by fastforce
  let ?e4 = "d4\<lparr>detState := (detState d4)\<lparr>errorFamilyStreaks := s4\<rparr>\<rparr>"
  obtain s5 d5 where r5: "observeProgress ctx (progressStreaks st) (viewProgress view) t ?e4 = (s5, d5)" by fastforce
  let ?e5 = "d5\<lparr>detState := (detState d5)\<lparr>progressStreaks := s5\<rparr>\<rparr>"
  have d': "d = observeAbab ctx (detectActionBatchKey view) ?e5"
    by (simp add: d observeStep_def r1 r2 r3 r4 r5 Let_def)
  note f1 = observeRepeatedKeys_facts [OF r1] and f2 = observeRepeatedKeys_facts [OF r2]
    and f3 = observeRepeatedKeys_facts [OF r3] and f4 = observeRepeatedKeys_facts [OF r4]
    and f5 = observeProgress_frame [OF r5]
  note ab = observeAbab_frame(2) [of ctx "detectActionBatchKey view" ?e5, folded d']
  obtain g1 where g1: "detState d1 = st\<lparr>signalStats := g1\<rparr>" using f1(1) by (auto elim: stats_onlyE)
  obtain g2 where g2: "detState d2 = (detState ?e1)\<lparr>signalStats := g2\<rparr>" using f2(1) by (rule stats_onlyE)
  obtain g3 where g3: "detState d3 = (detState ?e2)\<lparr>signalStats := g3\<rparr>" using f3(1) by (rule stats_onlyE)
  obtain g4 where g4: "detState d4 = (detState ?e3)\<lparr>signalStats := g4\<rparr>" using f4(1) by (rule stats_onlyE)
  obtain g5 where g5: "detState d5 = (detState ?e4)\<lparr>signalStats := g5\<rparr>" using f5(1) by (rule stats_onlyE)
  have "\<exists>f r a. detState d = (detState ?e5)\<lparr>signalStats := f, recentActionBatches := r, activeAbabKey := a\<rparr>"
    using ab by blast
  then obtain f r a where
    "detState d = (detState ?e5)\<lparr>signalStats := f, recentActionBatches := r, activeAbabKey := a\<rparr>" by blast
  note fields = this g1 g2 g3 g4 g5
  show "step_counts view st (detState d)"
    using f1(2) f2(2) f3(2) f4(2) by (simp add: step_counts_def counts_after_def fields)
  show "secret (detState d) = secret st" "reminderAttempted (detState d) = reminderAttempted st"
    "stepIndex (detState d) = stepIndex st" by (simp_all add: fields)
  have c: "detCandidates d = detCandidates d5" by (simp add: d' observeAbab_frame(1))
  show "ExactAction \<in> set (detCandidates d) \<longleftrightarrow>
      crossing t (detectActionStreaks st) (detectActionKeys view) (\<lambda>_. True)"
    using f1(3) f2(3) f3(3) f4(3) f5(2)
    by (simp add: c crossing_def isReminderSignalKind_def REMINDER_CANDIDATE_PRIORITY_def)
  show "SameErrorFamily \<in> set (detCandidates d) \<longleftrightarrow>
      crossing t (errorFamilyStreaks st) (errorFamilyKeys view) (\<lambda>k. k \<in> set (remindableErrorFamilyKeys view))"
    using f1(3) f2(3) f3(3) f4(3) f5(2)
    by (simp add: c crossing_def isReminderSignalKind_def REMINDER_CANDIDATE_PRIORITY_def)
  have kept: "progressStreaks (detState ?e4) = progressStreaks st" by (simp add: fields)
  have none: "UnchangedProgress \<notin> set (detCandidates ?e4)" "PollingRepeat \<notin> set (detCandidates ?e4)"
    using f1(3) f2(3) f3(3) f4(3) by simp_all
  note progress = observeProgress_facts(1) [OF r5, of steps] observeProgress_facts(2,3) [OF r5, of steps n]
  show "progress_ok steps (progressStreaks st) \<Longrightarrow>
      progress_ok (rev (viewProgress view) # steps) (progressStreaks (detState d))"
    using progress(1) by (simp add: fields)
  show "progress_ok steps (progressStreaks st) \<Longrightarrow> t = Some n \<Longrightarrow> 2 \<le> n \<Longrightarrow>
      UnchangedProgress \<in> set (detCandidates d) \<longleftrightarrow> unchanged_passes n steps [] (viewProgress view)"
    using progress(2) none by (simp add: c)
  show "progress_ok steps (progressStreaks st) \<Longrightarrow> t = Some n \<Longrightarrow> 2 \<le> n \<Longrightarrow>
      PollingRepeat \<in> set (detCandidates d) \<longleftrightarrow> polling_passes n steps (rev (viewProgress view))"
    using progress(3) none by (simp add: c)
qed

section \<open>Runs of the guard\<close>

datatype guard_event =
    ObserveStep string run_identity replay_step bool
  | ClearStreaks run_identity
  | MarkInjected run_identity
  | FinishTurn run_identity

text \<open>
  The guard with what happened to each turn: the views since its streaks were last cleared, the latest
  first, and the number of reminders it was given.
\<close>

record tracked =
  theGuard :: runaway_guard
  viewsSeen :: "string \<Rightarrow> step_view list"
  remindersGiven :: "string \<Rightarrow> nat"

definition view_of :: "string \<Rightarrow> run_identity \<Rightarrow> replay_step \<Rightarrow> runaway_guard \<Rightarrow> step_view" where
  "view_of randomBytes ctx step g =
     (let st = stateFor randomBytes g ctx
      in fst (projectReplayStep (guardHmac g) (guardPolicies g) (guardMaxBytes g) step
           (st\<lparr>stepIndex := stepIndex st + 1\<rparr>)))"

definition track :: "runaway_guard \<Rightarrow> tracked" where
  "track g = \<lparr>theGuard = g, viewsSeen = (\<lambda>_. []), remindersGiven = (\<lambda>_. 0)\<rparr>"

fun guard_step :: "guard_event \<Rightarrow> tracked \<Rightarrow> tracked" where
  "guard_step (ObserveStep randomBytes ctx step remind) x =
     (let (rem, obs, g) = observe randomBytes ctx step remind (theGuard x);
          k = runKey ctx
      in \<lparr>theGuard = g,
          viewsSeen = (viewsSeen x)(k := view_of randomBytes ctx step (theGuard x) # viewsSeen x k),
          remindersGiven = (remindersGiven x)(k := remindersGiven x k + (if rem = None then 0 else 1))\<rparr>)"
| "guard_step (ClearStreaks ctx) x =
     x\<lparr>theGuard := guardClear ctx (theGuard x), viewsSeen := (viewsSeen x)(runKey ctx := [])\<rparr>"
| "guard_step (MarkInjected ctx) x = x\<lparr>theGuard := markReminderInjected ctx (theGuard x)\<rparr>"
| "guard_step (FinishTurn ctx) x =
     x\<lparr>theGuard := snd (finishTurn ctx (theGuard x)), viewsSeen := (viewsSeen x)(runKey ctx := []),
       remindersGiven := (remindersGiven x)(runKey ctx := 0)\<rparr>"

text \<open>How often a key occurred in the latest steps that all hold it.\<close>

fun streak_of :: "string list list \<Rightarrow> string \<Rightarrow> nat" where
  "streak_of [] k = 0"
| "streak_of (ks # rest) k = (if k \<in> set ks then streak_of rest k + count_list ks k else 0)"

text \<open>The progress events of the steps, the latest first.\<close>

definition progress_steps :: "step_view list \<Rightarrow> progress_view list list" where
  "progress_steps views = map (\<lambda>view. rev (viewProgress view)) views"

lemma progress_steps_simps [simp]:
  "progress_steps [] = []"
  "progress_steps (view # views) = rev (viewProgress view) # progress_steps views"
  by (simp_all add: progress_steps_def)

definition streaks_ok :: "step_view list \<Rightarrow> shadow_state \<Rightarrow> bool" where
  "streaks_ok views st \<longleftrightarrow>
     count_of (detectActionStreaks st) = streak_of (map detectActionKeys views)
     \<and> count_of (pollingActionStreaks st) = streak_of (map pollingActionKeys views)
     \<and> count_of (detectResultStreaks st) = streak_of (map detectResultKeys views)
     \<and> count_of (errorFamilyStreaks st) = streak_of (map errorFamilyKeys views)
     \<and> progress_ok (progress_steps views) (progressStreaks st)"

definition turn_ok :: "step_view list \<Rightarrow> nat \<Rightarrow> shadow_state option \<Rightarrow> bool" where
  "turn_ok views reminders so \<longleftrightarrow>
     (case so of None \<Rightarrow> views = [] \<and> reminders = 0
      | Some st \<Rightarrow> streaks_ok views st \<and> reminders = (if reminderAttempted st then 1 else 0))"

definition tracked_ok :: "nat option \<Rightarrow> tracked \<Rightarrow> bool" where
  "tracked_ok after x \<longleftrightarrow> guardAfter (theGuard x) = after
     \<and> (\<forall>k. turn_ok (viewsSeen x k) (remindersGiven x k) (map_of (guardStates (theGuard x)) k))"

subsection \<open>Observing\<close>

lemma streaks_ok_step:
  "streaks_ok views st \<Longrightarrow> step_counts view st st' \<Longrightarrow>
   progress_ok (rev (viewProgress view) # progress_steps views) (progressStreaks st') \<Longrightarrow>
   streaks_ok (view # views) st'"
  by (simp add: streaks_ok_def step_counts_def counts_after_def fun_eq_iff)

lemma takePreferredReminder_facts:
  assumes "takePreferredReminder cs ctx t st = (rem, st')"
  shows "reminderAttempted st' \<longleftrightarrow> reminderAttempted st \<or> rem \<noteq> None"
    and "st' = st\<lparr>reminderAttempted := reminderAttempted st'\<rparr>"
    and "rem \<noteq> None \<Longrightarrow> \<not> reminderAttempted st"
  using assms by (auto simp: takePreferredReminder_def split: option.splits if_splits)

lemma reminderContent_given:
  "kind \<in> set REMINDER_CANDIDATE_PRIORITY \<Longrightarrow> t \<noteq> 0 \<Longrightarrow> reminderContent kind (Some t) \<noteq> None"
  by (auto simp: REMINDER_CANDIDATE_PRIORITY_def reminderContent_def pollingReminderContent_def reminderGuidance_def)

lemma takePreferredReminder_choice:
  assumes "t \<noteq> 0"
  shows "map_option reminderObservation (fst (takePreferredReminder cs ctx t st)) =
    (if reminderAttempted st then None
     else map_option (\<lambda>kind. \<lparr>obsRun = ctx, obsKind = kind, obsStepIndex = stepIndex st, obsOccurrences = t\<rparr>)
       (find (\<lambda>kind. kind \<in> set cs) REMINDER_CANDIDATE_PRIORITY))"
proof (cases "find (\<lambda>kind. kind \<in> set cs) REMINDER_CANDIDATE_PRIORITY")
  case (Some kind)
  then have "kind \<in> set REMINDER_CANDIDATE_PRIORITY" by (metis find_Some_iff nth_mem)
  with assms reminderContent_given obtain content where "reminderContent kind (Some t) = Some content" by blast
  with Some show ?thesis by (simp add: takePreferredReminder_def)
qed (simp add: takePreferredReminder_def)

text \<open>A reminder is due: the streak of a key of its kind passes the threshold in this step.\<close>

definition passes :: "nat \<Rightarrow> (step_view \<Rightarrow> string list) \<Rightarrow> (step_view \<Rightarrow> string list) \<Rightarrow> step_view \<Rightarrow> step_view list \<Rightarrow> bool" where
  "passes t keys among view views \<longleftrightarrow>
     (\<exists>k \<in> set (keys view) \<inter> set (among view). streak_of (map keys views) k < t
        \<and> t \<le> streak_of (map keys (view # views)) k)"

definition reminder_due :: "nat \<Rightarrow> signal_kind \<Rightarrow> step_view \<Rightarrow> step_view list \<Rightarrow> bool" where
  "reminder_due t kind view views \<longleftrightarrow>
     (case kind of
        ExactAction \<Rightarrow> passes t detectActionKeys detectActionKeys view views
      | SameErrorFamily \<Rightarrow> passes t errorFamilyKeys remindableErrorFamilyKeys view views
      | UnchangedProgress \<Rightarrow> unchanged_passes t (progress_steps views) [] (viewProgress view)
      | PollingRepeat \<Rightarrow> polling_passes t (progress_steps views) (rev (viewProgress view))
      | _ \<Rightarrow> False)"

text \<open>The reminder that is due: the first kind, in the order of preference of the guard.\<close>

definition preferred_due :: "nat \<Rightarrow> step_view \<Rightarrow> step_view list \<Rightarrow> signal_kind option" where
  "preferred_due t view views =
     find (\<lambda>kind. reminder_due t kind view views) [UnchangedProgress, SameErrorFamily, ExactAction, PollingRepeat]"

lemma candidates_due:
  assumes "streaks_ok views st" "2 \<le> t" "kind \<in> set REMINDER_CANDIDATE_PRIORITY"
  shows "kind \<in> set (detCandidates (observeStep ctx view (Some t) st)) \<longleftrightarrow> reminder_due t kind view views"
proof -
  note f = observeStep_facts [OF refl, where ctx = ctx and view = view and t = "Some t" and st = st]
  have ok: "progress_ok (progress_steps views) (progressStreaks st)" using assms(1) by (simp add: streaks_ok_def)
  show ?thesis
  proof (cases kind)
    case UnchangedProgress
    then show ?thesis using f(8) [OF ok refl assms(2)] by (simp add: reminder_due_def)
  next
    case PollingRepeat
    then show ?thesis using f(9) [OF ok refl assms(2)] by (simp add: reminder_due_def)
  next
    case ExactAction
    then show ?thesis using f(5) assms(1)
      by (auto simp: reminder_due_def passes_def crossing_def crosses_def streaks_ok_def)
  next
    case SameErrorFamily
    then show ?thesis using f(6) assms(1)
      by (auto simp: reminder_due_def passes_def crossing_def crosses_def streaks_ok_def)
  qed (use assms(3) in \<open>simp_all add: REMINDER_CANDIDATE_PRIORITY_def\<close>)
qed

lemma streaks_ok_reminder: "streaks_ok views (st\<lparr>reminderAttempted := b\<rparr>) = streaks_ok views st"
  by (simp add: streaks_ok_def)

lemma observe_facts:
  assumes o: "observe randomBytes ctx step remind g = (rem, obs, g')"
    and ok: "turn_ok views n (map_of (guardStates g) (runKey ctx))"
  defines "view \<equiv> view_of randomBytes ctx step g"
  shows "\<exists>st. g' = put_state ctx st g \<and> turn_ok (view # views) (n + (if rem = None then 0 else 1)) (Some st)"
    and "(\<forall>t. guardAfter g = Some t \<longrightarrow> 2 \<le> t) \<Longrightarrow> map_option reminderObservation rem =
      (case guardAfter g of
         None \<Rightarrow> None
       | Some t \<Rightarrow> if remind \<and> n = 0 then map_option (\<lambda>kind. \<lparr>obsRun = ctx, obsKind = kind,
             obsStepIndex = stepIndex (stateFor randomBytes g ctx) + 1, obsOccurrences = t\<rparr>) (preferred_due t view views)
           else None)"
proof -
  let ?st0 = "stateFor randomBytes g ctx"
  let ?st1 = "?st0\<lparr>stepIndex := stepIndex ?st0 + 1\<rparr>"
  let ?p = "projectReplayStep (guardHmac g) (guardPolicies g) (guardMaxBytes g) step ?st1"
  let ?t = "if remind then guardAfter g else None"
  let ?d = "observeStep ctx view ?t (snd ?p)"
  have view: "view = fst ?p" by (simp add: view_def view_of_def Let_def)
  have start: "streaks_ok views ?st0 \<and> n = (if reminderAttempted ?st0 then 1 else 0)"
  proof (cases "map_of (guardStates g) (runKey ctx)")
    case None
    with ok show ?thesis
      by (simp add: turn_ok_def stateFor_def newShadowState_def streaks_ok_def count_of_def fun_eq_iff)
  next
    case (Some st)
    with ok show ?thesis by (simp add: turn_ok_def stateFor_def)
  qed
  obtain m where m: "snd ?p = ?st1\<lparr>fingerprintSkippedCount := m\<rparr>"
    using projectStep_skip unfolding projectReplayStep_def Let_def skip_only_def by blast
  have p: "streaks_ok views (snd ?p)" "n = (if reminderAttempted (snd ?p) then 1 else 0)"
    using start unfolding m by (simp_all add: streaks_ok_def)
  note f = observeStep_facts [OF refl, where ctx = ctx and view = view and t = ?t and st = "snd ?p"]
  have "progress_ok (progress_steps views) (progressStreaks (snd ?p))" using p(1) by (simp add: streaks_ok_def)
  from f(7) [OF this] have d: "streaks_ok (view # views) (detState ?d)"
    "n = (if reminderAttempted (detState ?d) then 1 else 0)"
    using streaks_ok_step [OF p(1) f(1)] p(2) f(3) by simp_all
  have run: "(case ?t of None \<Rightarrow> (None, detLog ?d, put_state ctx (detState ?d) g)
      | Some t \<Rightarrow> (case takePreferredReminder (detCandidates ?d) ctx t (detState ?d) of
          (rem, st3) \<Rightarrow> (rem, detLog ?d, put_state ctx st3 g))) = (rem, obs, g')"
    unfolding o [symmetric] observe_def view Let_def by (simp add: split_beta split: option.split)
  show "\<exists>st. g' = put_state ctx st g \<and> turn_ok (view # views) (n + (if rem = None then 0 else 1)) (Some st)"
  proof (cases ?t)
    case None
    then have "rem = None" "g' = put_state ctx (detState ?d) g"
      using run by simp_all
    with d show ?thesis by (auto simp: turn_ok_def)
  next
    case (Some t)
    obtain st3 where tk: "takePreferredReminder (detCandidates ?d) ctx t (detState ?d) = (rem, st3)"
        "g' = put_state ctx st3 g"
      using run Some by (auto split: prod.splits)
    note tf = takePreferredReminder_facts [OF tk(1)]
    have "streaks_ok (view # views) st3" using d(1) tf(2) by (metis streaks_ok_reminder)
    moreover have "n + (if rem = None then 0 else 1) = (if reminderAttempted st3 then 1 else 0)"
      using d(2) tf(1) tf(3) by (cases rem) auto
    ultimately show ?thesis using tk(2) by (auto simp: turn_ok_def)
  qed
  assume after: "\<forall>t. guardAfter g = Some t \<longrightarrow> 2 \<le> t"
  show "map_option reminderObservation rem =
      (case guardAfter g of
         None \<Rightarrow> None
       | Some t \<Rightarrow> if remind \<and> n = 0 then map_option (\<lambda>kind. \<lparr>obsRun = ctx, obsKind = kind,
             obsStepIndex = stepIndex ?st0 + 1, obsOccurrences = t\<rparr>) (preferred_due t view views)
           else None)"
  proof (cases ?t)
    case None
    with run show ?thesis by (auto split: option.splits if_splits)
  next
    case (Some t)
    then have t: "remind" "guardAfter g = Some t" "2 \<le> t" using after by (auto split: if_splits)
    have rem: "rem = fst (takePreferredReminder (detCandidates ?d) ctx t (detState ?d))"
      using run Some by (auto split: prod.splits)
    have "find (\<lambda>kind. kind \<in> set (detCandidates ?d)) REMINDER_CANDIDATE_PRIORITY = preferred_due t view views"
      unfolding preferred_due_def REMINDER_CANDIDATE_PRIORITY_def [symmetric]
      using candidates_due [OF p(1) t(3)] Some by (intro find_cong) auto
    moreover have "stepIndex (snd ?p) = stepIndex ?st0 + 1" unfolding m by simp
    then have "stepIndex (detState ?d) = stepIndex ?st0 + 1" using f(4) by (simp only:)
    ultimately show ?thesis
      using takePreferredReminder_choice [of t "detCandidates ?d" ctx "detState ?d"] t d(2)
      by (simp add: rem)
  qed
qed

subsection \<open>Every run\<close>

abbreviation any_event :: "tracked \<Rightarrow> guard_event \<Rightarrow> bool" where
  "any_event \<equiv> \<lambda>x e. True"

lemma put_state_facts [simp]:
  "guardAfter (put_state ctx st g) = guardAfter g"
  "map_of (guardStates (put_state ctx st g)) k = (if k = runKey ctx then Some st else map_of (guardStates g) k)"
  by (simp_all add: put_state_def omap.lookup_store)

lemma turn_ok_clear: "turn_ok views n (Some st) \<Longrightarrow> turn_ok [] n (Some (clearDetectionStreaks st))"
  by (simp add: turn_ok_def streaks_ok_def clearDetectionStreaks_def count_of_def fun_eq_iff)

lemma turn_ok_injected: "turn_ok views n (Some st) \<Longrightarrow> turn_ok views n (Some (st\<lparr>reminderInjected := b\<rparr>))"
  by (simp add: turn_ok_def streaks_ok_def)

lemma tracked_step: "tracked_ok after x \<Longrightarrow> tracked_ok after (guard_step e x)"
proof -
  assume ok: "tracked_ok after x"
  then have turn: "turn_ok (viewsSeen x k) (remindersGiven x k) (map_of (guardStates (theGuard x)) k)" for k
    by (simp add: tracked_ok_def)
  show ?thesis
  proof (cases e)
    case (ObserveStep rb ctx step remind)
    obtain rem obs g where o: "observe rb ctx step remind (theGuard x) = (rem, obs, g)"
      by (cases "observe rb ctx step remind (theGuard x)")
    obtain st where "g = put_state ctx st (theGuard x)"
      "turn_ok (view_of rb ctx step (theGuard x) # viewsSeen x (runKey ctx))
         (remindersGiven x (runKey ctx) + (if rem = None then 0 else 1)) (Some st)"
      using observe_facts(1) [OF o turn] by blast
    then show ?thesis
      using ok unfolding ObserveStep guard_step.simps o
      by (cases rem) (simp_all add: tracked_ok_def Let_def)
  next
    case (ClearStreaks ctx)
    show ?thesis
    proof (cases "map_of (guardStates (theGuard x)) (runKey ctx)")
      case None
      then show ?thesis
        using ok turn [of "runKey ctx"] by (simp add: ClearStreaks guardClear_def tracked_ok_def turn_ok_def)
    next
      case (Some st)
      then show ?thesis
        using ok turn_ok_clear turn [of "runKey ctx"] by (simp add: ClearStreaks guardClear_def tracked_ok_def)
    qed
  next
    case (MarkInjected ctx)
    show ?thesis
    proof (cases "map_of (guardStates (theGuard x)) (runKey ctx)")
      case None
      then show ?thesis using ok by (simp add: MarkInjected markReminderInjected_def tracked_ok_def)
    next
      case (Some st)
      then show ?thesis
        using ok turn_ok_injected turn [of "runKey ctx"]
        by (simp add: MarkInjected markReminderInjected_def tracked_ok_def)
    qed
  next
    case (FinishTurn ctx)
    show ?thesis
    proof (cases "map_of (guardStates (theGuard x)) (runKey ctx)")
      case None
      then show ?thesis
        using ok turn [of "runKey ctx"] by (simp add: FinishTurn finishTurn_def tracked_ok_def turn_ok_def)
    next
      case (Some st)
      then show ?thesis
        using ok by (simp add: FinishTurn finishTurn_def tracked_ok_def omap.lookup_remove) (simp add: turn_ok_def)
    qed
  qed
qed

lemma tracked_start:
  "createRunawayGuard hmac options = Some g \<Longrightarrow> tracked_ok (guardAfter g) (track g)"
  by (auto simp: createRunawayGuard_def tracked_ok_def track_def turn_ok_def split: option.splits)

interpretation guards: event_system "track g" any_event guard_step
  "\<lambda>x. guardStates g = [] \<longrightarrow> tracked_ok (guardAfter g) x" for g
  by unfold_locales (auto simp: tracked_step, simp add: tracked_ok_def track_def turn_ok_def)

lemma created_facts:
  "createRunawayGuard hmac options = Some g \<Longrightarrow>
   guardStates g = [] \<and> (\<forall>t. guardAfter g = Some t \<longrightarrow> 3 \<le> t)"
  by (auto simp: createRunawayGuard_def integerAtLeast_def le_nat_iff le_floor_iff
      split: option.splits js_number.splits if_splits)

lemma guard_reached:
  "createRunawayGuard hmac options = Some g \<Longrightarrow> reached (track g) any_event guard_step x \<Longrightarrow>
   guardAfter (theGuard x) = guardAfter g
   \<and> turn_ok (viewsSeen x k) (remindersGiven x k) (map_of (guardStates (theGuard x)) k)"
  using guards.reached_ok [of g x] created_facts [of hmac options g] by (simp add: tracked_ok_def)

section \<open>Properties\<close>

text \<open>
  C39: the guard counts what it says it counts: whatever was observed, cleared and finished, for every
  turn the count of a key is the number of its occurrences in the latest steps that all hold it, for
  actions, polling actions, results and error families alike.
\<close>

theorem guard_counts:
  "createRunawayGuard hmac options = Some g \<Longrightarrow> reached (track g) any_event guard_step x \<Longrightarrow>
   map_of (guardStates (theGuard x)) (runKey ctx) = Some st \<Longrightarrow>
   count_of (detectActionStreaks st) key = streak_of (map detectActionKeys (viewsSeen x (runKey ctx))) key
   \<and> count_of (pollingActionStreaks st) key = streak_of (map pollingActionKeys (viewsSeen x (runKey ctx))) key
   \<and> count_of (detectResultStreaks st) key = streak_of (map detectResultKeys (viewsSeen x (runKey ctx))) key
   \<and> count_of (errorFamilyStreaks st) key = streak_of (map errorFamilyKeys (viewsSeen x (runKey ctx))) key"
  using guard_reached [of hmac options g x "runKey ctx"] by (simp add: turn_ok_def streaks_ok_def)

text \<open>
  C40: a turn is reminded at most once, and exactly when a reminder is due: of a turn not yet reminded,
  a step that is observed with reminders gives one exactly if in this step a count reaches the
  configured threshold, which is at least three.  The reminder is of the first such kind in the order
  of the guard: an observation that finds a work target unchanged, a key of an error family that may be
  reminded of, a repeated action, or a run of continuous polling; it names the turn, the step and the
  threshold.  All counts are read off the steps of the turn since the streaks were last cleared.
\<close>

theorem guard_reminds_once:
  "createRunawayGuard hmac options = Some g \<Longrightarrow> reached (track g) any_event guard_step x \<Longrightarrow>
   remindersGiven x key \<le> 1 \<and>
   (\<forall>t. guardAfter g = Some t \<longrightarrow> 3 \<le> t) \<and>
   map_option reminderObservation (fst (observe randomBytes ctx step remind (theGuard x))) =
     (case guardAfter g of
        None \<Rightarrow> None
      | Some t \<Rightarrow>
          if remind \<and> remindersGiven x (runKey ctx) = 0
          then map_option (\<lambda>kind. \<lparr>obsRun = ctx, obsKind = kind,
              obsStepIndex = stepIndex (stateFor randomBytes (theGuard x) ctx) + 1, obsOccurrences = t\<rparr>)
            (preferred_due t (view_of randomBytes ctx step (theGuard x)) (viewsSeen x (runKey ctx)))
          else None)"
proof -
  assume g: "createRunawayGuard hmac options = Some g" "reached (track g) any_event guard_step x"
  note inv = guard_reached [OF g] and after = created_facts [OF g(1)]
  obtain rem obs g' where o: "observe randomBytes ctx step remind (theGuard x) = (rem, obs, g')"
    by (cases "observe randomBytes ctx step remind (theGuard x)")
  have "\<forall>t. guardAfter (theGuard x) = Some t \<longrightarrow> 2 \<le> t" using inv after by fastforce
  from observe_facts(2) [OF o conjunct2 [OF inv] this] inv [of key] after o show ?thesis
    by (auto simp: turn_ok_def split: option.splits)
qed

subsection \<open>Replay\<close>

lemma observe_silent:
  "observe rb ctx step False g =
     (let (l, st) = replayRound (guardHmac g) (guardPolicies g) (guardMaxBytes g) ctx step ([], stateFor rb g ctx)
      in (None, l, put_state ctx st g))"
  by (simp add: observe_def replayRound_def Let_def split_beta)

lemma replayRound_log:
  "replayRound hmac policies m ctx step (l, st) =
     (l @ fst (replayRound hmac policies m ctx step ([], st)), snd (replayRound hmac policies m ctx step ([], st)))"
  by (simp add: replayRound_def Let_def split_beta)

text \<open>Observing the steps of a turn one by one, without reminders.\<close>

definition observe_all :: "string \<Rightarrow> run_identity \<Rightarrow> replay_step list \<Rightarrow> runaway_guard \<Rightarrow> observation list \<times> runaway_guard" where
  "observe_all rb ctx steps g = fold (\<lambda>step (l, g). case observe rb ctx step False g of
     (rem, obs, g') \<Rightarrow> (l @ obs, g')) steps ([], g)"

lemma observe_replay:
  "stateFor rb g ctx = st \<Longrightarrow>
   \<exists>g'. fold (\<lambda>step (l, g). case observe rb ctx step False g of (rem, obs, g') \<Rightarrow> (l @ obs, g')) steps (l, g)
       = (fst (fold (replayRound (guardHmac g) (guardPolicies g) (guardMaxBytes g) ctx) steps (l, st)), g')
     \<and> stateFor rb g' ctx = snd (fold (replayRound (guardHmac g) (guardPolicies g) (guardMaxBytes g) ctx) steps (l, st))
     \<and> (steps \<noteq> [] \<longrightarrow> map_of (guardStates g') (runKey ctx) \<noteq> None)
     \<and> (map_of (guardStates g) (runKey ctx) \<noteq> None \<longrightarrow> map_of (guardStates g') (runKey ctx) \<noteq> None)"
proof (induction steps arbitrary: l g st)
  case Nil
  then show ?case by simp
next
  case (Cons step steps)
  let ?r = "replayRound (guardHmac g) (guardPolicies g) (guardMaxBytes g) ctx step ([], st)"
  let ?g = "put_state ctx (snd ?r) g"
  have o: "observe rb ctx step False g = (None, fst ?r, ?g)"
    using Cons.prems by (simp add: observe_silent split_beta)
  have cfg: "guardHmac ?g = guardHmac g" "guardPolicies ?g = guardPolicies g" "guardMaxBytes ?g = guardMaxBytes g"
    by (simp_all add: put_state_def)
  have st: "stateFor rb ?g ctx = snd ?r" by (simp add: stateFor_def)
  from Cons.IH [OF st, of "l @ fst ?r"] show ?case
    unfolding cfg fold_Cons comp_apply replayRound_log [of _ _ _ _ _ l st]
    by (auto simp: o)
qed

text \<open>
  C20: the offline replay of a trajectory tells exactly what the guard in production tells, with the
  same secret: the same observations in the same order, and the same summary of the turn.
\<close>

theorem replay_observes:
  "replayRunawayGuardTrajectory hmac rb policies maxOption ctx steps = Some (obs, summary, metrics) \<Longrightarrow>
   steps \<noteq> [] \<Longrightarrow>
   \<exists>g g'. createRunawayGuard hmac \<lparr>optToolPolicies = policies, optMaxFingerprintBytes = maxOption,
        optRemindAfter = None\<rparr> = Some g
     \<and> observe_all rb ctx steps g = (obs, g') \<and> fst (finishTurn ctx g') = Some summary"
proof -
  assume r: "replayRunawayGuardTrajectory hmac rb policies maxOption ctx steps = Some (obs, summary, metrics)"
    and ne: "steps \<noteq> []"
  obtain m st where m: "(case maxOption of None \<Rightarrow> Some DEFAULT_MAX_FINGERPRINT_BYTES | Some v \<Rightarrow> positiveIntegerField v) = Some m"
      and st: "fold (replayRound hmac policies m ctx) steps ([], newShadowState rb) = (obs, st)"
      and summary: "summary = snapshotTurnSummary ctx st"
    using r by (auto simp: replayRunawayGuardTrajectory_def Let_def split: option.splits prod.splits)
  let ?g = "\<lparr>guardHmac = hmac, guardPolicies = policies, guardMaxBytes = m, guardAfter = None, guardStates = []\<rparr>"
  have g: "createRunawayGuard hmac \<lparr>optToolPolicies = policies, optMaxFingerprintBytes = maxOption,
      optRemindAfter = None\<rparr> = Some ?g"
    using m by (simp add: createRunawayGuard_def)
  have "stateFor rb ?g ctx = newShadowState rb" by (simp add: stateFor_def)
  from observe_replay [OF this, of steps "[]"] obtain g' where g': "observe_all rb ctx steps ?g = (obs, g')"
      "stateFor rb g' ctx = st" "map_of (guardStates g') (runKey ctx) \<noteq> None"
    using st ne by (auto simp: observe_all_def)
  then have "fst (finishTurn ctx g') = Some summary"
    by (auto simp: finishTurn_def stateFor_def summary)
  with g g'(1) show ?thesis by blast
qed

section \<open>An example run\<close>

definition sample_run :: run_identity where
  "sample_run = \<lparr>runSession = ''s'', runTurn = ''t'', runAgent = ''a''\<rparr>"

definition sample_step :: replay_step where
  "sample_step = \<lparr>stepMessage = AssistantMessage [ToolCallBlock ''c'' ''ls'' JNull] JUndefined, stepToolResults = [],
     stepBlocked = [], stepVerifiedProgress = [], stepTrusted = []\<rparr>"

definition sample_options :: guard_options where
  "sample_options = \<lparr>optToolPolicies = (\<lambda>_. None), optMaxFingerprintBytes = Some (Finite 200), optRemindAfter = Some (Finite 3)\<rparr>"

definition sample_guard :: runaway_guard where
  "sample_guard = \<lparr>guardHmac = (\<lambda>_ _. ''h''), guardPolicies = (\<lambda>_. None),
     guardMaxBytes = 200, guardAfter = Some 3, guardStates = []\<rparr>"

lemma sample_created: "createRunawayGuard (\<lambda>_ _. ''h'') sample_options = Some sample_guard"
  by (simp add: createRunawayGuard_def sample_options_def sample_guard_def integerAtLeast_def
      positiveIntegerField_def is_integer_def)

abbreviation sample_observe :: guard_event where
  "sample_observe \<equiv> ObserveStep ''k'' sample_run sample_step False"

abbreviation sample_twice :: tracked where
  "sample_twice \<equiv> guard_step sample_observe (guard_step sample_observe (track sample_guard))"

lemma sample_reached: "reached (track sample_guard) any_event guard_step sample_twice"
  by (intro reached.intros) simp_all

definition sample_view :: step_view where
  "sample_view = \<lparr>detectActionKeys = [''h''], pollingActionKeys = [], detectResultKeys = [], errorFamilyKeys = [],
     remindableErrorFamilyKeys = [], viewProgress = [Interrupt], detectActionBatchKey = Some ''h''\<rparr>"

lemma sample_serialized:
  "stableSerializeWithinBudget (JObject [(''toolName'', JString ''ls''), (''actionKey'', JNull)]) 200 \<noteq> None"
  by code_simp

lemma sample_projection:
  "projectReplayStep (\<lambda>_ _. ''h'') (\<lambda>_. None) 200 sample_step st = (sample_view, st)"
  using sample_serialized
  by (auto simp: projectReplayStep_def projectStep_def sample_step_def sample_view_def Let_def stepOf_def
      projectProgressBestEffort_def verifiedProjection_def verifiedProgressMap_def call_map_def policy_kind_of_def
      appendPollingControl_def progressRound_def step_fingerprint_def fingerprintWithinBudget_def fingerprint_def
      projectActionKeyBestEffort_def isExpectedResultBestEffort_def)

lemma observe_config:
  "guardHmac (snd (snd (observe rb ctx step b g))) = guardHmac g"
  "guardPolicies (snd (snd (observe rb ctx step b g))) = guardPolicies g"
  "guardMaxBytes (snd (snd (observe rb ctx step b g))) = guardMaxBytes g"
  by (simp_all add: observe_def put_state_def Let_def split: option.split prod.split)

lemma sample_view_of:
  "guardHmac g = guardHmac sample_guard \<Longrightarrow> guardPolicies g = guardPolicies sample_guard \<Longrightarrow>
   guardMaxBytes g = guardMaxBytes sample_guard \<Longrightarrow> view_of ''k'' sample_run sample_step g = sample_view"
  using sample_projection by (simp add: view_of_def sample_guard_def Let_def)

lemma sample_views: "viewsSeen sample_twice (runKey sample_run) = [sample_view, sample_view]"
  by (simp add: split_beta track_def Let_def sample_view_of observe_config)

lemma sample_present: "map_of (guardStates (theGuard sample_twice)) (runKey sample_run) \<noteq> None"
  by (simp add: split_beta Let_def observe_def split: option.split prod.split)

text \<open>After two equal steps the count is two, and the third step gives the reminder.\<close>

lemma guard_counts_witness:
  "\<exists>st. map_of (guardStates (theGuard sample_twice)) (runKey sample_run) = Some st
     \<and> count_of (detectActionStreaks st) ''h'' = 2"
proof -
  obtain st where st: "map_of (guardStates (theGuard sample_twice)) (runKey sample_run) = Some st"
    using sample_present by blast
  have "count_of (detectActionStreaks st) ''h'' = 2"
    using guard_counts [OF sample_created sample_reached st, of "''h''"] sample_views
    by (simp add: sample_view_def)
  with st show ?thesis by blast
qed

lemma sample_unreminded: "remindersGiven sample_twice (runKey sample_run) = 0"
proof -
  have "fst (observe rb ctx step False g) = None" for rb ctx step g
    by (simp add: observe_def Let_def split_beta)
  then show ?thesis by (simp add: split_beta Let_def track_def)
qed

lemma guard_reminds_once_witness:
  "\<exists>r. fst (observe ''k'' sample_run sample_step True (theGuard sample_twice)) = Some r
     \<and> obsKind (reminderObservation r) = ExactAction \<and> obsOccurrences (reminderObservation r) = 3"
proof -
  have "guardHmac (theGuard sample_twice) = guardHmac sample_guard"
    "guardPolicies (theGuard sample_twice) = guardPolicies sample_guard"
    "guardMaxBytes (theGuard sample_twice) = guardMaxBytes sample_guard"
    by (simp_all add: split_beta Let_def track_def observe_config)
  then have "view_of ''k'' sample_run sample_step (theGuard sample_twice) = sample_view"
    by (rule sample_view_of)
  then have "preferred_due 3 (view_of ''k'' sample_run sample_step (theGuard sample_twice))
      (viewsSeen sample_twice (runKey sample_run)) = Some ExactAction"
    by (simp only: sample_views)
      (simp add: preferred_due_def reminder_due_def passes_def polling_passes_def sample_view_def)
  moreover have "guardAfter sample_guard = Some 3" by (simp add: sample_guard_def)
  moreover note guard_reminds_once [OF sample_created sample_reached, where ctx = sample_run
      and randomBytes = "''k''" and step = sample_step and remind = True]
  ultimately have "map_option reminderObservation
      (fst (observe ''k'' sample_run sample_step True (theGuard sample_twice))) =
    Some \<lparr>obsRun = sample_run, obsKind = ExactAction,
      obsStepIndex = stepIndex (stateFor ''k'' (theGuard sample_twice) sample_run) + 1, obsOccurrences = 3\<rparr>"
    using sample_unreminded by (simp only: option.case simp_thms if_True option.map)
  then show ?thesis by (auto simp: map_option_eq_Some)
qed

lemma replay_observes_witness:
  "\<exists>obs g g'. createRunawayGuard (\<lambda>_ _. ''h'') \<lparr>optToolPolicies = (\<lambda>_. None), optMaxFingerprintBytes = None,
      optRemindAfter = None\<rparr> = Some g
    \<and> observe_all ''k'' sample_run [sample_step] g = (obs, g') \<and> fst (finishTurn sample_run g') \<noteq> None"
proof -
  obtain obs summary metrics where
    "replayRunawayGuardTrajectory (\<lambda>_ _. ''h'') ''k'' (\<lambda>_. None) None sample_run [sample_step] = Some (obs, summary, metrics)"
    by (cases "replayRunawayGuardTrajectory (\<lambda>_ _. ''h'') ''k'' (\<lambda>_. None) None sample_run [sample_step]")
      (auto simp: replayRunawayGuardTrajectory_def Let_def split: prod.splits)
  from replay_observes [OF this] show ?thesis by fastforce
qed

end

