(* ===== verification/TaskStore.thy ===== *)
theory TaskStore
  imports Numbers JsonText
begin

text \<open>
  The records of background tasks (\<open>types.ts\<close>, \<open>status.ts\<close>, \<open>errors.ts\<close> and \<open>in-memory-store.ts\<close> of the
  package \<open>background-task\<close>).  Times are whole milliseconds, as \<open>Date.now\<close> gives them; the clock is a
  function from the number of the reading to the time.  The copies that \<open>cloneTask\<close> and
  \<open>cloneEvent\<close> make are the values themselves here, since a value is never changed in place.  A
  field that holds \<open>null\<close> is as one that is absent, since the code treats the two alike.
\<close>

section \<open>Tasks, patches and events\<close>

datatype task_kind = KindBash | KindSubagent | KindWorkflow | KindCustom

datatype task_status = TaskQueued | TaskRunning | TaskStopping | TaskSucceeded | TaskFailed | TaskCanceled | TaskLost

record task_error =
  errorText :: string
  errorCode :: "string option"
  errorDetails :: "jsobj option"

datatype task_output_kind = OutFile | OutOss | OutSandboxJob | OutTranscript | OutMemory

record task_output_ref =
  refTaskId :: string
  refKind :: task_output_kind
  refUri :: string
  refOffset :: "nat option"
  refUpdatedAt :: "int option"
  refMetadata :: "jsobj option"

record task_usage =
  inputTokens :: "rat option"
  outputTokens :: "rat option"
  totalTokens :: "rat option"
  costUsd :: "rat option"
  usageMetadata :: "jsobj option"

record background_task =
  taskId :: string
  taskKind :: task_kind
  taskStatus :: task_status
  ownerSessionId :: string
  taskDescription :: "string option"
  taskToolCallId :: "string option"
  parentMessageId :: "string option"
  parentTaskId :: "string option"
  createdAt :: int
  updatedAt :: int
  startedAt :: "int option"
  endedAt :: "int option"
  deliveredAt :: "int option"
  outputRef :: "task_output_ref option"
  lastError :: "task_error option"
  taskUsage :: "task_usage option"
  taskMetadata :: "jsobj option"

text \<open>
  A patch: an absent field is \<open>None\<close>.  A field of the task that is itself optional may also be
  present and hold \<open>undefined\<close>, which is \<open>Some None\<close> and clears it.
\<close>

record background_task_patch =
  patchStatus :: "task_status option"
  patchDescription :: "string option option"
  patchToolCallId :: "string option option"
  patchParentMessageId :: "string option option"
  patchParentTaskId :: "string option option"
  patchUpdatedAt :: "int option"
  patchStartedAt :: "int option option"
  patchEndedAt :: "int option option"
  patchDeliveredAt :: "int option option"
  patchOutputRef :: "task_output_ref option option"
  patchLastError :: "task_error option option"
  patchUsage :: "task_usage option option"
  patchMetadata :: "jsobj option"

definition emptyPatch :: background_task_patch where
  "emptyPatch = \<lparr>patchStatus = None, patchDescription = None, patchToolCallId = None,
     patchParentMessageId = None, patchParentTaskId = None, patchUpdatedAt = None,
     patchStartedAt = None, patchEndedAt = None, patchDeliveredAt = None, patchOutputRef = None,
     patchLastError = None, patchUsage = None, patchMetadata = None\<rparr>"

datatype task_event_type = EvCreated | EvStarted | EvOutputUpdated | EvStopRequested | EvStatusChanged | EvCompleted

record task_lifecycle_event =
  eventId :: string
  eventTaskId :: string
  eventOwner :: string
  eventType :: task_event_type
  eventTimestamp :: int
  eventSequence :: "nat option"
  eventPayload :: "jsobj option"

datatype task_order_by = ByCreatedAt | ByUpdatedAt | ByCompletedAt

datatype task_order = Asc | Desc

record task_query =
  queryTaskIds :: "string list option"
  queryOwner :: "string option"
  queryParent :: "string option option"
  queryKinds :: "task_kind list option"
  queryStatuses :: "task_status list option"
  createdAfter :: "int option"
  createdBefore :: "int option"
  updatedAfter :: "int option"
  updatedBefore :: "int option"
  queryLimit :: "rat option"
  queryCursor :: "string option"
  queryOrderBy :: "task_order_by option"
  queryOrder :: "task_order option"
  includeArchived :: "bool option"
  undeliveredOnly :: "bool option"

section \<open>Statuses\<close>

definition ACTIVE_TASK_STATUSES :: "task_status list" where
  "ACTIVE_TASK_STATUSES = [TaskQueued, TaskRunning, TaskStopping]"

definition TERMINAL_TASK_STATUSES :: "task_status list" where
  "TERMINAL_TASK_STATUSES = [TaskSucceeded, TaskFailed, TaskCanceled, TaskLost]"

definition isActiveTaskStatus :: "task_status \<Rightarrow> bool" where
  "isActiveTaskStatus st = (st \<in> set ACTIVE_TASK_STATUSES)"

definition isTerminalTaskStatus :: "task_status \<Rightarrow> bool" where
  "isTerminalTaskStatus st = (st \<in> set TERMINAL_TASK_STATUSES)"

definition canTransitionTaskStatus :: "task_status \<Rightarrow> task_status \<Rightarrow> bool" where
  "canTransitionTaskStatus a b =
     (if a = b then True
      else if isTerminalTaskStatus a then False
      else (case a of
          TaskQueued \<Rightarrow> b \<in> {TaskRunning, TaskStopping, TaskSucceeded, TaskFailed, TaskCanceled, TaskLost}
        | TaskRunning \<Rightarrow> b \<in> {TaskStopping, TaskSucceeded, TaskFailed, TaskCanceled, TaskLost}
        | TaskStopping \<Rightarrow> b \<in> {TaskSucceeded, TaskFailed, TaskCanceled, TaskLost}
        | _ \<Rightarrow> False))"

lemmas status_defs = canTransitionTaskStatus_def isTerminalTaskStatus_def isActiveTaskStatus_def
  TERMINAL_TASK_STATUSES_def ACTIVE_TASK_STATUSES_def

lemma active_or_terminal: "isActiveTaskStatus st \<longleftrightarrow> \<not> isTerminalTaskStatus st"
  by (cases st) (simp_all add: status_defs)

text \<open>The transitions form an order on the statuses, with the terminal ones as maximal elements.\<close>

lemma transition_refl [simp]: "canTransitionTaskStatus a a"
  by (simp add: canTransitionTaskStatus_def)

lemma transition_trans:
  "canTransitionTaskStatus a b \<Longrightarrow> canTransitionTaskStatus b c \<Longrightarrow> canTransitionTaskStatus a c"
  by (cases a; cases b; cases c) (simp_all add: status_defs)

lemma transition_antisym: "canTransitionTaskStatus a b \<Longrightarrow> canTransitionTaskStatus b a \<Longrightarrow> a = b"
  by (cases a; cases b) (simp_all add: status_defs)

lemma terminal_is_final: "isTerminalTaskStatus a \<Longrightarrow> canTransitionTaskStatus a b \<longleftrightarrow> b = a"
  by (auto simp: canTransitionTaskStatus_def)

lemma active_reaches_terminal:
  "\<not> isTerminalTaskStatus a \<Longrightarrow> isTerminalTaskStatus b \<Longrightarrow> canTransitionTaskStatus a b"
  by (cases a; cases b) (simp_all add: status_defs)

fun kind_name :: "task_kind \<Rightarrow> string" where
  "kind_name KindBash = ''bash''"
| "kind_name KindSubagent = ''subagent''"
| "kind_name KindWorkflow = ''workflow''"
| "kind_name KindCustom = ''custom''"

fun status_name :: "task_status \<Rightarrow> string" where
  "status_name TaskQueued = ''queued''"
| "status_name TaskRunning = ''running''"
| "status_name TaskStopping = ''stopping''"
| "status_name TaskSucceeded = ''succeeded''"
| "status_name TaskFailed = ''failed''"
| "status_name TaskCanceled = ''canceled''"
| "status_name TaskLost = ''lost''"

lemma status_name_inject [simp]: "status_name a = status_name b \<longleftrightarrow> a = b"
  by (cases a; cases b) simp_all

section \<open>Errors\<close>

text \<open>
  What a promise of the package is rejected with: one of its own errors (a \<open>BackgroundTaskError\<close>
  made elsewhere carries its message, code and details), another \<open>Error\<close> with its message and
  stack, or a thrown value that is no \<open>Error\<close>, given by the text \<open>String(error)\<close>.
\<close>

datatype thrown =
    TaskNotFoundError string
  | TaskAlreadyExistsError string
  | TaskRunnerNotFoundError task_kind
  | TaskRunnerAlreadyRegisteredError task_kind
  | InvalidTaskStatusTransitionError string task_status task_status
  | BackgroundTaskError string string "jsobj option"
  | PlainError string "string option"
  | ThrownValue string

fun background_error :: "thrown \<Rightarrow> (string \<times> string \<times> jsobj option) option" where
  "background_error (TaskNotFoundError i) =
     Some (''Background task not found: '' @ i, ''TASK_NOT_FOUND'', Some [(''taskId'', JString i)])"
| "background_error (TaskAlreadyExistsError i) =
     Some (''Background task already exists: '' @ i, ''TASK_ALREADY_EXISTS'', Some [(''taskId'', JString i)])"
| "background_error (TaskRunnerNotFoundError k) =
     Some (''No background task runner registered for kind: '' @ kind_name k, ''TASK_RUNNER_NOT_FOUND'',
       Some [(''kind'', JString (kind_name k))])"
| "background_error (TaskRunnerAlreadyRegisteredError k) =
     Some (''Background task runner already registered for kind: '' @ kind_name k, ''TASK_RUNNER_EXISTS'',
       Some [(''kind'', JString (kind_name k))])"
| "background_error (InvalidTaskStatusTransitionError i a b) =
     Some (''Invalid background task status transition for '' @ i @ '': '' @ status_name a @ '' -> '' @ status_name b,
       ''INVALID_TASK_STATUS_TRANSITION'',
       Some [(''taskId'', JString i), (''from'', JString (status_name a)), (''to'', JString (status_name b))])"
| "background_error (BackgroundTaskError m c d) = Some (m, c, d)"
| "background_error (PlainError m st) = None"
| "background_error (ThrownValue t) = None"

definition normalizeTaskError :: "thrown \<Rightarrow> string \<Rightarrow> task_error" where
  "normalizeTaskError err fallbackCode =
     (case background_error err of
        Some (m, c, d) \<Rightarrow> \<lparr>errorText = m, errorCode = Some c, errorDetails = d\<rparr>
      | None \<Rightarrow>
          (case err of
             PlainError m st \<Rightarrow> \<lparr>errorText = m, errorCode = Some fallbackCode,
               errorDetails = (if truthy_opt st then Some [(''stack'', JString (the st))] else None)\<rparr>
           | ThrownValue t \<Rightarrow> \<lparr>errorText = t, errorCode = Some fallbackCode, errorDetails = None\<rparr>
           | _ \<Rightarrow> \<lparr>errorText = [], errorCode = None, errorDetails = None\<rparr>))"

section \<open>The store\<close>

record task_store =
  storedTasks :: "(string \<times> background_task) list"
  storedEvents :: "task_lifecycle_event list"

definition newTaskStore :: task_store where
  "newTaskStore = \<lparr>storedTasks = [], storedEvents = []\<rparr>"

abbreviation task_at :: "task_store \<Rightarrow> string \<Rightarrow> background_task option" where
  "task_at st i \<equiv> map_of (storedTasks st) i"

abbreviation status_at :: "task_store \<Rightarrow> string \<Rightarrow> task_status option" where
  "status_at st i \<equiv> map_option taskStatus (task_at st i)"

definition createTask :: "background_task \<Rightarrow> task_store \<Rightarrow> (thrown + background_task) \<times> task_store" where
  "createTask task st =
     (if task_at st (taskId task) \<noteq> None then (Inl (TaskAlreadyExistsError (taskId task)), st)
      else (Inr task, st\<lparr>storedTasks := AList.update (taskId task) task (storedTasks st)\<rparr>))"

definition getTask :: "string \<Rightarrow> task_store \<Rightarrow> background_task option" where
  "getTask i st = task_at st i"

definition mergeRecord :: "jsobj option \<Rightarrow> jsobj option \<Rightarrow> jsobj option" where
  "mergeRecord current patch =
     (if current = None \<and> patch = None then None
      else Some (foldl (\<lambda>m (k, v). AList.update k v m) (or_default current []) (or_default patch [])))"

text \<open>\<open>{...current, ...patch}\<close>, field by field, with the time of the change.\<close>

definition applyPatch :: "background_task \<Rightarrow> background_task_patch \<Rightarrow> int \<Rightarrow> background_task" where
  "applyPatch t p time = t\<lparr>
     taskStatus := or_default (patchStatus p) (taskStatus t),
     taskDescription := or_default (patchDescription p) (taskDescription t),
     taskToolCallId := or_default (patchToolCallId p) (taskToolCallId t),
     parentMessageId := or_default (patchParentMessageId p) (parentMessageId t),
     parentTaskId := or_default (patchParentTaskId p) (parentTaskId t),
     updatedAt := or_default (patchUpdatedAt p) time,
     startedAt := or_default (patchStartedAt p) (startedAt t),
     endedAt := or_default (patchEndedAt p) (endedAt t),
     deliveredAt := or_default (patchDeliveredAt p) (deliveredAt t),
     outputRef := or_default (patchOutputRef p) (outputRef t),
     lastError := or_default (patchLastError p) (lastError t),
     taskUsage := or_default (patchUsage p) (taskUsage t),
     taskMetadata := mergeRecord (taskMetadata t) (patchMetadata p)\<rparr>"

definition patchTask ::
    "string \<Rightarrow> background_task_patch \<Rightarrow> int \<Rightarrow> task_store \<Rightarrow> (thrown + background_task) \<times> task_store" where
  "patchTask i p time st =
     (case task_at st i of
        None \<Rightarrow> (Inl (TaskNotFoundError i), st)
      | Some current \<Rightarrow>
          if patchStatus p \<noteq> None \<and> \<not> canTransitionTaskStatus (taskStatus current) (the (patchStatus p))
            then (Inl (InvalidTaskStatusTransitionError i (taskStatus current) (the (patchStatus p))), st)
          else (let updated = applyPatch current p time
                in (Inr updated, st\<lparr>storedTasks := AList.update i updated (storedTasks st)\<rparr>)))"

definition upper_status :: "task_status \<Rightarrow> string" where
  "upper_status st =
     map (\<lambda>c. if 97 \<le> code c \<and> code c \<le> 122 then char_of (code c - 32) else c) (status_name st)"

definition updateStatus ::
    "string \<Rightarrow> task_status \<Rightarrow> string option \<Rightarrow> int \<Rightarrow> task_store \<Rightarrow> (thrown + background_task) \<times> task_store" where
  "updateStatus i status reason time st =
     patchTask i
       (if truthy_opt reason \<and> status \<in> {TaskFailed, TaskCanceled, TaskLost}
          then emptyPatch\<lparr>patchStatus := Some status, patchLastError :=
            Some (Some \<lparr>errorText = the reason, errorCode = Some (upper_status status), errorDetails = None\<rparr>)\<rparr>
          else emptyPatch\<lparr>patchStatus := Some status\<rparr>) time st"

definition appendEvent :: "task_lifecycle_event \<Rightarrow> task_store \<Rightarrow> task_store" where
  "appendEvent e st = st\<lparr>storedEvents := storedEvents st @ [e]\<rparr>"

definition listEvents :: "string option \<Rightarrow> task_store \<Rightarrow> task_lifecycle_event list" where
  "listEvents i st = filter (\<lambda>e. \<not> truthy_opt i \<or> Some (eventTaskId e) = i) (storedEvents st)"

section \<open>Queries\<close>

definition matchesQuery :: "background_task \<Rightarrow> task_query \<Rightarrow> bool" where
  "matchesQuery t q \<longleftrightarrow>
     (case queryTaskIds q of None \<Rightarrow> True | Some ids \<Rightarrow> taskId t \<in> set ids)
     \<and> (truthy_opt (queryOwner q) \<longrightarrow> queryOwner q = Some (ownerSessionId t))
     \<and> (case queryParent q of None \<Rightarrow> True | Some parent \<Rightarrow> parentTaskId t = parent)
     \<and> (case queryKinds q of None \<Rightarrow> True | Some kinds \<Rightarrow> taskKind t \<in> set kinds)
     \<and> (case queryStatuses q of None \<Rightarrow> True | Some sts \<Rightarrow> taskStatus t \<in> set sts)
     \<and> (case createdAfter q of None \<Rightarrow> True | Some x \<Rightarrow> \<not> createdAt t < x)
     \<and> (case createdBefore q of None \<Rightarrow> True | Some x \<Rightarrow> \<not> createdAt t > x)
     \<and> (case updatedAfter q of None \<Rightarrow> True | Some x \<Rightarrow> \<not> updatedAt t < x)
     \<and> (case updatedBefore q of None \<Rightarrow> True | Some x \<Rightarrow> \<not> updatedAt t > x)"

fun getOrderValue :: "background_task \<Rightarrow> task_order_by \<Rightarrow> int" where
  "getOrderValue t ByUpdatedAt = updatedAt t"
| "getOrderValue t ByCompletedAt = or_default (endedAt t) 0"
| "getOrderValue t ByCreatedAt = createdAt t"

text \<open>\<open>Number.parseInt (s, 10)\<close>: spaces, a sign and the digits that follow; \<open>None\<close> is \<open>NaN\<close>.\<close>

definition parse_int :: "string \<Rightarrow> int option" where
  "parse_int s =
     (let t = dropWhile js_ws s;
          negative = (t \<noteq> [] \<and> hd t = CHR ''-'');
          u = (if t \<noteq> [] \<and> (hd t = CHR ''-'' \<or> hd t = CHR ''+'') then tl t else t);
          digits = takeWhile is_digit u
      in if digits = [] then None
         else Some ((if negative then - 1 else 1) * int (read_decimal digits)))"

definition parseCursor_tasks :: "string option \<Rightarrow> nat" where
  "parseCursor_tasks cursor =
     (if \<not> truthy_opt cursor then 0
      else (case parse_int (the cursor) of
          None \<Rightarrow> 0
        | Some v \<Rightarrow> if v > 0 then nat v else 0))"

definition DEFAULT_TASK_LIST_LIMIT :: nat where
  "DEFAULT_TASK_LIST_LIMIT = 100"

definition MAX_TASK_LIST_LIMIT :: nat where
  "MAX_TASK_LIST_LIMIT = 500"

definition clampLimit :: "rat option \<Rightarrow> nat" where
  "clampLimit limit =
     (case limit of
        None \<Rightarrow> DEFAULT_TASK_LIST_LIMIT
      | Some l \<Rightarrow> if l \<le> 0 then DEFAULT_TASK_LIST_LIMIT
          else min (nat \<lfloor>l\<rfloor>) MAX_TASK_LIST_LIMIT)"

text \<open>
  The matching tasks in the order asked for.  \<open>Array.sort\<close> is stable and so is \<open>sort_key\<close>: tasks
  with equal values stay in the order in which they were created, in both directions.
\<close>

definition matchingTasks :: "task_query \<Rightarrow> task_store \<Rightarrow> background_task list" where
  "matchingTasks q st =
     (let order = or_default (queryOrder q) Desc;
          orderBy = or_default (queryOrderBy q) ByCreatedAt
      in sort_key (\<lambda>t. if order = Asc then getOrderValue t orderBy else - getOrderValue t orderBy)
           (filter (\<lambda>t. matchesQuery t q) (map snd (storedTasks st))))"

record task_list_result =
  pageItems :: "background_task list"
  nextCursor :: "string option"

definition listTasks :: "task_query \<Rightarrow> task_store \<Rightarrow> task_list_result" where
  "listTasks q st =
     (let offset = parseCursor_tasks (queryCursor q);
          limit = clampLimit (queryLimit q);
          items = matchingTasks q st;
          page = take limit (drop offset items);
          nextOffset = offset + length page
      in \<lparr>pageItems = page,
          nextCursor = (if nextOffset < length items then Some (decimal nextOffset) else None)\<rparr>)"

text \<open>
  A client that follows the cursors, for at most \<open>n\<close> pages: the pages read, or \<open>None\<close> when there
  are more.
\<close>

primrec collectPages :: "nat \<Rightarrow> task_query \<Rightarrow> task_store \<Rightarrow> background_task list list option" where
  "collectPages 0 q st = None"
| "collectPages (Suc n) q st =
     (case nextCursor (listTasks q st) of
        None \<Rightarrow> Some [pageItems (listTasks q st)]
      | Some c \<Rightarrow> map_option (Cons (pageItems (listTasks q st)))
          (collectPages n (q\<lparr>queryCursor := Some c\<rparr>) st))"

lemma ws_code: "js_ws c \<Longrightarrow> code c < 33 \<or> code c = 160"
  unfolding js_ws_def by (elim disjE) (simp_all add: code_def)

lemma digit_plain:
  assumes "is_digit c"
  shows "\<not> js_ws c" "c \<noteq> CHR ''-''" "c \<noteq> CHR ''+''"
proof -
  have c: "48 \<le> code c" "code c \<le> 57" using assms by (simp_all add: is_digit_def)
  show "\<not> js_ws c" using ws_code [of c] c by auto
  show "c \<noteq> CHR ''-''" using c by (auto simp: code_def)
  show "c \<noteq> CHR ''+''" using c by (auto simp: code_def)
qed

lemma parse_int_decimal: "parse_int (decimal n) = Some (int n)"
proof -
  have d: "list_all is_digit (decimal n)" "decimal n \<noteq> []" by (simp_all add: decimal_digits)
  then obtain c r where c: "decimal n = c # r" "is_digit c" by (cases "decimal n") auto
  have "\<not> js_ws c" "c \<noteq> CHR ''-''" "c \<noteq> CHR ''+''" using digit_plain [OF c(2)] by simp_all
  then have "dropWhile js_ws (decimal n) = decimal n" "hd (decimal n) \<noteq> CHR ''-''" "hd (decimal n) \<noteq> CHR ''+''"
    using c(1) by simp_all
  then show ?thesis using d
    by (simp add: parse_int_def Let_def list_all_iff takeWhile_eq_all_conv [THEN iffD2])
qed

lemma parseCursor_decimal [simp]: "parseCursor_tasks (Some (decimal n)) = n"
  by (simp add: parseCursor_tasks_def parse_int_decimal decimal_digits)

lemma matching_cursor [simp]: "matchingTasks (q\<lparr>queryCursor := c\<rparr>) st = matchingTasks q st"
  by (simp add: matchingTasks_def matchesQuery_def)

lemma matching_set: "set (matchingTasks q st) = {t \<in> snd ` set (storedTasks st). matchesQuery t q}"
  by (auto simp: matchingTasks_def Let_def)

lemma collect_pages:
  assumes "0 < clampLimit (queryLimit q)"
    and "length (matchingTasks q st) \<le> parseCursor_tasks (queryCursor q) + n"
  shows "\<exists>pages. collectPages (Suc n) q st = Some pages
           \<and> concat pages = drop (parseCursor_tasks (queryCursor q)) (matchingTasks q st)"
  using assms
proof (induction n arbitrary: q)
  case 0
  then show ?case by (simp add: listTasks_def Let_def)
next
  case (Suc n)
  let ?o = "parseCursor_tasks (queryCursor q)" and ?l = "clampLimit (queryLimit q)"
  let ?m = "matchingTasks q st"
  show ?case
  proof (cases "?o + ?l < length ?m")
    case False
    have "\<not> ?o + (length ?m - ?o) < length ?m \<or> ?o + (length ?m - ?o) = length ?m" by arith
    with False show ?thesis by (auto simp: listTasks_def Let_def min_def)
  next
    case True
    let ?q = "q\<lparr>queryCursor := Some (decimal (?o + ?l))\<rparr>"
    have "\<exists>pages. collectPages (Suc n) ?q st = Some pages
           \<and> concat pages = drop (parseCursor_tasks (queryCursor ?q)) (matchingTasks ?q st)"
      using Suc.prems by (intro Suc.IH) auto
    then obtain pages where p: "collectPages (Suc n) ?q st = Some pages" "concat pages = drop (?o + ?l) ?m"
      by auto
    have "listTasks q st = \<lparr>pageItems = take ?l (drop ?o ?m), nextCursor = Some (decimal (?o + ?l))\<rparr>"
      using True by (simp add: listTasks_def Let_def)
    then have "collectPages (Suc (Suc n)) q st = Some (take ?l (drop ?o ?m) # pages)"
      using p(1) by (simp del: collectPages.simps(2) add: collectPages.simps(2) [of "Suc n"])
    moreover have "take ?l (drop ?o ?m) @ drop (?o + ?l) ?m = drop ?o ?m"
      by (metis append_take_drop_id add.commute drop_drop)
    ultimately show ?thesis using p(2) by simp
  qed
qed

end
