(* ===== verification/Utf8.thy ===== *)
theory Utf8
  imports Main
begin

text \<open>
  The text conversions of the runtime library behind \<open>Buffer.from(s, 'utf8')\<close> and
  \<open>buffer.toString('utf8')\<close>.  A JavaScript string is a list of UTF-16 code units, a buffer a list of
  bytes, both as natural numbers.  A lone surrogate is written as the replacement character; bytes
  that are no UTF-8 are read as one replacement character for each maximal part of a sequence.
\<close>

section \<open>Code units, code points and bytes\<close>

definition REPLACEMENT :: nat where
  "REPLACEMENT = 65533"

definition high_surrogate :: "nat \<Rightarrow> bool" where
  "high_surrogate u \<longleftrightarrow> 55296 \<le> u \<and> u < 56320"

definition low_surrogate :: "nat \<Rightarrow> bool" where
  "low_surrogate u \<longleftrightarrow> 56320 \<le> u \<and> u < 57344"

fun code_points :: "nat list \<Rightarrow> nat list" where
  "code_points [] = []"
| "code_points [u] = [if high_surrogate u \<or> low_surrogate u then REPLACEMENT else u]"
| "code_points (u # v # us) =
     (if high_surrogate u then
        (if low_surrogate v then (65536 + (u - 55296) * 1024 + (v - 56320)) # code_points us
         else REPLACEMENT # code_points (v # us))
      else if low_surrogate u then REPLACEMENT # code_points (v # us)
      else u # code_points (v # us))"

definition units_of :: "nat \<Rightarrow> nat list" where
  "units_of c =
     (if c < 65536 then [c] else [55296 + (c - 65536) div 1024, 56320 + (c - 65536) mod 1024])"

definition bytes_of :: "nat \<Rightarrow> nat list" where
  "bytes_of c =
     (if c < 128 then [c]
      else if c < 2048 then [192 + c div 64, 128 + c mod 64]
      else if c < 65536 then [224 + c div 4096, 128 + c div 64 mod 64, 128 + c mod 64]
      else [240 + c div 262144, 128 + c div 4096 mod 64, 128 + c div 64 mod 64, 128 + c mod 64])"

definition utf8_encode :: "nat list \<Rightarrow> nat list" where
  "utf8_encode us = concat (map bytes_of (code_points us))"

section \<open>Reading bytes\<close>

definition continuation :: "nat \<Rightarrow> bool" where
  "continuation b \<longleftrightarrow> 128 \<le> b \<and> b < 192"

definition sequence_width :: "nat \<Rightarrow> nat" where
  "sequence_width b =
     (if 194 \<le> b \<and> b < 224 then 2 else if 224 \<le> b \<and> b < 240 then 3
      else if 240 \<le> b \<and> b < 245 then 4 else 0)"

definition second_fits :: "nat \<Rightarrow> nat \<Rightarrow> bool" where
  "second_fits b c \<longleftrightarrow>
     (if b = 224 then 160 \<le> c \<and> c < 192
      else if b = 237 then 128 \<le> c \<and> c < 160
      else if b = 240 then 144 \<le> c \<and> c < 192
      else if b = 244 then 128 \<le> c \<and> c < 144
      else continuation c)"

text \<open>The code point that starts with a byte, and how many of the following bytes belong to it.\<close>

definition read_point :: "nat \<Rightarrow> nat list \<Rightarrow> nat \<times> nat" where
  "read_point b bs =
     (if b < 128 then (b, 0)
      else (case bs of
          [] \<Rightarrow> (REPLACEMENT, 0)
        | c # cs \<Rightarrow>
            if sequence_width b = 0 \<or> \<not> second_fits b c then (REPLACEMENT, 0)
            else if sequence_width b = 2 then ((b - 192) * 64 + (c - 128), 1)
            else (case cs of
                [] \<Rightarrow> (REPLACEMENT, 1)
              | d # ds \<Rightarrow>
                  if \<not> continuation d then (REPLACEMENT, 1)
                  else if sequence_width b = 3
                    then ((b - 224) * 4096 + (c - 128) * 64 + (d - 128), 2)
                  else (case ds of
                      [] \<Rightarrow> (REPLACEMENT, 2)
                    | e # es \<Rightarrow>
                        if \<not> continuation e then (REPLACEMENT, 2)
                        else ((b - 240) * 262144 + (c - 128) * 4096 + (d - 128) * 64 + (e - 128), 3)))))"

fun read_points :: "nat list \<Rightarrow> nat list" where
  "read_points [] = []"
| "read_points (b # bs) = fst (read_point b bs) # read_points (drop (snd (read_point b bs)) bs)"

definition utf8_decode :: "nat list \<Rightarrow> nat list" where
  "utf8_decode bs = concat (map units_of (read_points bs))"

section \<open>Well-formed text is read back\<close>

definition scalar :: "nat \<Rightarrow> bool" where
  "scalar c \<longleftrightarrow> c < 55296 \<or> 57344 \<le> c \<and> c < 1114112"

text \<open>Text in which every surrogate is half of a pair.\<close>

fun well_formed :: "nat list \<Rightarrow> bool" where
  "well_formed [] = True"
| "well_formed [u] \<longleftrightarrow> u < 65536 \<and> \<not> high_surrogate u \<and> \<not> low_surrogate u"
| "well_formed (u # v # us) \<longleftrightarrow>
     u < 65536 \<and>
     (if high_surrogate u then low_surrogate v \<and> well_formed us
      else \<not> low_surrogate u \<and> well_formed (v # us))"

lemma base64:
  fixes c :: nat
  shows "c div 4096 * 4096 + c div 64 mod 64 * 64 + c mod 64 = c"
    and "c div 262144 * 262144 + c div 4096 mod 64 * 4096 + c div 64 mod 64 * 64 + c mod 64 = c"
proof -
  have a: "c div 64 div 64 = c div 4096" "c div 4096 div 64 = c div 262144"
    by (simp_all add: div_mult2_eq [symmetric])
  have "c = c div 64 * 64 + c mod 64" "c div 64 = c div 4096 * 64 + c div 64 mod 64"
      "c div 4096 = c div 262144 * 64 + c div 4096 mod 64"
    using div_mult_mod_eq [of c 64] div_mult_mod_eq [of "c div 64" 64] div_mult_mod_eq [of "c div 4096" 64]
    by (simp_all add: a)
  then show "c div 4096 * 4096 + c div 64 mod 64 * 64 + c mod 64 = c"
    "c div 262144 * 262144 + c div 4096 mod 64 * 4096 + c div 64 mod 64 * 64 + c mod 64 = c"
    by linarith+
qed

lemma surrogate_pair:
  assumes "55296 \<le> u" "u < 56320" "56320 \<le> v" "v < 57344"
  shows "units_of (65536 + (u - 55296) * 1024 + (v - 56320)) = [u, v]"
proof -
  have r: "v - 56320 < 1024" using assms by linarith
  have "((u - 55296) * 1024 + r) div 1024 = u - 55296" "((u - 55296) * 1024 + r) mod 1024 = r"
    if "r < 1024" for r
    using that by simp_all
  note this [OF r]
  moreover have "65536 + (u - 55296) * 1024 + (v - 56320) - 65536 = (u - 55296) * 1024 + (v - 56320)"
    by (simp only: add.assoc diff_add_inverse)
  ultimately have "units_of (65536 + (u - 55296) * 1024 + (v - 56320))
      = [55296 + (u - 55296), 56320 + (v - 56320)]"
    unfolding units_of_def by simp
  then show ?thesis using assms by simp
qed

lemma read_point_bytes:
  assumes "scalar c"
  shows "\<exists>b bs. bytes_of c = b # bs \<and> read_point b (bs @ rest) = (c, length bs)"
proof -
  consider (one) "c < 128" | (two) "128 \<le> c" "c < 2048" | (three) "2048 \<le> c" "c < 65536"
    | (four) "65536 \<le> c" by linarith
  then show ?thesis
  proof cases
    case one
    then show ?thesis by (simp add: bytes_of_def read_point_def)
  next
    case two
    then have "2 \<le> c div 64" "c div 64 < 32" by auto
    then show ?thesis using two
      by (simp add: bytes_of_def read_point_def sequence_width_def second_fits_def continuation_def)
  next
    case three
    have d: "c div 4096 < 16" "c div 64 mod 64 < 64" using three by auto
    have "c div 4096 = 0 \<longrightarrow> 32 \<le> c div 64 mod 64 \<and> c div 64 < 64" using three by auto
    moreover have "c div 64 mod 64 < 32" if "c div 4096 = 13"
    proof -
      have "c < 55296" using assms three that by (auto simp: scalar_def)
      then have "c div 64 < 864" by simp
      moreover have "c div 64 = 13 * 64 + c div 64 mod 64"
        using that div_mult_mod_eq [of "c div 64" 64] by (simp add: div_mult2_eq [symmetric])
      ultimately show ?thesis by simp
    qed
    ultimately show ?thesis using three d base64(1) [of c]
      by (simp add: bytes_of_def read_point_def sequence_width_def second_fits_def continuation_def)
  next
    case four
    then have c: "c < 1114112" using assms by (simp add: scalar_def)
    have d: "c div 262144 < 5" "c div 4096 mod 64 < 64" using c by auto
    have "c div 262144 = 0 \<longrightarrow> 16 \<le> c div 4096 mod 64 \<and> c div 4096 < 64" using four by auto
    moreover have "c div 4096 mod 64 < 16" if "c div 262144 = 4"
    proof -
      have "c div 4096 < 272" using c by simp
      moreover have "c div 4096 = 4 * 64 + c div 4096 mod 64"
        using that div_mult_mod_eq [of "c div 4096" 64] by (simp add: div_mult2_eq [symmetric])
      ultimately show ?thesis by simp
    qed
    ultimately show ?thesis using four d base64(2) [of c]
      by (simp add: bytes_of_def read_point_def sequence_width_def second_fits_def continuation_def)
  qed
qed

lemma read_points_encode: "list_all scalar cs \<Longrightarrow> read_points (concat (map bytes_of cs) @ rest) = cs @ read_points rest"
proof (induction cs)
  case (Cons c cs)
  obtain b bs where b: "bytes_of c = b # bs"
      "read_point b (bs @ concat (map bytes_of cs) @ rest) = (c, length bs)"
    using read_point_bytes [of c "concat (map bytes_of cs) @ rest"] Cons.prems by auto
  with Cons show ?case by simp
qed simp

lemma code_points_scalar: "well_formed us \<Longrightarrow> list_all scalar (code_points us)"
  by (induction us rule: well_formed.induct)
    (auto simp: scalar_def high_surrogate_def low_surrogate_def split: if_splits)

lemma units_plain: "c < 65536 \<Longrightarrow> units_of c = [c]"
  by (simp add: units_of_def)

lemma units_code_points: "well_formed us \<Longrightarrow> concat (map units_of (code_points us)) = us"
proof (induction us rule: well_formed.induct)
  case (3 u v us)
  show ?case
  proof (cases "high_surrogate u")
    case True
    with 3 have v: "low_surrogate v" "concat (map units_of (code_points us)) = us" by simp_all
    have "units_of (65536 + (u - 55296) * 1024 + (v - 56320)) = [u, v]"
      using True v(1) by (intro surrogate_pair) (simp_all add: high_surrogate_def low_surrogate_def)
    then show ?thesis using True v by (simp only: code_points.simps if_True list.map concat.simps append.simps)
  next
    case False
    with 3 show ?thesis by (simp add: units_plain)
  qed
qed (simp_all add: units_plain)

theorem utf8_round_trip: "well_formed us \<Longrightarrow> utf8_decode (utf8_encode us) = us"
  using read_points_encode [of "code_points us" "[]"]
  by (simp add: utf8_decode_def utf8_encode_def code_points_scalar units_code_points)

section \<open>ASCII text\<close>

definition ascii :: "nat list \<Rightarrow> bool" where
  "ascii us \<longleftrightarrow> list_all (\<lambda>u. u < 128) us"

lemma ascii_points: "ascii us \<Longrightarrow> code_points us = us"
  by (induction us rule: code_points.induct) (auto simp: ascii_def high_surrogate_def low_surrogate_def)

lemma ascii_encode: "ascii us \<Longrightarrow> utf8_encode us = us"
  unfolding utf8_encode_def by (simp add: ascii_points) (induction us, auto simp: ascii_def bytes_of_def)

lemma ascii_decode: "ascii bs \<Longrightarrow> utf8_decode bs = bs"
  unfolding utf8_decode_def
  by (induction bs) (auto simp: ascii_def read_point_def units_of_def)

lemma ascii_parts: "ascii us \<Longrightarrow> ascii (take n us)" "ascii us \<Longrightarrow> ascii (drop n us)"
  by (auto simp: ascii_def list_all_iff dest: in_set_takeD in_set_dropD)

end
