(* ===== verification/TaskOutput.thy ===== *)
theory TaskOutput
  imports Utf8 UriText TaskStore
begin

text \<open>
  The outputs of background tasks (\<open>in-memory-output-store.ts\<close> of the package \<open>background-task\<close>):
  chunks of text per task, read back by byte offsets of their UTF-8 form.  The text of a chunk is
  a list of UTF-16 code units; offsets and limits are whole numbers.
\<close>

section \<open>The store\<close>

datatype task_output_stream = Stdout | Stderr | Transcript | FinalResult

record task_output_chunk =
  chunkTaskId :: string
  chunkStream :: "task_output_stream option"
  chunkContent :: "nat list"
  chunkOffset :: "nat option"
  chunkTimestamp :: "int option"
  chunkMetadata :: "jsobj option"

record output_record =
  chunks :: "task_output_chunk list"
  outputSummary :: "string option"
  recordOutputRef :: "task_output_ref option"

record output_store =
  outputs :: "(string \<times> output_record) list"
  outputKind :: task_output_kind
  uriPrefix :: string

record task_output_read_options =
  readOffset :: "int option"
  limitBytes :: "int option"
  readStream :: "task_output_stream option"

record task_output_read_result =
  readContent :: "nat list"
  nextOffset :: int
  readTruncated :: "bool option"
  readSummary :: "string option"
  readOutputRef :: "task_output_ref option"

definition newOutputStore :: "task_output_kind option \<Rightarrow> string option \<Rightarrow> output_store" where
  "newOutputStore kind prefix = \<lparr>outputs = [], outputKind = or_default kind OutMemory,
     uriPrefix = or_default prefix ''memory://background-task/''\<rparr>"

definition emptyRecord :: output_record where
  "emptyRecord = \<lparr>chunks = [], outputSummary = None, recordOutputRef = None\<rparr>"

definition recordOf :: "string \<Rightarrow> output_store \<Rightarrow> output_record" where
  "recordOf i os = or_default (map_of (outputs os) i) emptyRecord"

definition byteLength :: "nat list \<Rightarrow> nat" where
  "byteLength content = length (utf8_encode content)"

definition contentOf :: "task_output_stream option \<Rightarrow> task_output_chunk list \<Rightarrow> nat list" where
  "contentOf stream cs = concat (map chunkContent
     (filter (\<lambda>c. stream = None \<or> or_default (chunkStream c) Stdout = the stream) cs))"

definition getContent :: "string \<Rightarrow> task_output_stream option \<Rightarrow> output_store \<Rightarrow> nat list" where
  "getContent i stream os =
     (case map_of (outputs os) i of None \<Rightarrow> [] | Some r \<Rightarrow> contentOf stream (chunks r))"

definition appendChunk :: "task_output_chunk \<Rightarrow> int \<Rightarrow> output_store \<Rightarrow> task_output_ref \<times> output_store" where
  "appendChunk chunk time os =
     (let r = recordOf (chunkTaskId chunk) os;
          stream = or_default (chunkStream chunk) Stdout;
          offset = or_default (chunkOffset chunk) (byteLength (getContent (chunkTaskId chunk) (Some stream) os));
          stamp = or_default (chunkTimestamp chunk) time;
          stored = chunk\<lparr>chunkStream := Some stream, chunkOffset := Some offset, chunkTimestamp := Some stamp\<rparr>;
          ref = \<lparr>refTaskId = chunkTaskId chunk, refKind = outputKind os,
                 refUri = uriPrefix os @ encodeURIComponent (chunkTaskId chunk),
                 refOffset = Some (offset + byteLength (chunkContent chunk)),
                 refUpdatedAt = Some stamp, refMetadata = None\<rparr>
      in (ref, os\<lparr>outputs := AList.update (chunkTaskId chunk)
            (r\<lparr>chunks := chunks r @ [stored], recordOutputRef := Some ref\<rparr>) (outputs os)\<rparr>))"

text \<open>\<open>buffer.subarray (start, end)\<close>: an end below zero counts from the end of the buffer.\<close>

definition subarray :: "nat list \<Rightarrow> nat \<Rightarrow> int \<Rightarrow> nat list" where
  "subarray bs start end =
     (let e = (if end < 0 then max 0 (int (length bs) + end) else min (int (length bs)) end)
      in take (nat e - start) (drop start bs))"

definition sliceUtf8 :: "nat list \<Rightarrow> int \<Rightarrow> int option \<Rightarrow> nat list \<times> int \<times> bool" where
  "sliceUtf8 content offset limit =
     (let buffer = utf8_encode content;
          len = int (length buffer);
          start = min offset len;
          end = (case limit of None \<Rightarrow> len | Some l \<Rightarrow> min len (start + l))
      in (utf8_decode (subarray buffer (nat start) end), end, end < len))"

definition readOutputText :: "string \<Rightarrow> task_output_read_options \<Rightarrow> output_store \<Rightarrow> task_output_read_result" where
  "readOutputText i opts os =
     (case map_of (outputs os) i of
        None \<Rightarrow> \<lparr>readContent = [], nextOffset = or_default (readOffset opts) 0, readTruncated = None,
                 readSummary = None, readOutputRef = None\<rparr>
      | Some r \<Rightarrow>
          (case sliceUtf8 (getContent i (readStream opts) os) (max 0 (or_default (readOffset opts) 0)) (limitBytes opts) of
             (content, next, truncated) \<Rightarrow>
               \<lparr>readContent = content, nextOffset = next, readTruncated = Some truncated,
                readSummary = outputSummary r, readOutputRef = recordOutputRef r\<rparr>))"

definition tailOutput :: "string \<Rightarrow> int option \<Rightarrow> output_store \<Rightarrow> task_output_read_result" where
  "tailOutput i limit os =
     (let l = or_default limit 8192
      in readOutputText i \<lparr>readOffset = Some (max 0 (int (byteLength (getContent i None os)) - l)),
           limitBytes = Some l, readStream = None\<rparr> os)"

definition finalizeOutput :: "string \<Rightarrow> string option \<Rightarrow> output_store \<Rightarrow> output_store" where
  "finalizeOutput i summary os =
     os\<lparr>outputs := AList.update i ((recordOf i os)\<lparr>outputSummary := summary\<rparr>) (outputs os)\<rparr>"

text \<open>
  A client that reads in steps of \<open>limit\<close> bytes and goes on at \<open>nextOffset\<close> while the result is
  truncated, for at most \<open>n\<close> reads.
\<close>

primrec readInSteps ::
    "nat \<Rightarrow> string \<Rightarrow> task_output_stream option \<Rightarrow> int \<Rightarrow> int \<Rightarrow> output_store \<Rightarrow> nat list list option" where
  "readInSteps 0 i stream offset limit os = None"
| "readInSteps (Suc n) i stream offset limit os =
     (let r = readOutputText i \<lparr>readOffset = Some offset, limitBytes = Some limit, readStream = stream\<rparr> os
      in if readTruncated r = Some True
           then map_option (Cons (readContent r)) (readInSteps n i stream (nextOffset r) limit os)
         else Some [readContent r])"

section \<open>Appending and reading\<close>

lemma getContent_append:
  "getContent i stream (snd (appendChunk chunk time os)) =
     getContent i stream os
       @ (if chunkTaskId chunk = i \<and> (stream = None \<or> stream = Some (or_default (chunkStream chunk) Stdout))
            then chunkContent chunk else [])"
  by (cases stream) (auto simp: appendChunk_def getContent_def contentOf_def recordOf_def emptyRecord_def
      Let_def update_conv' split: option.splits)

lemma getContent_finalize: "getContent i stream (finalizeOutput j summary os) = getContent i stream os"
  by (auto simp: finalizeOutput_def getContent_def contentOf_def recordOf_def emptyRecord_def
      update_conv' split: option.splits)

lemma code_points_append: "well_formed us \<Longrightarrow> code_points (us @ vs) = code_points us @ code_points vs"
  by (induction us rule: well_formed.induct)
    (cases vs; auto split: if_splits)+

lemma encode_append: "well_formed us \<Longrightarrow> utf8_encode (us @ vs) = utf8_encode us @ utf8_encode vs"
  by (simp add: utf8_encode_def code_points_append)

lemma append_ref_offset:
  assumes "chunkOffset chunk = None" "well_formed (getContent i (Some stream) os)"
    "chunkTaskId chunk = i" "or_default (chunkStream chunk) Stdout = stream"
  shows "refOffset (fst (appendChunk chunk time os))
    = Some (byteLength (getContent i (Some stream) (snd (appendChunk chunk time os))))"
  using assms by (simp add: getContent_append byteLength_def encode_append)
    (simp add: appendChunk_def Let_def byteLength_def)

lemma read_whole:
  assumes "map_of (outputs os) i = Some r" "well_formed (getContent i stream os)"
  shows "readContent (readOutputText i \<lparr>readOffset = None, limitBytes = None, readStream = stream\<rparr> os)
    = getContent i stream os"
  using assms by (simp add: readOutputText_def sliceUtf8_def subarray_def Let_def utf8_round_trip)

lemma slice_ascii:
  assumes "ascii content" "0 \<le> offset" "0 < limit"
  shows "sliceUtf8 content offset (Some limit) =
    (let start = min (nat offset) (length content); end = min (length content) (start + nat limit)
     in (take (end - start) (drop start content), int end, end < length content))"
  using assms
  by (auto simp: sliceUtf8_def subarray_def Let_def ascii_encode ascii_decode ascii_parts min_def nat_add_distrib)

lemma read_step_ascii:
  assumes "map_of (outputs os) i = Some r" "ascii content" "content = getContent i stream os" "0 < limit"
  shows "readInSteps (Suc n) i stream (int o') limit os
    = (if o' + nat limit < length content
         then map_option (Cons (take (nat limit) (drop o' content)))
                (readInSteps n i stream (int (o' + nat limit)) limit os)
       else Some [drop o' content])"
proof -
  have "sliceUtf8 content (int o') (Some limit) =
    (let start = min o' (length content); end = min (length content) (start + nat limit)
     in (take (end - start) (drop start content), int end, end < length content))"
    using slice_ascii [of content "int o'" limit] assms by simp
  then show ?thesis using assms(1,4)
    by (auto simp: readOutputText_def Let_def min_def simp flip: assms(3))
qed

lemma read_in_steps:
  assumes "map_of (outputs os) i = Some r" "ascii (getContent i stream os)" "0 < limit"
  shows "length (getContent i stream os) \<le> o' + n \<Longrightarrow>
    \<exists>parts. readInSteps (Suc n) i stream (int o') limit os = Some parts
      \<and> concat parts = drop o' (getContent i stream os)"
proof (induction n arbitrary: o')
  case 0
  then show ?case by (simp only: read_step_ascii [OF assms(1,2) refl assms(3)]) simp
next
  case (Suc n)
  let ?c = "getContent i stream os"
  show ?case
  proof (cases "o' + nat limit < length ?c")
    case True
    have "length ?c \<le> (o' + nat limit) + n" using Suc.prems assms(3) by simp
    from Suc.IH [OF this] obtain parts where p:
        "readInSteps (Suc n) i stream (int (o' + nat limit)) limit os = Some parts"
        "concat parts = drop (o' + nat limit) ?c" by auto
    moreover have "take (nat limit) (drop o' ?c) @ drop (o' + nat limit) ?c = drop o' ?c"
      by (metis append_take_drop_id add.commute drop_drop)
    ultimately show ?thesis using True
      by (simp only: read_step_ascii [OF assms(1,2) refl assms(3), of "Suc n"]) simp
  next
    case False
    then show ?thesis
      by (simp only: read_step_ascii [OF assms(1,2) refl assms(3), of "Suc n"]) simp
  qed
qed

text \<open>A step that ends inside a character loses it.\<close>

lemma step_cuts_character:
  assumes "map_of (outputs os) i = Some r" "getContent i stream os = [233]"
  shows "readInSteps 3 i stream 0 1 os = Some [[REPLACEMENT], [REPLACEMENT]]"
proof -
  have "utf8_encode [233] = [195, 169]"
    by (simp add: utf8_encode_def bytes_of_def high_surrogate_def low_surrogate_def)
  moreover have "utf8_decode [195] = [REPLACEMENT]" "utf8_decode [169] = [REPLACEMENT]"
    by (simp_all add: utf8_decode_def read_point_def units_of_def REPLACEMENT_def sequence_width_def)
  ultimately show ?thesis using assms
    by (simp add: numeral_3_eq_3 readOutputText_def sliceUtf8_def subarray_def Let_def)
qed

end
