(* ===== verification/TaskManager.thy ===== *)
theory TaskManager
  imports TaskStore TaskOutput
begin

text \<open>
  The manager of background tasks (\<open>manager.ts\<close> of the package \<open>background-task\<close>) on the stores of
  \<open>in-memory-store.ts\<close> and \<open>in-memory-output-store.ts\<close>.  Its methods are asynchronous: between two
  \<open>await\<close>s a call runs alone, and calls interleave at the \<open>await\<close>s.  A call in progress is a value of
  \<open>call_state\<close>, which says where it waits and what it has in hand; \<open>resume\<close> and \<open>runnerSettles\<close> are
  the code from one \<open>await\<close> to the next.  A store method runs when it is called, and its promise is
  awaited after.  The runners, the clock and the generators of ids are the environment.
\<close>

section \<open>State\<close>

record task_env =
  clock :: "nat \<Rightarrow> int"
  taskIdGenerator :: "nat \<Rightarrow> string"
  eventIdGenerator :: "nat \<Rightarrow> string"

record start_request =
  requestKind :: task_kind
  requestOwner :: string
  requestDescription :: "string option"
  requestToolCallId :: "string option"
  requestParentMessageId :: "string option"
  requestParentTaskId :: "string option"
  requestInput :: jsval
  requestMetadata :: "jsobj option"

record complete_options =
  completeStatus :: "task_status option"
  completeOutputRef :: "task_output_ref option"
  completeSummary :: "string option"
  completeUsage :: "task_usage option"
  completeMetadata :: "jsobj option"

datatype call_state =
    StartCreated background_task
  | StartAnnounced background_task
  | StartRunning background_task
  | StartCaught background_task thrown
  | StopRead string "string option" "background_task option"
  | StopPatched background_task task_kind "string option"
  | StopAnnounced string task_kind "string option"
  | StopRunning string "string option"
  | StopCaught string thrown
  | CompleteRead string complete_options "background_task option"
  | CompleteFinalized string complete_options
  | FailRead string thrown "background_task option"
  | Reporting background_task task_event_type jsobj
  | Returning background_task
  | Finished "thrown + background_task"

datatype runner_outcome = RunnerReturns "task_output_ref option" | RunnerThrows thrown

record task_manager =
  taskStore :: task_store
  outputStore :: output_store
  runners :: "task_kind list"
  lifecycleSequence :: nat
  clockReads :: nat
  taskIdsMade :: nat
  eventIdsMade :: nat
  calls :: "call_state list"

definition newTaskManager :: "task_kind list \<Rightarrow> task_manager" where
  "newTaskManager kinds = \<lparr>taskStore = newTaskStore, outputStore = newOutputStore None None,
     runners = kinds, lifecycleSequence = 0, clockReads = 0, taskIdsMade = 0, eventIdsMade = 0, calls = []\<rparr>"

text \<open>A second runner for a kind is refused; the constructor registers its runners one after the other.\<close>

definition registerRunner :: "task_kind \<Rightarrow> task_manager \<Rightarrow> thrown + task_manager" where
  "registerRunner kind m =
     (if kind \<in> set (runners m) then Inl (TaskRunnerAlreadyRegisteredError kind)
      else Inr (m\<lparr>runners := runners m @ [kind]\<rparr>))"

fun registerRunners :: "task_kind list \<Rightarrow> task_manager \<Rightarrow> thrown + task_manager" where
  "registerRunners [] m = Inr m"
| "registerRunners (k # ks) m =
     (case registerRunner k m of Inl e \<Rightarrow> Inl e | Inr m' \<Rightarrow> registerRunners ks m')"

definition constructManager :: "task_kind list \<Rightarrow> thrown + task_manager" where
  "constructManager kinds = registerRunners kinds (newTaskManager [])"

lemma registerRunners_distinct:
  "distinct (runners m @ ks) \<Longrightarrow> registerRunners ks m = Inr (m\<lparr>runners := runners m @ ks\<rparr>)"
  by (induction ks arbitrary: m) (simp_all add: registerRunner_def)

lemma constructManager_distinct: "distinct kinds \<Longrightarrow> constructManager kinds = Inr (newTaskManager kinds)"
  using registerRunners_distinct [of "newTaskManager []" kinds]
  by (simp add: constructManager_def newTaskManager_def)

definition readClock :: "task_env \<Rightarrow> task_manager \<Rightarrow> int \<times> task_manager" where
  "readClock env m = (clock env (clockReads m), m\<lparr>clockReads := Suc (clockReads m)\<rparr>)"

section \<open>The calls of the stores\<close>

definition storePatch ::
    "task_env \<Rightarrow> string \<Rightarrow> background_task_patch \<Rightarrow> task_manager \<Rightarrow> (thrown + background_task) \<times> task_manager" where
  "storePatch env i p m =
     (case patchTask i p (clock env (clockReads m)) (taskStore m) of
        (Inl err, st) \<Rightarrow> (Inl err, m)
      | (Inr t, st) \<Rightarrow> (Inr t, m\<lparr>taskStore := st,
          clockReads := (if patchUpdatedAt p = None then Suc (clockReads m) else clockReads m)\<rparr>))"

definition emit :: "task_env \<Rightarrow> background_task \<Rightarrow> task_event_type \<Rightarrow> jsobj \<Rightarrow> task_manager \<Rightarrow> task_manager" where
  "emit env t ty payload m =
     m\<lparr>taskStore := appendEvent
         \<lparr>eventId = eventIdGenerator env (eventIdsMade m), eventTaskId = taskId t,
          eventOwner = ownerSessionId t, eventType = ty, eventTimestamp = clock env (clockReads m),
          eventSequence = Some (Suc (lifecycleSequence m)), eventPayload = Some payload\<rparr> (taskStore m),
       eventIdsMade := Suc (eventIdsMade m), clockReads := Suc (clockReads m),
       lifecycleSequence := Suc (lifecycleSequence m)\<rparr>"

section \<open>The methods, from one await to the next\<close>

definition startCall :: "task_env \<Rightarrow> start_request \<Rightarrow> task_manager \<Rightarrow> call_state \<times> task_manager" where
  "startCall env req m =
     (if requestKind req \<notin> set (runners m)
        then (Finished (Inl (TaskRunnerNotFoundError (requestKind req))), m)
      else
        (let now = clock env (clockReads m);
             task = \<lparr>taskId = taskIdGenerator env (taskIdsMade m), taskKind = requestKind req,
               taskStatus = TaskQueued, ownerSessionId = requestOwner req,
               taskDescription = requestDescription req, taskToolCallId = requestToolCallId req,
               parentMessageId = requestParentMessageId req, parentTaskId = requestParentTaskId req,
               createdAt = now, updatedAt = now, startedAt = None, endedAt = None, deliveredAt = None,
               outputRef = None, lastError = None, taskUsage = None, taskMetadata = requestMetadata req\<rparr>;
             m' = m\<lparr>clockReads := Suc (clockReads m), taskIdsMade := Suc (taskIdsMade m)\<rparr>
         in (case createTask task (taskStore m) of
               (Inl err, st) \<Rightarrow> (Finished (Inl err), m')
             | (Inr created, st) \<Rightarrow> (StartCreated created, m'\<lparr>taskStore := st\<rparr>))))"

definition startCatch :: "task_env \<Rightarrow> background_task \<Rightarrow> thrown \<Rightarrow> task_manager \<Rightarrow> call_state \<times> task_manager" where
  "startCatch env created err m =
     (case readClock env m of
        (time, m1) \<Rightarrow>
          (case storePatch env (taskId created)
             (emptyPatch\<lparr>patchStatus := Some TaskFailed, patchEndedAt := Some (Some time),
                patchLastError := Some (Some (normalizeTaskError err ''TASK_START_FAILED''))\<rparr>) m1 of
             (Inl e, m2) \<Rightarrow> (Finished (Inl e), m2)
           | (Inr failed, m2) \<Rightarrow> (Reporting failed EvCompleted [(''status'', JString ''failed'')], m2)))"

definition stopCall :: "string \<Rightarrow> string option \<Rightarrow> task_manager \<Rightarrow> call_state \<times> task_manager" where
  "stopCall i reason m = (StopRead i reason (getTask i (taskStore m)), m)"

definition stopBegins ::
    "task_env \<Rightarrow> string \<Rightarrow> string option \<Rightarrow> background_task option \<Rightarrow> task_manager \<Rightarrow> call_state \<times> task_manager" where
  "stopBegins env i reason found m =
     (case found of
        None \<Rightarrow> (Finished (Inl (TaskNotFoundError i)), m)
      | Some task \<Rightarrow>
          if isTerminalTaskStatus (taskStatus task) then (Finished (Inr task), m)
          else if taskStatus task = TaskStopping then (Finished (Inr task), m)
          else (case storePatch env i (emptyPatch\<lparr>patchStatus := Some TaskStopping\<rparr>) m of
              (Inl e, m1) \<Rightarrow> (Finished (Inl e), m1)
            | (Inr stopping, m1) \<Rightarrow> (StopPatched stopping (taskKind task) reason, m1)))"

definition stopCatch :: "task_env \<Rightarrow> string \<Rightarrow> thrown \<Rightarrow> task_manager \<Rightarrow> call_state \<times> task_manager" where
  "stopCatch env i err m =
     (case readClock env m of
        (time, m1) \<Rightarrow>
          (case storePatch env i
             (emptyPatch\<lparr>patchStatus := Some TaskCanceled, patchEndedAt := Some (Some time),
                patchLastError := Some (Some (normalizeTaskError err ''TASK_STOP_FAILED''))\<rparr>) m1 of
             (Inl e, m2) \<Rightarrow> (Finished (Inl e), m2)
           | (Inr canceled, m2) \<Rightarrow>
               (Reporting canceled EvCompleted [(''status'', JString ''canceled''), (''stopFailed'', JBool True)], m2)))"

definition completeCall :: "string \<Rightarrow> complete_options \<Rightarrow> task_manager \<Rightarrow> call_state \<times> task_manager" where
  "completeCall i opts m = (CompleteRead i opts (getTask i (taskStore m)), m)"

definition completePatches ::
    "task_env \<Rightarrow> string \<Rightarrow> complete_options \<Rightarrow> task_manager \<Rightarrow> call_state \<times> task_manager" where
  "completePatches env i opts m =
     (case readClock env m of
        (time, m1) \<Rightarrow>
          (case storePatch env i
             (emptyPatch\<lparr>patchStatus := Some (or_default (completeStatus opts) TaskSucceeded),
                patchEndedAt := Some (Some time),
                patchOutputRef := map_option Some (completeOutputRef opts),
                patchUsage := map_option Some (completeUsage opts),
                patchMetadata := completeMetadata opts\<rparr>) m1 of
             (Inl e, m2) \<Rightarrow> (Finished (Inl e), m2)
           | (Inr completed, m2) \<Rightarrow>
               (Reporting completed EvCompleted [(''status'', JString (status_name (taskStatus completed)))], m2)))"

definition completeBegins ::
    "task_env \<Rightarrow> string \<Rightarrow> complete_options \<Rightarrow> background_task option \<Rightarrow> task_manager \<Rightarrow> call_state \<times> task_manager" where
  "completeBegins env i opts found m =
     (case found of
        None \<Rightarrow> (Finished (Inl (TaskNotFoundError i)), m)
      | Some task \<Rightarrow>
          if isTerminalTaskStatus (taskStatus task) then (Finished (Inr task), m)
          else if completeSummary opts \<noteq> None
            then (CompleteFinalized i opts,
              m\<lparr>outputStore := finalizeOutput i (completeSummary opts) (outputStore m)\<rparr>)
          else completePatches env i opts m)"

definition failCall :: "string \<Rightarrow> thrown \<Rightarrow> task_manager \<Rightarrow> call_state \<times> task_manager" where
  "failCall i err m = (FailRead i err (getTask i (taskStore m)), m)"

definition failBegins ::
    "task_env \<Rightarrow> string \<Rightarrow> thrown \<Rightarrow> background_task option \<Rightarrow> task_manager \<Rightarrow> call_state \<times> task_manager" where
  "failBegins env i err found m =
     (case found of
        None \<Rightarrow> (Finished (Inl (TaskNotFoundError i)), m)
      | Some task \<Rightarrow>
          if isTerminalTaskStatus (taskStatus task) then (Finished (Inr task), m)
          else (case readClock env m of
            (time, m1) \<Rightarrow>
              (case storePatch env i
                 (emptyPatch\<lparr>patchStatus := Some TaskFailed, patchEndedAt := Some (Some time),
                    patchLastError := Some (Some (normalizeTaskError err ''TASK_ERROR''))\<rparr>) m1 of
                 (Inl e, m2) \<Rightarrow> (Finished (Inl e), m2)
               | (Inr failed, m2) \<Rightarrow> (Reporting failed EvCompleted [(''status'', JString ''failed'')], m2))))"

text \<open>
  A promise of the manager's own or of a store settled, and the call goes on to its next await.  In
  \<open>StartAnnounced\<close> and \<open>StopAnnounced\<close> it calls the runner, and waits for it then.
\<close>

fun resume :: "task_env \<Rightarrow> call_state \<Rightarrow> task_manager \<Rightarrow> call_state \<times> task_manager" where
  "resume env (StartCreated t) m =
     (StartAnnounced t, emit env t EvCreated [(''inputKind'', JString (kind_name (taskKind t)))] m)"
| "resume env (StartAnnounced t) m = (StartRunning t, m)"
| "resume env (StartCaught t err) m = startCatch env t err m"
| "resume env (StopRead i reason found) m = stopBegins env i reason found m"
| "resume env (StopPatched t kind reason) m =
     (StopAnnounced (taskId t) kind reason,
      emit env t EvStopRequested [(''reason'', case reason of None \<Rightarrow> JUndefined | Some r \<Rightarrow> JString r)] m)"
| "resume env (StopAnnounced i kind reason) m =
     (if kind \<notin> set (runners m) then stopCatch env i (TaskRunnerNotFoundError kind) m
      else (StopRunning i reason, m))"
| "resume env (StopCaught i err) m = stopCatch env i err m"
| "resume env (CompleteRead i opts found) m = completeBegins env i opts found m"
| "resume env (CompleteFinalized i opts) m = completePatches env i opts m"
| "resume env (FailRead i err found) m = failBegins env i err found m"
| "resume env (Reporting t ty payload) m = (Returning t, emit env t ty payload m)"
| "resume env (Returning t) m = (Finished (Inr t), m)"
| "resume env (StartRunning t) m = (StartRunning t, m)"
| "resume env (StopRunning i reason) m = (StopRunning i reason, m)"
| "resume env (Finished r) m = (Finished r, m)"

text \<open>The promise of a runner settled.\<close>

fun runnerSettles :: "task_env \<Rightarrow> call_state \<Rightarrow> runner_outcome \<Rightarrow> task_manager \<Rightarrow> call_state \<times> task_manager" where
  "runnerSettles env (StartRunning t) (RunnerReturns ref) m =
     (case readClock env m of
        (time, m1) \<Rightarrow>
          (case storePatch env (taskId t)
             (emptyPatch\<lparr>patchStatus := Some TaskRunning, patchStartedAt := Some (Some time),
                patchOutputRef := map_option Some ref\<rparr>) m1 of
             (Inl e, m2) \<Rightarrow> (StartCaught t e, m2)
           | (Inr started, m2) \<Rightarrow> (Reporting started EvStarted [(''hasOutputRef'', JBool (ref \<noteq> None))], m2)))"
| "runnerSettles env (StartRunning t) (RunnerThrows err) m = startCatch env t err m"
| "runnerSettles env (StopRunning i reason) (RunnerReturns ref) m =
     (case readClock env m of
        (time, m1) \<Rightarrow>
          (case storePatch env i
             (emptyPatch\<lparr>patchStatus := Some TaskCanceled, patchEndedAt := Some (Some time),
                patchLastError := (if truthy_opt reason
                  then Some (Some \<lparr>errorText = the reason, errorCode = Some ''TASK_CANCELED'', errorDetails = None\<rparr>)
                  else None)\<rparr>) m1 of
             (Inl e, m2) \<Rightarrow> (StopCaught i e, m2)
           | (Inr canceled, m2) \<Rightarrow> (Reporting canceled EvCompleted [(''status'', JString ''canceled'')], m2)))"
| "runnerSettles env (StopRunning i reason) (RunnerThrows err) m = stopCatch env i err m"
| "runnerSettles env c r m = (c, m)"

section \<open>Runs of the manager\<close>

datatype task_event =
    RegisterRunner task_kind
  | CallStart start_request
  | CallStop string "string option"
  | CallComplete string complete_options
  | CallFail string thrown
  | Resume nat
  | RunnerSettles nat runner_outcome

fun awaits_runner :: "call_state \<Rightarrow> bool" where
  "awaits_runner (StartRunning t) = True"
| "awaits_runner (StopRunning i reason) = True"
| "awaits_runner _ = False"

fun finished :: "call_state \<Rightarrow> bool" where
  "finished (Finished r) = True"
| "finished _ = False"

text \<open>
  The status that \<open>complete\<close> may be given is limited by its type; a call in progress goes on when
  what it awaits has settled.
\<close>

fun task_possible :: "task_manager \<Rightarrow> task_event \<Rightarrow> bool" where
  "task_possible m (CallComplete i opts) \<longleftrightarrow> completeStatus opts \<in> {None, Some TaskSucceeded, Some TaskCanceled}"
| "task_possible m (Resume k) \<longleftrightarrow>
     k < length (calls m) \<and> \<not> awaits_runner (calls m ! k) \<and> \<not> finished (calls m ! k)"
| "task_possible m (RunnerSettles k r) \<longleftrightarrow> k < length (calls m) \<and> awaits_runner (calls m ! k)"
| "task_possible m _ \<longleftrightarrow> True"

definition enter :: "call_state \<times> task_manager \<Rightarrow> task_manager" where
  "enter cm = (snd cm)\<lparr>calls := calls (snd cm) @ [fst cm]\<rparr>"

definition proceed :: "nat \<Rightarrow> call_state \<times> task_manager \<Rightarrow> task_manager" where
  "proceed k cm = (snd cm)\<lparr>calls := (calls (snd cm))[k := fst cm]\<rparr>"

fun task_step :: "task_env \<Rightarrow> task_event \<Rightarrow> task_manager \<Rightarrow> task_manager" where
  "task_step env (RegisterRunner kind) m = (case registerRunner kind m of Inl err \<Rightarrow> m | Inr m' \<Rightarrow> m')"
| "task_step env (CallStart req) m = enter (startCall env req m)"
| "task_step env (CallStop i reason) m = enter (stopCall i reason m)"
| "task_step env (CallComplete i opts) m = enter (completeCall i opts m)"
| "task_step env (CallFail i err) m = enter (failCall i err m)"
| "task_step env (Resume k) m = proceed k (resume env (calls m ! k) m)"
| "task_step env (RunnerSettles k r) m = proceed k (runnerSettles env (calls m ! k) r m)"

abbreviation "task_reached env kinds \<equiv> reached (newTaskManager kinds) task_possible (task_step env)"

end
