(* ===== verification/TaskProofs.thy ===== *)
theory TaskProofs
  imports TaskManager
begin

text \<open>
  What the manager of background tasks keeps: the records are well formed, statuses only move
  forward, every change that is owed to the observers is reported, and every call settles.
\<close>

section \<open>The store operations of a call\<close>

abbreviation task_of :: "task_manager \<Rightarrow> string \<Rightarrow> background_task option" where
  "task_of m i \<equiv> task_at (taskStore m) i"

abbreviation status_of :: "task_manager \<Rightarrow> string \<Rightarrow> task_status option" where
  "status_of m i \<equiv> status_at (taskStore m) i"

abbreviation events_of :: "task_manager \<Rightarrow> task_lifecycle_event list" where
  "events_of m \<equiv> storedEvents (taskStore m)"

named_theorems task_ops

lemma emit_frame [task_ops, simp]:
  "task_of (emit env t ty p m) = task_of m" "calls (emit env t ty p m) = calls m"
  "runners (emit env t ty p m) = runners m"
  "lifecycleSequence (emit env t ty p m) = Suc (lifecycleSequence m)"
  "clockReads (emit env t ty p m) = Suc (clockReads m)"
  by (simp_all add: emit_def appendEvent_def)

lemma events_emit [simp]:
  "events_of (emit env t ty p m) = events_of m @
     [\<lparr>eventId = eventIdGenerator env (eventIdsMade m), eventTaskId = taskId t,
       eventOwner = ownerSessionId t, eventType = ty, eventTimestamp = clock env (clockReads m),
       eventSequence = Some (Suc (lifecycleSequence m)), eventPayload = Some p\<rparr>]"
  by (simp add: emit_def appendEvent_def)

lemma readClock_eq: "readClock env m = (clock env (clockReads m), m\<lparr>clockReads := Suc (clockReads m)\<rparr>)"
  by (simp add: readClock_def)

lemma applyPatch_simps [simp]:
  "taskId (applyPatch t p x) = taskId t" "ownerSessionId (applyPatch t p x) = ownerSessionId t"
  "taskKind (applyPatch t p x) = taskKind t" "createdAt (applyPatch t p x) = createdAt t"
  "taskStatus (applyPatch t p x) = or_default (patchStatus p) (taskStatus t)"
  "endedAt (applyPatch t p x) = or_default (patchEndedAt p) (endedAt t)"
  "startedAt (applyPatch t p x) = or_default (patchStartedAt p) (startedAt t)"
  by (simp_all add: applyPatch_def)

lemma emptyPatch_simps [simp]:
  "patchStatus emptyPatch = None" "patchEndedAt emptyPatch = None" "patchStartedAt emptyPatch = None"
  "patchUpdatedAt emptyPatch = None"
  by (simp_all add: emptyPatch_def)

text \<open>A patch that sets the status to \<open>new\<close>: refused, with nothing changed, or done.\<close>

lemma storePatch_cases:
  assumes "patchStatus p = Some new"
  obtains (unknown) "task_of m i = None" "storePatch env i p m = (Inl (TaskNotFoundError i), m)"
  | (refused) t where "task_of m i = Some t" "\<not> canTransitionTaskStatus (taskStatus t) new"
      "storePatch env i p m = (Inl (InvalidTaskStatusTransitionError i (taskStatus t) new), m)"
  | (patched) t t' m' where "task_of m i = Some t" "canTransitionTaskStatus (taskStatus t) new"
      "storePatch env i p m = (Inr t', m')" "t' = applyPatch t p (clock env (clockReads m))"
      "task_of m' = (task_of m)(i \<mapsto> t')" "taskStatus t' = new"
      "events_of m' = events_of m" "calls m' = calls m" "runners m' = runners m"
      "lifecycleSequence m' = lifecycleSequence m"
      "distinct (map fst (storedTasks (taskStore m))) \<Longrightarrow> distinct (map fst (storedTasks (taskStore m')))"
proof (cases "task_of m i")
  case None
  then show ?thesis using unknown by (simp add: storePatch_def patchTask_def)
next
  case (Some t)
  show ?thesis
  proof (cases "canTransitionTaskStatus (taskStatus t) new")
    case False
    then show ?thesis using refused Some assms by (simp add: storePatch_def patchTask_def)
  next
    case True
    let ?t = "applyPatch t p (clock env (clockReads m))" and ?m = "snd (storePatch env i p m)"
    have "storePatch env i p m = (Inr ?t, ?m)" "taskStatus ?t = new"
      "events_of ?m = events_of m" "calls ?m = calls m" "runners ?m = runners m"
      "lifecycleSequence ?m = lifecycleSequence m"
      "distinct (map fst (storedTasks (taskStore m))) \<Longrightarrow> distinct (map fst (storedTasks (taskStore ?m)))"
      using Some assms True by (simp_all add: storePatch_def patchTask_def Let_def distinct_update)
    moreover have "task_of ?m = (task_of m)(i \<mapsto> ?t)"
      using Some assms True by (auto simp: storePatch_def patchTask_def Let_def update_conv fun_eq_iff)
    ultimately show ?thesis using patched [OF Some True _ refl] by blast
  qed
qed

section \<open>What the records satisfy\<close>

text \<open>
  Every task is filed under its id, has an end exactly when its status is terminal, and a start
  when it runs; the events are numbered in their order, belong to a stored task and name its owner,
  and one of type \<open>completed\<close> carries the status that the task has.
\<close>

definition task_ok :: "string \<Rightarrow> background_task \<Rightarrow> bool" where
  "task_ok i t \<longleftrightarrow> taskId t = i \<and> (isTerminalTaskStatus (taskStatus t) \<longleftrightarrow> endedAt t \<noteq> None)
     \<and> (taskStatus t = TaskRunning \<longrightarrow> startedAt t \<noteq> None)"

definition payload_status :: "jsobj option \<Rightarrow> jsval option" where
  "payload_status p = (case p of None \<Rightarrow> None | Some kvs \<Rightarrow> map_of kvs ''status'')"

definition event_ok :: "task_manager \<Rightarrow> task_lifecycle_event \<Rightarrow> bool" where
  "event_ok m e \<longleftrightarrow> (\<exists>t. task_of m (eventTaskId e) = Some t \<and> eventOwner e = ownerSessionId t
     \<and> (eventType e = EvCompleted \<longrightarrow> isTerminalTaskStatus (taskStatus t)
          \<and> payload_status (eventPayload e) = Some (JString (status_name (taskStatus t)))))"

definition records_ok :: "task_manager \<Rightarrow> bool" where
  "records_ok m \<longleftrightarrow> distinct (map fst (storedTasks (taskStore m)))
     \<and> (\<forall>i t. task_of m i = Some t \<longrightarrow> task_ok i t)
     \<and> map eventSequence (events_of m) = map Some [1..<Suc (lifecycleSequence m)]
     \<and> list_all (event_ok m) (events_of m)"

text \<open>What a call in progress knows about the tasks.\<close>

definition known :: "task_manager \<Rightarrow> background_task \<Rightarrow> bool" where
  "known m t \<longleftrightarrow> (\<exists>u. task_of m (taskId t) = Some u \<and> ownerSessionId u = ownerSessionId t)"

fun call_ok :: "task_manager \<Rightarrow> call_state \<Rightarrow> bool" where
  "call_ok m (StartCreated t) \<longleftrightarrow> known m t"
| "call_ok m (StartAnnounced t) \<longleftrightarrow> known m t"
| "call_ok m (StartRunning t) \<longleftrightarrow> known m t"
| "call_ok m (StartCaught t err) \<longleftrightarrow> known m t"
| "call_ok m (StopPatched t kind reason) \<longleftrightarrow> known m t"
| "call_ok m (StopAnnounced i kind reason) \<longleftrightarrow> task_of m i \<noteq> None"
| "call_ok m (StopRunning i reason) \<longleftrightarrow> task_of m i \<noteq> None"
| "call_ok m (StopCaught i err) \<longleftrightarrow> task_of m i \<noteq> None"
| "call_ok m (CompleteRead i opts found) \<longleftrightarrow>
     completeStatus opts \<in> {None, Some TaskSucceeded, Some TaskCanceled}"
| "call_ok m (CompleteFinalized i opts) \<longleftrightarrow>
     completeStatus opts \<in> {None, Some TaskSucceeded, Some TaskCanceled}"
| "call_ok m (Reporting t ty p) \<longleftrightarrow> known m t \<and>
     (ty = EvCompleted \<longrightarrow> isTerminalTaskStatus (taskStatus t) \<and> status_of m (taskId t) = Some (taskStatus t)
        \<and> map_of p ''status'' = Some (JString (status_name (taskStatus t))))"
| "call_ok m _ \<longleftrightarrow> True"

definition manager_ok :: "task_manager \<Rightarrow> bool" where
  "manager_ok m \<longleftrightarrow> records_ok m \<and> list_all (call_ok m) (calls m)"

text \<open>Tasks stay, with their owner, and their status moves forward.\<close>

definition grows :: "task_manager \<Rightarrow> task_manager \<Rightarrow> bool" where
  "grows m m' \<longleftrightarrow> (\<forall>i t. task_of m i = Some t \<longrightarrow>
     (\<exists>t'. task_of m' i = Some t' \<and> ownerSessionId t' = ownerSessionId t
        \<and> canTransitionTaskStatus (taskStatus t) (taskStatus t')))"

lemma grows_same: "task_of m' = task_of m \<Longrightarrow> grows m m'"
  by (simp add: grows_def)

lemma grows_update:
  "task_of m i = Some t \<Longrightarrow> task_of m' = (task_of m)(i \<mapsto> t') \<Longrightarrow> ownerSessionId t' = ownerSessionId t \<Longrightarrow>
   canTransitionTaskStatus (taskStatus t) (taskStatus t') \<Longrightarrow> grows m m'"
  by (simp add: grows_def)

lemma grows_task: "grows m m' \<Longrightarrow> task_of m i \<noteq> None \<Longrightarrow> task_of m' i \<noteq> None"
  unfolding grows_def by (metis option.exhaust option.distinct(1))

lemma grows_known: "grows m m' \<Longrightarrow> known m t \<Longrightarrow> known m' t"
  unfolding grows_def known_def by metis

lemma grows_terminal:
  "grows m m' \<Longrightarrow> task_of m i = Some t \<Longrightarrow> isTerminalTaskStatus (taskStatus t) \<Longrightarrow>
   \<exists>t'. task_of m' i = Some t' \<and> ownerSessionId t' = ownerSessionId t \<and> taskStatus t' = taskStatus t"
  unfolding grows_def by (metis terminal_is_final)

lemma grows_event: "grows m m' \<Longrightarrow> event_ok m e \<Longrightarrow> event_ok m' e"
proof -
  assume g: "grows m m'" and "event_ok m e"
  then obtain t where t: "task_of m (eventTaskId e) = Some t" "eventOwner e = ownerSessionId t"
      "eventType e = EvCompleted \<Longrightarrow> isTerminalTaskStatus (taskStatus t)
          \<and> payload_status (eventPayload e) = Some (JString (status_name (taskStatus t)))"
    by (auto simp: event_ok_def)
  obtain t' where t': "task_of m' (eventTaskId e) = Some t'" "ownerSessionId t' = ownerSessionId t"
      "canTransitionTaskStatus (taskStatus t) (taskStatus t')"
    using g t(1) unfolding grows_def by blast
  show ?thesis unfolding event_ok_def using t t' terminal_is_final by fastforce
qed

lemma grows_call: "grows m m' \<Longrightarrow> call_ok m c \<Longrightarrow> call_ok m' c"
proof (cases c)
  case (Reporting t ty p)
  assume g: "grows m m'" and c: "call_ok m c"
  have "status_of m' (taskId t) = Some (taskStatus t)" if "ty = EvCompleted"
  proof -
    have s: "isTerminalTaskStatus (taskStatus t)" "status_of m (taskId t) = Some (taskStatus t)"
      using c unfolding Reporting call_ok.simps using that by blast+
    then obtain u where u: "task_of m (taskId t) = Some u" "taskStatus u = taskStatus t" by auto
    show ?thesis using grows_terminal [OF g u(1)] u(2) s(1) by auto
  qed
  then show ?thesis using g c Reporting by (auto intro: grows_known)
qed (auto dest: grows_known grows_task)

section \<open>What is owed for a task\<close>

text \<open>
  A queued task is owed a start by a call of \<open>start\<close>, a stopping one an end by a call of \<open>stop\<close>, and
  one that has ended a report.
\<close>

fun starting :: "call_state \<Rightarrow> string \<Rightarrow> bool" where
  "starting (StartCreated t) i \<longleftrightarrow> taskId t = i"
| "starting (StartAnnounced t) i \<longleftrightarrow> taskId t = i"
| "starting (StartRunning t) i \<longleftrightarrow> taskId t = i"
| "starting (StartCaught t err) i \<longleftrightarrow> taskId t = i"
| "starting _ i \<longleftrightarrow> False"

fun stopping :: "call_state \<Rightarrow> string \<Rightarrow> bool" where
  "stopping (StopPatched t kind reason) i \<longleftrightarrow> taskId t = i"
| "stopping (StopAnnounced j kind reason) i \<longleftrightarrow> j = i"
| "stopping (StopRunning j reason) i \<longleftrightarrow> j = i"
| "stopping (StopCaught j err) i \<longleftrightarrow> j = i"
| "stopping _ i \<longleftrightarrow> False"

fun reporting :: "call_state \<Rightarrow> string \<Rightarrow> bool" where
  "reporting (Reporting t EvCompleted p) i \<longleftrightarrow> taskId t = i"
| "reporting _ i \<longleftrightarrow> False"

definition owed :: "task_status \<Rightarrow> call_state \<Rightarrow> string \<Rightarrow> bool" where
  "owed st c i =
     (case st of
        TaskQueued \<Rightarrow> starting c i
      | TaskRunning \<Rightarrow> False
      | TaskStopping \<Rightarrow> stopping c i
      | _ \<Rightarrow> reporting c i)"

lemma owed_simps [simp]:
  "owed TaskQueued c i = starting c i" "owed TaskStopping c i = stopping c i" "\<not> owed TaskRunning c i"
  by (simp_all add: owed_def)

lemma owed_terminal: "isTerminalTaskStatus st \<Longrightarrow> owed st c i = reporting c i"
  by (cases st) (simp_all add: owed_def status_defs)

definition reported :: "task_manager \<Rightarrow> string \<Rightarrow> bool" where
  "reported m i \<longleftrightarrow> list_ex (\<lambda>e. eventTaskId e = i \<and> eventType e = EvCompleted) (events_of m)"

definition settled :: "task_manager \<Rightarrow> string \<Rightarrow> task_status \<Rightarrow> bool" where
  "settled m i st \<longleftrightarrow> st = TaskRunning \<or> isTerminalTaskStatus st \<and> reported m i"

definition nothing_lost :: "task_manager \<Rightarrow> bool" where
  "nothing_lost m \<longleftrightarrow> (\<forall>i st. status_of m i = Some st \<longrightarrow>
     settled m i st \<or> list_ex (\<lambda>c. owed st c i) (calls m))"

section \<open>Segments\<close>

text \<open>The code of a call between two awaits, from a state \<open>m\<close> of the manager.\<close>

definition segment :: "task_manager \<Rightarrow> call_state \<Rightarrow> call_state \<times> task_manager \<Rightarrow> bool" where
  "segment m c cm \<longleftrightarrow> records_ok (snd cm) \<and> call_ok (snd cm) (fst cm) \<and> grows m (snd cm)
     \<and> calls (snd cm) = calls m \<and> (\<forall>i. reported m i \<longrightarrow> reported (snd cm) i)
     \<and> (\<forall>i st. status_of (snd cm) i = Some st \<longrightarrow>
          settled (snd cm) i st \<or> owed st (fst cm) i \<or> (status_of m i = Some st \<and> \<not> owed st c i))"

lemma records_same:
  "taskStore m' = taskStore m \<Longrightarrow> lifecycleSequence m' = lifecycleSequence m \<Longrightarrow> records_ok m' = records_ok m"
  by (simp add: records_ok_def event_ok_def [abs_def])

lemma call_same: "taskStore m' = taskStore m \<Longrightarrow> call_ok m' c = call_ok m c"
  by (cases c) (simp_all add: known_def)

lemma segment_same:
  assumes "records_ok m" "taskStore m' = taskStore m" "lifecycleSequence m' = lifecycleSequence m"
    and "calls m' = calls m" "call_ok m c'"
    and "\<And>i st. status_of m i = Some st \<Longrightarrow> owed st c i \<Longrightarrow> owed st c' i"
  shows "segment m c (c', m')"
  using assms records_same [OF assms(2,3)] call_same [OF assms(2)]
  by (auto simp: segment_def reported_def intro: grows_same)

lemma records_emit:
  assumes "records_ok m" "known m t"
    and "ty = EvCompleted \<Longrightarrow> status_of m (taskId t) = Some st \<and> isTerminalTaskStatus st
           \<and> map_of p ''status'' = Some (JString (status_name st))"
  shows "records_ok (emit env t ty p m)"
proof -
  let ?m = "emit env t ty p m"
  have "event_ok ?m = event_ok m" by (simp add: event_ok_def fun_eq_iff)
  moreover have "event_ok m (last (events_of ?m))"
    using assms(2,3) by (auto simp: event_ok_def known_def payload_status_def)
  moreover have "storedTasks (taskStore ?m) = storedTasks (taskStore m)" by (simp add: emit_def appendEvent_def)
  ultimately show ?thesis using assms(1) by (auto simp: records_ok_def)
qed

lemma segment_emit:
  assumes "records_ok m" "known m t" "call_ok m c'"
    and "ty = EvCompleted \<Longrightarrow> status_of m (taskId t) = Some st \<and> isTerminalTaskStatus st
           \<and> map_of p ''status'' = Some (JString (status_name st))"
    and "\<And>i st. status_of m i = Some st \<Longrightarrow> owed st c i \<Longrightarrow>
           owed st c' i \<or> ty = EvCompleted \<and> i = taskId t \<and> isTerminalTaskStatus st"
  shows "segment m c (c', emit env t ty p m)"
proof -
  let ?m = "emit env t ty p m"
  have c: "call_ok ?m c'" using assms(3) by (cases c') (simp_all add: known_def)
  have g: "grows m ?m" by (simp add: grows_same)
  have r: "reported ?m i \<longleftrightarrow> reported m i \<or> ty = EvCompleted \<and> i = taskId t" for i
    by (auto simp: reported_def)
  have o: "settled ?m i s \<or> owed s c' i \<or> \<not> owed s c i" if "status_of m i = Some s" for i s
    using assms(5) [OF that] by (auto simp: settled_def r)
  have "records_ok ?m" using assms(1,2,4) by (rule records_emit)
  then show ?thesis using c g o by (auto simp: segment_def r)
qed

text \<open>A patch of the manager: it sets the end of a task exactly if it ends it.\<close>

definition fitting :: "background_task_patch \<Rightarrow> task_status \<Rightarrow> bool" where
  "fitting p new \<longleftrightarrow> patchStatus p = Some new
     \<and> (if isTerminalTaskStatus new then \<exists>x. patchEndedAt p = Some (Some x) else patchEndedAt p = None)
     \<and> (if new = TaskRunning then \<exists>x. patchStartedAt p = Some (Some x) else patchStartedAt p = None)
     \<and> new \<noteq> TaskQueued"

lemma fitting_ok:
  assumes "fitting p new" "task_ok i t" "canTransitionTaskStatus (taskStatus t) new"
  shows "task_ok i (applyPatch t p x)"
proof -
  have "new \<noteq> TaskRunning \<Longrightarrow> \<not> isTerminalTaskStatus new \<Longrightarrow> \<not> isTerminalTaskStatus (taskStatus t)"
    using assms(3) terminal_is_final by metis
  then show ?thesis using assms
    by (cases "isTerminalTaskStatus new"; cases "new = TaskRunning")
      (auto simp: fitting_def task_ok_def status_defs split: if_splits)
qed

lemma patch_cases:
  assumes "fitting p new" "records_ok m"
  obtains (refused) err where "storePatch env i p m = (Inl err, m)"
      "\<And>st. status_of m i = Some st \<Longrightarrow> \<not> canTransitionTaskStatus st new"
  | (patched) t t' m' where "storePatch env i p m = (Inr t', m')" "records_ok m'" "grows m m'"
      "known m' t'" "taskId t' = i" "taskStatus t' = new" "taskKind t' = taskKind t" "calls m' = calls m"
      "task_of m i = Some t" "task_of m' = (task_of m)(i \<mapsto> t')" "events_of m' = events_of m"
proof -
  have "patchStatus p = Some new" using assms(1) by (simp add: fitting_def)
  then show ?thesis
  proof (cases rule: storePatch_cases [where env = env and i = i and m = m])
    case (patched t t' m')
    have "task_ok i t" using assms(2) patched(1) by (simp add: records_ok_def)
    then have t': "task_ok i t'" using fitting_ok [OF assms(1) _ patched(2)] patched(4) by simp
    have g: "grows m m'" by (rule grows_update [OF patched(1,5)]) (use patched(2,4,6) in simp_all)
    have "list_all (event_ok m') (events_of m')"
      using assms(2) grows_event [OF g] patched(7) by (auto simp: records_ok_def list_all_iff)
    then have "records_ok m'"
      using assms(2) patched(5,7,10,11) t' by (simp add: records_ok_def)
    moreover have "known m' t'" "taskId t' = i"
      using patched(5) t' by (simp_all add: known_def task_ok_def)
    ultimately show ?thesis using that(2) [OF patched(3) _ g _ _ patched(6) _ patched(8,1,5,7)] patched(4)
      by simp
  qed (use that(1) in auto)
qed

lemma segment_patched:
  assumes "records_ok m'" "grows m m'" "calls m' = calls m" "events_of m' = events_of m"
    and "task_of m' = (task_of m)(i \<mapsto> t')" "call_ok m' c'"
    and "taskStatus t' = TaskRunning \<or> owed (taskStatus t') c' i"
    and "\<And>j st. owed st c j \<Longrightarrow> j = i"
  shows "segment m c (c', m')"
proof -
  have r: "reported m' j = reported m j" for j using assms(4) by (simp add: reported_def)
  have "settled m' j st \<or> owed st c' j \<or> status_of m j = Some st \<and> \<not> owed st c j"
    if "status_of m' j = Some st" for j st
  proof (cases "j = i")
    case True
    then have "st = taskStatus t'" using that assms(5) by simp
    with True assms(7) show ?thesis by (auto simp: settled_def)
  next
    case False
    then have "status_of m j = Some st" using that assms(5) by simp
    with False assms(8) show ?thesis by blast
  qed
  with assms(1-3,6) r show ?thesis by (simp add: segment_def)
qed

text \<open>The same after the clock was read for the time in the patch.\<close>

lemma clocked [simp]:
  "records_ok (m\<lparr>clockReads := n\<rparr>) = records_ok m" "call_ok (m\<lparr>clockReads := n\<rparr>) c = call_ok m c"
  "grows (m\<lparr>clockReads := n\<rparr>) m' = grows m m'" "reported (m\<lparr>clockReads := n\<rparr>) i = reported m i"
  "known (m\<lparr>clockReads := n\<rparr>) t = known m t"
  by (rule records_same; simp; fail | rule call_same; simp; fail | simp add: grows_def reported_def known_def)+

lemma segment_clocked [simp]: "segment (m\<lparr>clockReads := n\<rparr>) c cm = segment m c cm"
  by (simp add: segment_def)

lemma segment_read: "segment (m\<lparr>clockReads := n\<rparr>) c cm \<Longrightarrow> segment m c cm"
  by simp

lemma segment_stay:
  "records_ok m \<Longrightarrow> call_ok m c' \<Longrightarrow> (\<And>i st. status_of m i = Some st \<Longrightarrow> owed st c i \<Longrightarrow> owed st c' i) \<Longrightarrow>
   segment m c (c', m)"
  by (rule segment_same) simp_all

text \<open>
  A call that patches the task \<open>i\<close> to \<open>new\<close> and goes on to \<open>f t'\<close> with the patched task, or to
  \<open>g err\<close> when the patch is refused.
\<close>

lemma segment_patch:
  assumes "fitting p new" "records_ok m" "\<And>j st. owed st c j \<Longrightarrow> j = i"
    and "\<And>t' m'. records_ok m' \<Longrightarrow> grows m m' \<Longrightarrow> known m' t' \<Longrightarrow> taskId t' = i \<Longrightarrow> taskStatus t' = new \<Longrightarrow>
           status_of m' i = Some new \<Longrightarrow> task_of m i \<noteq> None \<Longrightarrow>
           call_ok m' (f t') \<and> (new = TaskRunning \<or> owed new (f t') i)"
    and "\<And>err. call_ok m (g err)"
    and "\<And>err st. status_of m i = Some st \<Longrightarrow> \<not> canTransitionTaskStatus st new \<Longrightarrow> owed st c i \<Longrightarrow> owed st (g err) i"
  shows "segment m c (case storePatch env i p m of (Inl err, m2) \<Rightarrow> (g err, m2) | (Inr t', m2) \<Rightarrow> (f t', m2))"
  using assms(1,2)
proof (cases rule: patch_cases [where env = env and i = i])
  case (refused err)
  have "segment m c (g err, m)" using assms(2,3,5,6) refused(2) by (intro segment_same) blast+
  then show ?thesis using refused(1) by simp
next
  case (patched t t' m')
  have "status_of m' i = Some new" using patched(6,10) by simp
  then have "call_ok m' (f t') \<and> (new = TaskRunning \<or> owed new (f t') i)"
    using assms(4) patched(2-6,9) by blast
  then have "segment m c (f t', m')"
    using segment_patched [OF patched(2,3,8,11,10)] patched(6) assms(3) by blast
  then show ?thesis using patched(1) by simp
qed

section \<open>Every segment keeps the records and what is owed\<close>

lemma owed_only [simp]:
  "owed st (StopRead i reason found) j = False" "owed st (CompleteRead i opts found) j = False"
  "owed st (CompleteFinalized i opts) j = False" "owed st (FailRead i err found) j = False"
  "owed st (Returning t) j = False" "owed st (Finished r) j = False"
  by (cases st; simp add: owed_def)+

lemma owed_start:
  "owed st (StartCreated t) j \<longleftrightarrow> st = TaskQueued \<and> taskId t = j"
  "owed st (StartAnnounced t) j \<longleftrightarrow> st = TaskQueued \<and> taskId t = j"
  "owed st (StartRunning t) j \<longleftrightarrow> st = TaskQueued \<and> taskId t = j"
  "owed st (StartCaught t err) j \<longleftrightarrow> st = TaskQueued \<and> taskId t = j"
  by (cases st; simp add: owed_def)+

lemma owed_stop:
  "owed st (StopPatched t kind reason) j \<longleftrightarrow> st = TaskStopping \<and> taskId t = j"
  "owed st (StopAnnounced i kind reason) j \<longleftrightarrow> st = TaskStopping \<and> i = j"
  "owed st (StopRunning i reason) j \<longleftrightarrow> st = TaskStopping \<and> i = j"
  "owed st (StopCaught i err) j \<longleftrightarrow> st = TaskStopping \<and> i = j"
  by (cases st; simp add: owed_def)+

lemma owed_report:
  "owed st (Reporting t ty p) j \<longleftrightarrow> isTerminalTaskStatus st \<and> ty = EvCompleted \<and> taskId t = j"
  by (cases st; cases ty; simp add: owed_def status_defs)

lemmas owed_calls = owed_start owed_stop owed_report

lemma terminal_simps [simp]:
  "isTerminalTaskStatus TaskFailed" "isTerminalTaskStatus TaskCanceled" "isTerminalTaskStatus TaskSucceeded"
  "\<not> isTerminalTaskStatus TaskQueued" "\<not> isTerminalTaskStatus TaskRunning" "\<not> isTerminalTaskStatus TaskStopping"
  by (simp_all add: status_defs)

lemma transition_simps [simp]:
  "canTransitionTaskStatus TaskQueued st" "canTransitionTaskStatus TaskStopping TaskFailed"
  "canTransitionTaskStatus TaskStopping TaskCanceled"
  by (cases st; simp add: status_defs)+

lemma segment_startCatch:
  assumes "records_ok m" "\<And>j st. owed st c j \<Longrightarrow> j = taskId t \<and> st = TaskQueued"
  shows "segment m c (startCatch env t err m)"
  unfolding startCatch_def readClock_eq prod.case
  by (rule segment_read [where n = "Suc (clockReads m)"], rule segment_patch [where new = TaskFailed and i = "taskId t"])
    (use assms(1) in \<open>auto simp: fitting_def owed_calls dest: assms(2)\<close>)

lemma segment_stopCatch:
  assumes "records_ok m" "\<And>j st. owed st c j \<Longrightarrow> j = i \<and> st = TaskStopping"
  shows "segment m c (stopCatch env i err m)"
  unfolding stopCatch_def readClock_eq prod.case
  by (rule segment_read [where n = "Suc (clockReads m)"], rule segment_patch [where new = TaskCanceled and i = i])
    (use assms(1) in \<open>auto simp: fitting_def owed_calls dest: assms(2)\<close>)

lemma segment_stopBegins:
  assumes "records_ok m" "\<And>j st. \<not> owed st c j"
  shows "segment m c (stopBegins env i reason found m)"
proof (cases found)
  case None
  then show ?thesis using assms by (auto simp: stopBegins_def intro: segment_stay)
next
  case (Some t)
  have "segment m c (case storePatch env i (emptyPatch\<lparr>patchStatus := Some TaskStopping\<rparr>) m of
      (Inl e, m1) \<Rightarrow> (Finished (Inl e), m1) | (Inr s, m1) \<Rightarrow> (StopPatched s (taskKind t) reason, m1))"
    by (rule segment_patch [where new = TaskStopping and i = i])
      (use assms in \<open>auto simp: fitting_def owed_calls\<close>)
  then show ?thesis using assms Some by (auto simp: stopBegins_def intro: segment_stay)
qed

lemma segment_completePatches:
  assumes "records_ok m" "\<And>j st. \<not> owed st c j"
    "completeStatus opts \<in> {None, Some TaskSucceeded, Some TaskCanceled}"
  shows "segment m c (completePatches env i opts m)"
  unfolding completePatches_def readClock_eq prod.case
  by (rule segment_read [where n = "Suc (clockReads m)"], rule segment_patch [where new = "or_default (completeStatus opts) TaskSucceeded" and i = i])
    (use assms in \<open>auto simp: fitting_def owed_calls\<close>)

lemma segment_completeBegins:
  assumes "records_ok m" "\<And>j st. \<not> owed st c j"
    "completeStatus opts \<in> {None, Some TaskSucceeded, Some TaskCanceled}"
  shows "segment m c (completeBegins env i opts found m)"
  using assms segment_completePatches [OF assms]
  by (cases found) (auto simp: completeBegins_def intro: segment_stay segment_same)

lemma segment_failBegins:
  assumes "records_ok m" "\<And>j st. \<not> owed st c j"
  shows "segment m c (failBegins env i err found m)"
proof (cases found)
  case None
  then show ?thesis using assms by (auto simp: failBegins_def intro: segment_stay)
next
  case (Some t)
  have "segment m c (case storePatch env i (emptyPatch\<lparr>patchStatus := Some TaskFailed,
        patchEndedAt := Some (Some (clock env (clockReads m))),
        patchLastError := Some (Some (normalizeTaskError err ''TASK_ERROR''))\<rparr>)
        (m\<lparr>clockReads := Suc (clockReads m)\<rparr>) of
      (Inl e, m2) \<Rightarrow> (Finished (Inl e), m2)
    | (Inr failed, m2) \<Rightarrow> (Reporting failed EvCompleted [(''status'', JString ''failed'')], m2))"
    by (rule segment_read [where n = "Suc (clockReads m)"], rule segment_patch [where new = TaskFailed and i = i])
      (use assms in \<open>auto simp: fitting_def owed_calls\<close>)
  then show ?thesis using assms Some by (auto simp: failBegins_def readClock_eq intro: segment_stay)
qed

lemma segment_resume:
  assumes "records_ok m" "call_ok m c"
  shows "segment m c (resume env c m)"
proof (cases c)
  case (StartCreated t)
  then show ?thesis using assms
    by (auto intro!: segment_emit simp: owed_calls)
next
  case (StartAnnounced t)
  then show ?thesis using assms by (auto intro!: segment_stay simp: owed_calls)
next
  case (StartCaught t err)
  then show ?thesis using assms(1) by (auto intro!: segment_startCatch simp: owed_calls)
next
  case (StopRead i reason found)
  then show ?thesis using assms(1) by (simp add: segment_stopBegins)
next
  case (StopPatched t kind reason)
  then show ?thesis using assms
    by (auto intro!: segment_emit simp: owed_calls known_def)
next
  case (StopAnnounced i kind reason)
  then show ?thesis using assms
    by (auto intro!: segment_stay segment_stopCatch simp: owed_calls)
next
  case (StopCaught i err)
  then show ?thesis using assms(1) by (auto intro!: segment_stopCatch simp: owed_calls)
next
  case (CompleteRead i opts found)
  then show ?thesis using assms by (simp add: segment_completeBegins)
next
  case (CompleteFinalized i opts)
  then show ?thesis using assms by (simp add: segment_completePatches)
next
  case (FailRead i err found)
  then show ?thesis using assms(1) by (simp add: segment_failBegins)
next
  case (Reporting t ty p)
  then show ?thesis using assms
    by (auto intro!: segment_emit [where st = "taskStatus t"] simp: owed_calls)
qed (use assms in \<open>auto intro: segment_stay\<close>)

lemma segment_settles:
  assumes "records_ok m" "call_ok m c"
  shows "segment m c (runnerSettles env c r m)"
proof (cases "(env, c, r, m)" rule: runnerSettles.cases)
  case (1 env t ref m)
  have "segment m (StartRunning t) (runnerSettles env (StartRunning t) (RunnerReturns ref) m)"
    unfolding runnerSettles.simps readClock_eq prod.case
    by (rule segment_read [where n = "Suc (clockReads m)"],
        rule segment_patch [where new = TaskRunning and i = "taskId t"])
      (use assms 1 in \<open>auto simp: fitting_def owed_calls\<close>)
  with 1 show ?thesis by simp
next
  case (3 env i reason ref m)
  have "segment m (StopRunning i reason) (runnerSettles env (StopRunning i reason) (RunnerReturns ref) m)"
    unfolding runnerSettles.simps readClock_eq prod.case
    by (rule segment_read [where n = "Suc (clockReads m)"],
        rule segment_patch [where new = TaskCanceled and i = i])
      (use assms 3 in \<open>auto simp: fitting_def owed_calls\<close>)
  with 3 show ?thesis by simp
qed (use assms in \<open>auto intro: segment_stay segment_startCatch segment_stopCatch simp: owed_calls\<close>)

section \<open>The invariant\<close>

text \<open>The state that a step leaves when the segment of a call has run.\<close>

lemma calls_update [simp]:
  "records_ok (m\<lparr>calls := cs\<rparr>) = records_ok m" "call_ok (m\<lparr>calls := cs\<rparr>) = call_ok m"
  "grows m (m'\<lparr>calls := cs\<rparr>) = grows m m'" "settled (m\<lparr>calls := cs\<rparr>) i st = settled m i st"
  by (rule records_same; simp; fail | rule ext; rule call_same; simp; fail
    | simp add: grows_def settled_def reported_def)+

lemma settled_grows:
  "settled m i st \<Longrightarrow> (\<And>i. reported m i \<Longrightarrow> reported m' i) \<Longrightarrow> settled m' i st"
  by (auto simp: settled_def)

lemma proceed_ok:
  assumes "manager_ok m" "k < length (calls m)" "segment m (calls m ! k) cm"
  shows "manager_ok (proceed k cm)" "grows m (proceed k cm)"
proof -
  have "list_all (call_ok (snd cm)) (calls m)"
    using assms(1,3) grows_call by (auto simp: manager_ok_def segment_def list_all_iff)
  then have "list_all (call_ok (snd cm)) ((calls m)[k := fst cm])"
    using assms(3) by (auto simp: list_all_iff segment_def dest: set_update_subset_insert [THEN subsetD])
  then show "manager_ok (proceed k cm)" "grows m (proceed k cm)"
    using assms(3) by (simp_all add: manager_ok_def proceed_def segment_def)
qed

lemma proceed_nothing_lost:
  assumes "nothing_lost m" "k < length (calls m)" "segment m (calls m ! k) cm"
  shows "nothing_lost (proceed k cm)"
  unfolding nothing_lost_def
proof (intro allI impI)
  fix i st
  assume "status_of (proceed k cm) i = Some st"
  then have i: "status_of (snd cm) i = Some st" by (simp add: proceed_def)
  let ?cs = "(calls m)[k := fst cm]"
  have new: "fst cm \<in> set ?cs" using assms(2) by (rule set_update_memI)
  from i assms(3) consider "settled (snd cm) i st" | "owed st (fst cm) i"
    | "status_of m i = Some st" "\<not> owed st (calls m ! k) i"
    unfolding segment_def by blast
  then have "settled (snd cm) i st \<or> (\<exists>c \<in> set ?cs. owed st c i)"
  proof cases
    case 3
    then consider "settled m i st" | c where "c \<in> set (calls m)" "owed st c i"
      using assms(1) unfolding nothing_lost_def list_ex_iff by blast
    then show ?thesis
    proof cases
      case 1
      then show ?thesis using settled_grows assms(3) unfolding segment_def by blast
    next
      case (2 c)
      then obtain j where j: "j < length (calls m)" "c = calls m ! j" by (auto simp: in_set_conv_nth)
      with 2 3 have "j \<noteq> k" by auto
      then have "c \<in> set ?cs" using j by (metis length_list_update nth_list_update_neq nth_mem)
      with 2 show ?thesis by blast
    qed
  qed (use new in auto)
  then show "settled (proceed k cm) i st \<or> list_ex (\<lambda>c. owed st c i) (calls (proceed k cm))"
    using assms(3) by (simp add: proceed_def segment_def list_ex_iff)
qed

lemma proceed_step:
  assumes "manager_ok m \<and> nothing_lost m" "k < length (calls m)" "segment m (calls m ! k) cm"
  shows "(manager_ok (proceed k cm) \<and> nothing_lost (proceed k cm)) \<and> grows m (proceed k cm)"
  using assms proceed_ok proceed_nothing_lost by blast

text \<open>A call that begins: it reads the store, or adds a task to it.\<close>

lemma enter_read:
  assumes "manager_ok m" "nothing_lost m" "call_ok m c"
  shows "manager_ok (enter (c, m)) \<and> nothing_lost (enter (c, m)) \<and> grows m (enter (c, m))"
  using assms by (auto simp: manager_ok_def nothing_lost_def enter_def grows_same)

lemma startCall_cases:
  obtains (refused) err m' where "startCall env req m = (Finished (Inl err), m')"
      "taskStore m' = taskStore m" "lifecycleSequence m' = lifecycleSequence m" "calls m' = calls m"
  | (created) t m' where "startCall env req m = (StartCreated t, m')" "task_of m (taskId t) = None"
      "storedTasks (taskStore m') = AList.update (taskId t) t (storedTasks (taskStore m))"
      "events_of m' = events_of m" "lifecycleSequence m' = lifecycleSequence m" "calls m' = calls m"
      "taskStatus t = TaskQueued" "endedAt t = None"
proof (cases "requestKind req \<in> set (runners m)")
  case False
  then show ?thesis using refused [of _ m] by (simp add: startCall_def)
next
  case True
  then show ?thesis using refused created
    by (cases "task_of m (taskIdGenerator env (taskIdsMade m)) = None")
      (auto simp: startCall_def createTask_def Let_def)
qed

lemma enter_start:
  assumes "manager_ok m" "nothing_lost m"
  shows "manager_ok (enter (startCall env req m)) \<and> nothing_lost (enter (startCall env req m))
    \<and> grows m (enter (startCall env req m))"
proof (cases rule: startCall_cases [where env = env and req = req and m = m])
  case (refused err m')
  have "manager_ok m'" "nothing_lost m'"
    using assms refused(2-4) records_same [OF refused(2,3)] call_same [OF refused(2)]
    by (simp_all add: manager_ok_def nothing_lost_def settled_def reported_def list_all_iff)
  then have "manager_ok (enter (Finished (Inl err), m')) \<and> nothing_lost (enter (Finished (Inl err), m'))"
    using enter_read [of m' "Finished (Inl err)"] by simp
  moreover have "grows m (enter (Finished (Inl err), m'))" using refused(2) by (simp add: enter_def grows_same)
  ultimately show ?thesis using refused(1) by simp
next
  case (created t m')
  have tasks: "task_of m' = (task_of m)(taskId t \<mapsto> t)"
    using created(3) by (auto simp: update_conv fun_eq_iff)
  have g: "grows m m'" using created(2) by (auto simp: grows_def tasks)
  have "task_ok (taskId t) t" using created(7,8) by (simp add: task_ok_def)
  moreover have "list_all (event_ok m') (events_of m')"
    using assms(1) grows_event [OF g] created(4) by (auto simp: manager_ok_def records_ok_def list_all_iff)
  ultimately have r: "records_ok m'"
    using assms(1) tasks created(3-5) by (auto simp: manager_ok_def records_ok_def distinct_update)
  have c: "list_all (call_ok m') (calls m')"
    using assms(1) grows_call [OF g] created(6) by (auto simp: manager_ok_def list_all_iff)
  have "call_ok m' (StartCreated t)" by (simp add: known_def tasks)
  then have "manager_ok (enter (StartCreated t, m'))" using r c by (simp add: manager_ok_def enter_def)
  moreover have "nothing_lost (enter (StartCreated t, m'))"
    using assms(2) created(4,6,7)
    by (auto simp: nothing_lost_def enter_def tasks settled_def reported_def list_ex_iff)
  ultimately show ?thesis using created(1) g by (simp add: enter_def)
qed

lemma step_ok:
  assumes "manager_ok m \<and> nothing_lost m" "task_possible m e"
  shows "(manager_ok (task_step env e m) \<and> nothing_lost (task_step env e m)) \<and> grows m (task_step env e m)"
proof -
  have r: "records_ok m" "\<And>k. k < length (calls m) \<Longrightarrow> call_ok m (calls m ! k)"
    using assms(1) by (simp_all add: manager_ok_def list_all_length)
  show ?thesis
  proof (cases e)
    case (RegisterRunner kind)
    have "manager_ok (m\<lparr>runners := ks\<rparr>) \<and> nothing_lost (m\<lparr>runners := ks\<rparr>) \<and> grows m (m\<lparr>runners := ks\<rparr>)" for ks
      using assms(1) records_same [of "m\<lparr>runners := ks\<rparr>" m] call_same [of "m\<lparr>runners := ks\<rparr>" m]
      by (simp add: manager_ok_def nothing_lost_def settled_def reported_def list_all_iff grows_same)
    then show ?thesis using RegisterRunner assms(1) by (simp add: registerRunner_def grows_same)
  next
    case (CallStart req)
    then show ?thesis using assms(1) enter_start by simp
  next
    case (CallStop i reason)
    then show ?thesis using assms(1) enter_read by (simp add: stopCall_def)
  next
    case (CallComplete i opts)
    then show ?thesis using assms enter_read by (simp add: completeCall_def)
  next
    case (CallFail i err)
    then show ?thesis using assms(1) enter_read by (simp add: failCall_def)
  next
    case (Resume k)
    then have k: "k < length (calls m)" using assms(2) by simp
    have "segment m (calls m ! k) (resume env (calls m ! k) m)" by (rule segment_resume) (rule r k)+
    with assms(1) k show ?thesis unfolding Resume task_step.simps by (rule proceed_step)
  next
    case (RunnerSettles k outcome)
    then have k: "k < length (calls m)" using assms(2) by simp
    have "segment m (calls m ! k) (runnerSettles env (calls m ! k) outcome m)"
      by (rule segment_settles) (rule r k)+
    with assms(1) k show ?thesis unfolding RunnerSettles task_step.simps by (rule proceed_step)
  qed
qed

interpretation tasks: event_system "newTaskManager kinds" task_possible "task_step env"
    "\<lambda>m. manager_ok m \<and> nothing_lost m" for env kinds
proof unfold_locales
  show "manager_ok (newTaskManager kinds) \<and> nothing_lost (newTaskManager kinds)"
    by (simp add: manager_ok_def nothing_lost_def records_ok_def newTaskManager_def newTaskStore_def)
  show "manager_ok m \<and> nothing_lost m \<Longrightarrow> task_possible m e \<Longrightarrow>
      manager_ok (task_step env e m) \<and> nothing_lost (task_step env e m)" for m e
    using step_ok by blast
qed

section \<open>Every call settles\<close>

text \<open>How many awaits a call has before it at most.\<close>

fun awaits_left :: "call_state \<Rightarrow> nat" where
  "awaits_left (StartCreated t) = 6"
| "awaits_left (StartAnnounced t) = 5"
| "awaits_left (StartRunning t) = 4"
| "awaits_left (StartCaught t err) = 3"
| "awaits_left (StopRead i reason found) = 7"
| "awaits_left (StopPatched t kind reason) = 6"
| "awaits_left (StopAnnounced i kind reason) = 5"
| "awaits_left (StopRunning i reason) = 4"
| "awaits_left (StopCaught i err) = 3"
| "awaits_left (CompleteRead i opts found) = 4"
| "awaits_left (CompleteFinalized i opts) = 3"
| "awaits_left (FailRead i err found) = 3"
| "awaits_left (Reporting t ty p) = 2"
| "awaits_left (Returning t) = 1"
| "awaits_left (Finished r) = 0"

lemma awaits_finished: "awaits_left c = 0 \<longleftrightarrow> finished c"
  by (cases c) simp_all

lemma awaits_bound: "awaits_left c \<le> (if finished c then 0 else 7)"
  by (cases c) simp_all

lemma storePatch_calls: "calls (snd (storePatch env i p m)) = calls m"
  by (auto simp: storePatch_def split: prod.split sum.split)

definition leaves :: "nat \<Rightarrow> task_manager \<Rightarrow> call_state \<times> task_manager \<Rightarrow> bool" where
  "leaves n m cm \<longleftrightarrow> awaits_left (fst cm) \<le> n \<and> calls (snd cm) = calls m"

lemma leaves_stay: "awaits_left c \<le> n \<Longrightarrow> calls m' = calls m \<Longrightarrow> leaves n m (c, m')"
  by (simp add: leaves_def)

lemma leaves_read: "leaves n (m\<lparr>clockReads := k\<rparr>) cm \<Longrightarrow> leaves n m cm"
  by (simp add: leaves_def)

lemma leaves_patch:
  assumes "\<And>e. awaits_left (g e) \<le> n" "\<And>t. awaits_left (f t) \<le> n"
  shows "leaves n m (case storePatch env i p m of (Inl e, m2) \<Rightarrow> (g e, m2) | (Inr t, m2) \<Rightarrow> (f t, m2))"
  using assms storePatch_calls [of env i p m] by (auto simp: leaves_def split: prod.split sum.split)

lemma leaves_startCatch: "leaves 2 m (startCatch env t err m)"
  unfolding startCatch_def readClock_eq prod.case
  by (rule leaves_read [where k = "Suc (clockReads m)"], rule leaves_patch) simp_all

lemma leaves_stopCatch: "leaves 2 m (stopCatch env i err m)"
  unfolding stopCatch_def readClock_eq prod.case
  by (rule leaves_read [where k = "Suc (clockReads m)"], rule leaves_patch) simp_all

lemma leaves_completePatches: "leaves 2 m (completePatches env i opts m)"
  unfolding completePatches_def readClock_eq prod.case
  by (rule leaves_read [where k = "Suc (clockReads m)"], rule leaves_patch) simp_all

lemma leaves_mono: "leaves k m cm \<Longrightarrow> k \<le> n \<Longrightarrow> leaves n m cm"
  by (simp add: leaves_def)

lemma leaves_stopBegins: "leaves 6 m (stopBegins env i reason found m)"
proof (cases found)
  case (Some t)
  have "leaves 6 m (case storePatch env i (emptyPatch\<lparr>patchStatus := Some TaskStopping\<rparr>) m of
      (Inl e, m1) \<Rightarrow> (Finished (Inl e), m1) | (Inr s, m1) \<Rightarrow> (StopPatched s (taskKind t) reason, m1))"
    by (rule leaves_patch) simp_all
  then show ?thesis using Some by (simp add: stopBegins_def leaves_stay)
qed (simp add: stopBegins_def leaves_stay)

lemma leaves_completeBegins: "leaves 3 m (completeBegins env i opts found m)"
  using leaves_mono [OF leaves_completePatches [of m env i opts], of 3]
  by (cases found) (auto simp: completeBegins_def intro: leaves_stay)

lemma leaves_failBegins: "leaves 2 m (failBegins env i err found m)"
proof (cases found)
  case (Some t)
  have "leaves 2 m (case storePatch env i (emptyPatch\<lparr>patchStatus := Some TaskFailed,
        patchEndedAt := Some (Some (clock env (clockReads m))),
        patchLastError := Some (Some (normalizeTaskError err ''TASK_ERROR''))\<rparr>)
        (m\<lparr>clockReads := Suc (clockReads m)\<rparr>) of
      (Inl e, m2) \<Rightarrow> (Finished (Inl e), m2)
    | (Inr failed, m2) \<Rightarrow> (Reporting failed EvCompleted [(''status'', JString ''failed'')], m2))"
    by (rule leaves_read [where k = "Suc (clockReads m)"], rule leaves_patch) simp_all
  then show ?thesis using Some by (simp add: failBegins_def readClock_eq leaves_stay)
qed (simp add: failBegins_def leaves_stay)

lemma resume_settles:
  assumes "\<not> awaits_runner c" "\<not> finished c"
  shows "awaits_left (fst (resume env c m)) < awaits_left c \<and> calls (snd (resume env c m)) = calls m"
proof -
  have "leaves (awaits_left c - 1) m (resume env c m)"
    using assms leaves_startCatch leaves_stopCatch leaves_completePatches leaves_stopBegins
      leaves_completeBegins leaves_failBegins leaves_mono [OF leaves_stopCatch, where n = 4]
    by (cases c) (simp_all add: leaves_stay)
  moreover have "0 < awaits_left c" using assms(2) awaits_finished by auto
  ultimately show ?thesis unfolding leaves_def by linarith
qed

lemma runner_settles:
  assumes "awaits_runner c"
  shows "awaits_left (fst (runnerSettles env c r m)) < awaits_left c \<and> calls (snd (runnerSettles env c r m)) = calls m"
proof -
  have "leaves 3 m (runnerSettles env c r m)"
  proof (cases r)
    case (RunnerReturns ref)
    have "leaves 3 m (runnerSettles env (StartRunning t) (RunnerReturns ref) m)" for t
      unfolding runnerSettles.simps readClock_eq prod.case
      by (rule leaves_read [where k = "Suc (clockReads m)"], rule leaves_patch) simp_all
    moreover have "leaves 3 m (runnerSettles env (StopRunning i reason) (RunnerReturns ref) m)" for i reason
      unfolding runnerSettles.simps readClock_eq prod.case
      by (rule leaves_read [where k = "Suc (clockReads m)"], rule leaves_patch) simp_all
    ultimately show ?thesis using assms RunnerReturns by (cases c) simp_all
  next
    case (RunnerThrows err)
    then show ?thesis using assms leaves_mono [OF leaves_startCatch, where n = 3]
        leaves_mono [OF leaves_stopCatch, where n = 3] by (cases c) simp_all
  qed
  then show ?thesis using assms by (cases c) (simp_all add: leaves_def)
qed

fun settlement :: "task_event \<Rightarrow> bool" where
  "settlement (Resume k) = True"
| "settlement (RunnerSettles k r) = True"
| "settlement _ = False"

definition remaining :: "task_manager \<Rightarrow> nat" where
  "remaining m = sum_list (map awaits_left (calls m))"

lemma sum_list_decreases:
  fixes xs :: "nat list"
  shows "k < length xs \<Longrightarrow> y < xs ! k \<Longrightarrow> sum_list (xs[k := y]) < sum_list xs"
  by (induction xs arbitrary: k) (auto split: nat.split simp: less_Suc_eq_0_disj)

lemma settlement_decreases:
  assumes "settlement e" "task_possible m e"
  shows "remaining (task_step env e m) < remaining m"
  using assms sum_list_decreases [of _ "map awaits_left (calls m)"]
  by (cases e) (simp_all add: remaining_def proceed_def resume_settles runner_settles map_update)

lemma settlements_bounded:
  "all_possible task_possible (task_step env) es m \<Longrightarrow> list_all settlement es \<Longrightarrow> length es \<le> remaining m"
proof (induction es arbitrary: m)
  case (Cons e es)
  then have "length es \<le> remaining (task_step env e m)" by simp
  with Cons.prems settlement_decreases [of e m env] show ?case by simp
qed simp

lemma remaining_bound: "remaining m \<le> 7 * length (filter (\<lambda>c. \<not> finished c) (calls m))"
proof -
  have "sum_list (map awaits_left cs) \<le> 7 * length (filter (\<lambda>c. \<not> finished c) cs)" for cs
  proof (induction cs)
    case (Cons c cs)
    with awaits_bound [of c] show ?case by (cases "finished c") simp_all
  qed simp
  then show ?thesis by (simp add: remaining_def)
qed

lemma some_settlement:
  assumes "\<not> list_all finished (calls m)"
  shows "\<exists>e. settlement e \<and> task_possible m e"
proof -
  from assms obtain k where k: "k < length (calls m)" "\<not> finished (calls m ! k)"
    by (auto simp: list_all_length)
  show ?thesis
  proof (cases "awaits_runner (calls m ! k)")
    case True
    with k show ?thesis by (intro exI [of _ "RunnerSettles k (RunnerReturns None)"]) simp
  next
    case False
    with k show ?thesis by (intro exI [of _ "Resume k"]) simp
  qed
qed

lemma calls_finish:
  "\<exists>es. list_all settlement es \<and> all_possible task_possible (task_step env) es m
     \<and> list_all finished (calls (run_events (task_step env) es m))"
proof (induction "remaining m" arbitrary: m rule: less_induct)
  case less
  show ?case
  proof (cases "list_all finished (calls m)")
    case True
    then show ?thesis by (intro exI [of _ "[]"]) simp
  next
    case False
    then obtain e where e: "settlement e" "task_possible m e" using some_settlement by blast
    from less [OF settlement_decreases [OF e]] obtain es where "list_all settlement es"
        "all_possible task_possible (task_step env) es (task_step env e m)"
        "list_all finished (calls (run_events (task_step env) es (task_step env e m)))" by blast
    with e show ?thesis by (intro exI [of _ "e # es"]) simp
  qed
qed

end
