(* ===== verification/BackgroundTasks.thy ===== *)
theory BackgroundTasks
  imports TaskProofs
begin

text \<open>
  The properties of background tasks: of the manager in every reachable state, of the listing of
  tasks by pages and of the reading of their output in steps.
\<close>

section \<open>The manager\<close>

text \<open>
  C16.  In every reachable state a task is filed under its id, has an end exactly when its status
  is terminal and a start when it runs; the lifecycle events are numbered from one without gaps,
  and each belongs to a stored task and names its owner.
\<close>

theorem task_records:
  assumes "task_reached env kinds m"
  shows "map eventSequence (storedEvents (taskStore m)) = map Some [1..<Suc (lifecycleSequence m)]
    \<and> list_all (\<lambda>e. map_option ownerSessionId (task_at (taskStore m) (eventTaskId e)) = Some (eventOwner e))
        (storedEvents (taskStore m))
    \<and> list_all (\<lambda>(i, t). taskId t = i \<and> (endedAt t \<noteq> None \<longleftrightarrow> isTerminalTaskStatus (taskStatus t))
          \<and> (taskStatus t \<noteq> TaskRunning \<or> startedAt t \<noteq> None)) (storedTasks (taskStore m))
    \<and> distinct (map fst (storedTasks (taskStore m)))"
proof -
  have r: "records_ok m" using tasks.reached_ok [OF assms] by (simp add: manager_ok_def)
  then have "task_ok i t" if "(i, t) \<in> set (storedTasks (taskStore m))" for i t
    using that by (simp add: records_ok_def)
  with r show ?thesis by (fastforce simp: records_ok_def event_ok_def task_ok_def list_all_iff)
qed

text \<open>
  C17.  Whatever calls, promises and runners do, a task never disappears and its status only moves
  along the allowed transitions; a terminal status never changes.
\<close>

theorem task_status_forward:
  assumes "task_reached env kinds m" "all_possible task_possible (task_step env) es m"
    and "status_at (taskStore m) i = Some a"
  shows "\<exists>b. status_at (taskStore (run_events (task_step env) es m)) i = Some b
    \<and> canTransitionTaskStatus a b \<and> (isTerminalTaskStatus a \<longrightarrow> b = a)"
proof -
  have "\<exists>b. status_of (run_events (task_step env) es m) i = Some b \<and> canTransitionTaskStatus a b"
    using assms(2,3) tasks.reached_ok [OF assms(1)]
  proof (induction es arbitrary: m a)
    case (Cons e es)
    have e: "task_possible m e" "all_possible task_possible (task_step env) es (task_step env e m)"
      using Cons.prems(1) by simp_all
    have s: "manager_ok (task_step env e m) \<and> nothing_lost (task_step env e m)" "grows m (task_step env e m)"
      using step_ok [OF Cons.prems(3) e(1)] by simp_all
    from Cons.prems(2) s(2) obtain c where c: "status_of (task_step env e m) i = Some c"
        "canTransitionTaskStatus a c" unfolding grows_def by fastforce
    from Cons.IH [OF e(2) c(1) s(1)] c(2) show ?case using transition_trans by fastforce
  next
    case Nil
    then show ?case by (intro exI [of _ a]) simp
  qed
  then show ?thesis using terminal_is_final by blast
qed

text \<open>
  C18.  When no call is in progress, every task runs, or has ended and a \<open>completed\<close> event tells its
  owner the status it has: no task stays queued or stopping, and no end goes unreported.
\<close>

theorem tasks_accounted:
  assumes "task_reached env kinds m" "list_all finished (calls m)" "task_at (taskStore m) i = Some t"
  shows "taskStatus t = TaskRunning \<or> isTerminalTaskStatus (taskStatus t)
    \<and> (\<exists>e \<in> set (storedEvents (taskStore m)). eventTaskId e = i \<and> eventType e = EvCompleted
         \<and> eventOwner e = ownerSessionId t
         \<and> payload_status (eventPayload e) = Some (JString (status_name (taskStatus t))))"
proof -
  have ok: "records_ok m" "nothing_lost m" using tasks.reached_ok [OF assms(1)] by (simp_all add: manager_ok_def)
  have "\<not> owed st c i" if "c \<in> set (calls m)" for c st
  proof -
    have "finished c" using that assms(2) by (simp add: list_all_iff)
    then show ?thesis by (cases c) simp_all
  qed
  with ok(2) assms(3) have "settled m i (taskStatus t)" by (fastforce simp: nothing_lost_def list_ex_iff)
  with ok(1) assms(3) show ?thesis
    by (fastforce simp: settled_def reported_def list_ex_iff records_ok_def list_all_iff event_ok_def)
qed

text \<open>
  C19.  Every call settles: from any state at most seven settlements for each call in progress are
  possible, in whatever order and with whatever outcomes of the runners, and some sequence of them
  finishes all calls.
\<close>

theorem task_calls_settle:
  "(\<forall>es. all_possible task_possible (task_step env) es m \<and> list_all settlement es \<longrightarrow>
      length es \<le> 7 * length (filter (\<lambda>c. \<not> finished c) (calls m)))
   \<and> (\<exists>es. list_all settlement es \<and> all_possible task_possible (task_step env) es m
      \<and> list_all finished (calls (run_events (task_step env) es m)))"
  using settlements_bounded remaining_bound calls_finish order_trans by meson

section \<open>Pages and steps\<close>

text \<open>
  C10.  Following the cursors of \<open>list\<close> from the first page, with a limit that is missing, not
  positive or at least one, ends within as many pages as there are tasks and one more, and the pages
  together hold the matching tasks in their order.  The query does not ask for undelivered tasks
  only: the store does not read that field.
\<close>

theorem task_pages:
  assumes "queryCursor q = None" "undeliveredOnly q \<noteq> Some True"
    "case queryLimit q of None \<Rightarrow> True | Some l \<Rightarrow> l \<le> 0 \<or> 1 \<le> l"
  shows "\<exists>pages. collectPages (Suc (length (storedTasks st))) q st = Some pages
    \<and> concat pages = matchingTasks q st
    \<and> set (concat pages) = {t \<in> snd ` set (storedTasks st). matchesQuery t q}"
proof -
  have "0 < clampLimit (queryLimit q)"
    using assms(3) by (auto simp: clampLimit_def DEFAULT_TASK_LIST_LIMIT_def MAX_TASK_LIST_LIMIT_def
        le_floor_iff zero_less_nat_eq split: option.splits)
  moreover have "length (matchingTasks q st) \<le> length (storedTasks st)"
    by (simp add: matchingTasks_def Let_def)
  moreover have "parseCursor_tasks (queryCursor q) = 0" using assms(1) by (simp add: parseCursor_tasks_def)
  ultimately obtain pages where "collectPages (Suc (length (storedTasks st))) q st = Some pages"
      "concat pages = matchingTasks q st"
    using collect_pages [of q st "length (storedTasks st)"] by auto
  then show ?thesis using matching_set [of q st] by (metis (no_types))
qed

text \<open>A limit between zero and one gives empty pages, with a cursor back to the same page.\<close>

lemma fractional_limit_never_ends:
  assumes "queryLimit q = Some (1 / 2)" "parseCursor_tasks (queryCursor q) < length (matchingTasks q st)"
  shows "collectPages n q st = None"
  using assms
proof (induction n arbitrary: q)
  case (Suc n)
  have "collectPages n (q\<lparr>queryCursor := Some (decimal (parseCursor_tasks (queryCursor q)))\<rparr>) st = None"
    using Suc.prems by (intro Suc.IH) simp_all
  then show ?case using Suc.prems by (simp add: listTasks_def clampLimit_def)
qed simp

text \<open>
  C6.  Reading the output of a task in steps of any positive number of bytes, from any offset on,
  ends, and the parts put together are the rest of the content, when it is ASCII text; a read
  without limit gives back all of any well-formed text.
\<close>

theorem output_in_steps:
  assumes "map_of (outputs os) i = Some r"
  shows "(ascii (getContent i stream os) \<and> 0 < limit \<longrightarrow>
      (\<exists>parts. readInSteps (Suc (length (getContent i stream os))) i stream (int from) limit os = Some parts
         \<and> concat parts = drop from (getContent i stream os)))
    \<and> (well_formed (getContent i stream os) \<longrightarrow>
      readContent (readOutputText i \<lparr>readOffset = None, limitBytes = None, readStream = stream\<rparr> os)
        = getContent i stream os)"
  using read_in_steps [OF assms, of stream limit "from" "length (getContent i stream os)"] read_whole [OF assms]
  by simp

section \<open>What calls in progress can meet\<close>

text \<open>
  A runner that completes its task before its \<open>start\<close> returns: the patch to \<open>running\<close> is refused, the
  patch to \<open>failed\<close> in the handler too, and the promise of \<open>start\<close> is rejected.
\<close>

lemma start_rejects_after_completion:
  assumes "task_of m (taskId t) = Some u" "taskStatus u = TaskSucceeded"
  shows "case runnerSettles env (StartRunning t) (RunnerReturns ref) m of
    (c, m') \<Rightarrow> fst (resume env c m')
      = Finished (Inl (InvalidTaskStatusTransitionError (taskId t) TaskSucceeded TaskFailed))"
  using assms by (simp add: readClock_eq storePatch_def patchTask_def status_defs startCatch_def)

text \<open>Two calls of \<open>complete\<close> that both read the task while it runs: both report its end.\<close>

lemma completed_twice:
  assumes "task_of m i = Some t" "taskStatus t = TaskSucceeded" "task_ok i t" "completeStatus opts = None"
    "completeSummary opts = None" "taskStatus u = TaskRunning"
  shows "reporting (fst (resume env (CompleteRead i opts (Some u)) m)) i"
  using assms
  by (simp add: completeBegins_def completePatches_def readClock_eq storePatch_def patchTask_def status_defs
      Let_def task_ok_def)

section \<open>A run\<close>

definition sample_env :: task_env where
  "sample_env = \<lparr>clock = int, taskIdGenerator = (\<lambda>n. ''t''), eventIdGenerator = (\<lambda>n. ''e'')\<rparr>"

definition sample_request :: start_request where
  "sample_request = \<lparr>requestKind = KindBash, requestOwner = ''s'', requestDescription = None,
     requestToolCallId = None, requestParentMessageId = None, requestParentTaskId = None,
     requestInput = JNull, requestMetadata = None\<rparr>"

definition sample_events :: "task_event list" where
  "sample_events = [CallStart sample_request, Resume 0, Resume 0, RunnerSettles 0 (RunnerThrows (ThrownValue ''x'')),
     Resume 0, Resume 0]"

definition sample_tasks :: task_manager where
  "sample_tasks = run_events (task_step sample_env) sample_events (newTaskManager [KindBash])"

lemmas run_simps = enter_def proceed_def startCall_def createTask_def Let_def storePatch_def patchTask_def
  readClock_def startCatch_def getTask_def sample_env_def sample_request_def
  newTaskManager_def newTaskStore_def update_conv'

lemma sample_possible:
  "all_possible task_possible (task_step sample_env) sample_events (newTaskManager [KindBash])"
  by (simp add: sample_events_def run_simps)

lemma sample_tasks_reached: "task_reached sample_env [KindBash] sample_tasks"
  unfolding sample_tasks_def by (intro reached_run reached.start sample_possible)

lemma sample_status: "status_of sample_tasks ''t'' = Some TaskFailed" "list_all finished (calls sample_tasks)"
  by (simp_all add: sample_tasks_def sample_events_def run_simps)

theorem task_records_witness: "map eventSequence (events_of sample_tasks) = map Some [1..<Suc (lifecycleSequence sample_tasks)]"
  using task_records [OF sample_tasks_reached] by simp

theorem task_status_forward_witness:
  "status_of (run_events (task_step sample_env) [CallStop ''t'' None, Resume 1] sample_tasks) ''t'' = Some TaskFailed"
proof -
  have "all_possible task_possible (task_step sample_env) [CallStop ''t'' None, Resume 1] sample_tasks"
    by (simp add: sample_tasks_def sample_events_def run_simps stopCall_def)
  from task_status_forward [OF sample_tasks_reached this sample_status(1)] show ?thesis by auto
qed

theorem tasks_accounted_witness:
  "\<exists>e \<in> set (events_of sample_tasks). eventTaskId e = ''t'' \<and> eventType e = EvCompleted"
  using tasks_accounted [OF sample_tasks_reached sample_status(2)] sample_status(1) by fastforce

theorem task_calls_settle_witness:
  "\<not> all_possible task_possible (task_step sample_env) [Resume 0] sample_tasks"
proof
  have "filter (\<lambda>c. \<not> finished c) (calls sample_tasks) = []"
    using sample_status(2) by (simp add: list_all_iff filter_empty_conv)
  moreover assume "all_possible task_possible (task_step sample_env) [Resume 0] sample_tasks"
  moreover note task_calls_settle [of sample_env sample_tasks, THEN conjunct1, rule_format, of "[Resume 0]"]
  ultimately show False by (simp del: all_possible.simps)
qed

definition sample_query :: task_query where
  "sample_query = \<lparr>queryTaskIds = None, queryOwner = Some ''s'', queryParent = None, queryKinds = None,
     queryStatuses = None, createdAfter = None, createdBefore = None, updatedAfter = None,
     updatedBefore = None, queryLimit = Some 1, queryCursor = None, queryOrderBy = None,
     queryOrder = None, includeArchived = None, undeliveredOnly = None\<rparr>"

theorem task_pages_witness: "queryLimit sample_query = Some 1
    \<and> (\<exists>pages. collectPages (Suc (length (storedTasks (taskStore sample_tasks)))) sample_query (taskStore sample_tasks)
          = Some pages)"
  using task_pages [of sample_query "taskStore sample_tasks"] by (auto simp: sample_query_def)

definition sample_outputs :: output_store where
  "sample_outputs = \<lparr>outputs = [(''t'', \<lparr>chunks = [\<lparr>chunkTaskId = ''t'', chunkStream = None,
     chunkContent = [104, 105], chunkOffset = None, chunkTimestamp = None, chunkMetadata = None\<rparr>],
     outputSummary = None, recordOutputRef = None\<rparr>)], outputKind = OutMemory, uriPrefix = []\<rparr>"

theorem output_in_steps_witness:
  "\<exists>parts. readInSteps 3 ''t'' None 0 1 sample_outputs = Some parts \<and> concat parts = [104, 105]"
proof -
  have c: "getContent ''t'' None sample_outputs = [104, 105]"
    by (simp add: getContent_def contentOf_def sample_outputs_def)
  obtain r where r: "map_of (outputs sample_outputs) ''t'' = Some r" by (simp add: sample_outputs_def)
  from output_in_steps [OF r, of None 1 0] show ?thesis by (simp add: c ascii_def numeral_3_eq_3)
qed

end
