(* ===== verification/GoalTypes.thy ===== *)
theory GoalTypes
  imports JsonText Numbers "HOL-Library.List_Lexorder" "HOL-Library.Char_ord"
begin

text \<open>
  Thread goals: the records of \<open>types.ts\<close> and \<open>store-port.ts\<close> of the package \<open>goal\<close>, and the reading of
  a row of the table \<open>local_runtime_thread_goals\<close> (\<open>store-row.ts\<close> of \<open>local-runtime\<close>).  A column that
  holds JSON text is the value of that text, and NULL where the text is no JSON; a property that is
  \<open>undefined\<close> is absent.  Times are whole milliseconds.  Warnings to the log are left out.
\<close>

section \<open>Statuses and reasons\<close>

datatype goal_status =
    GoalActive | GoalPaused | GoalBlocked | GoalComplete | GoalBudgetLimited
  | GoalUsageLimited

datatype goal_status_reason =
    CompleteWorkerProposal | CompleteVerifierMet | CompleteUserRequested
  | PausedUserRequested | PausedRetracted | PausedInfraRetryable
  | PausedAccountingUnavailable | PausedVerifierUnavailable | PausedRouteUnavailable
  | PausedVerifierTimeout | PausedVerifierProtocol | PausedVerifierRuntime
  | PausedVerifierBudget | PausedVerifierCapability | PausedVerifierAborted
  | PausedNoProgress | PausedNoProgressAfterCompletionClaim | BlockedWorkerReported
  | BlockedSafetyPolicy | BlockedVerifierImpossible | BudgetLimitedToken
  | BudgetLimitedMainTurn | BudgetLimitedActiveTime | UsageLimitedProviderQuota
  | UsageLimitedRateLimit

datatype goal_wait_reason =
    WaitQuestionnaire | WaitPermission | WaitPlan | WaitRequiredBackground
  | WaitAutomationOwnerConflict | WaitDependencyUnavailable | WaitVerification
  | WaitUnknown

fun goal_status_name :: "goal_status \<Rightarrow> string" where
  "goal_status_name GoalActive = ''active''"
| "goal_status_name GoalPaused = ''paused''"
| "goal_status_name GoalBlocked = ''blocked''"
| "goal_status_name GoalComplete = ''complete''"
| "goal_status_name GoalBudgetLimited = ''budget_limited''"
| "goal_status_name GoalUsageLimited = ''usage_limited''"

fun goal_reason_name :: "goal_status_reason \<Rightarrow> string" where
  "goal_reason_name CompleteWorkerProposal = ''complete(worker_proposal)''"
| "goal_reason_name CompleteVerifierMet = ''complete(verifier_met)''"
| "goal_reason_name CompleteUserRequested = ''complete(user_requested)''"
| "goal_reason_name PausedUserRequested = ''paused(user_requested)''"
| "goal_reason_name PausedRetracted = ''paused(retracted)''"
| "goal_reason_name PausedInfraRetryable = ''paused(infra_retryable)''"
| "goal_reason_name PausedAccountingUnavailable = ''paused(accounting_unavailable)''"
| "goal_reason_name PausedVerifierUnavailable = ''paused(verifier_unavailable)''"
| "goal_reason_name PausedRouteUnavailable = ''paused(route_unavailable)''"
| "goal_reason_name PausedVerifierTimeout = ''paused(verifier_timeout)''"
| "goal_reason_name PausedVerifierProtocol = ''paused(verifier_protocol)''"
| "goal_reason_name PausedVerifierRuntime = ''paused(verifier_runtime)''"
| "goal_reason_name PausedVerifierBudget = ''paused(verifier_budget)''"
| "goal_reason_name PausedVerifierCapability = ''paused(verifier_capability)''"
| "goal_reason_name PausedVerifierAborted = ''paused(verifier_aborted)''"
| "goal_reason_name PausedNoProgress = ''paused(no_progress)''"
| "goal_reason_name PausedNoProgressAfterCompletionClaim = ''paused(no_progress_after_completion_claim)''"
| "goal_reason_name BlockedWorkerReported = ''blocked(worker_reported)''"
| "goal_reason_name BlockedSafetyPolicy = ''blocked(safety_policy)''"
| "goal_reason_name BlockedVerifierImpossible = ''blocked(verifier_impossible)''"
| "goal_reason_name BudgetLimitedToken = ''budget_limited(token)''"
| "goal_reason_name BudgetLimitedMainTurn = ''budget_limited(main_turn)''"
| "goal_reason_name BudgetLimitedActiveTime = ''budget_limited(active_time)''"
| "goal_reason_name UsageLimitedProviderQuota = ''usage_limited(provider_quota)''"
| "goal_reason_name UsageLimitedRateLimit = ''usage_limited(rate_limit)''"

fun goal_wait_name :: "goal_wait_reason \<Rightarrow> string" where
  "goal_wait_name WaitQuestionnaire = ''questionnaire''"
| "goal_wait_name WaitPermission = ''permission''"
| "goal_wait_name WaitPlan = ''plan''"
| "goal_wait_name WaitRequiredBackground = ''required_background''"
| "goal_wait_name WaitAutomationOwnerConflict = ''automation_owner_conflict''"
| "goal_wait_name WaitDependencyUnavailable = ''dependency_unavailable''"
| "goal_wait_name WaitVerification = ''verification''"
| "goal_wait_name WaitUnknown = ''unknown''"

definition THREAD_GOAL_STATUSES :: "goal_status list" where
  "THREAD_GOAL_STATUSES = [GoalActive, GoalPaused, GoalBlocked, GoalComplete, GoalBudgetLimited,
     GoalUsageLimited]"

definition THREAD_GOAL_STATUS_REASONS :: "goal_status_reason list" where
  "THREAD_GOAL_STATUS_REASONS = [CompleteWorkerProposal, CompleteVerifierMet, CompleteUserRequested,
     PausedUserRequested, PausedRetracted, PausedInfraRetryable,
     PausedAccountingUnavailable, PausedVerifierUnavailable, PausedRouteUnavailable,
     PausedVerifierTimeout, PausedVerifierProtocol, PausedVerifierRuntime,
     PausedVerifierBudget, PausedVerifierCapability, PausedVerifierAborted,
     PausedNoProgress, PausedNoProgressAfterCompletionClaim, BlockedWorkerReported,
     BlockedSafetyPolicy, BlockedVerifierImpossible, BudgetLimitedToken,
     BudgetLimitedMainTurn, BudgetLimitedActiveTime, UsageLimitedProviderQuota,
     UsageLimitedRateLimit]"

definition THREAD_GOAL_WAIT_REASONS :: "goal_wait_reason list" where
  "THREAD_GOAL_WAIT_REASONS = [WaitQuestionnaire, WaitPermission, WaitPlan, WaitRequiredBackground,
     WaitAutomationOwnerConflict, WaitDependencyUnavailable, WaitVerification,
     WaitUnknown]"

definition TERMINAL_STATUSES :: "goal_status list" where
  "TERMINAL_STATUSES = [GoalComplete, GoalBlocked, GoalBudgetLimited, GoalUsageLimited]"

definition isTerminalStatus :: "goal_status \<Rightarrow> bool" where
  "isTerminalStatus s = (s \<in> set TERMINAL_STATUSES)"

definition CONTINUATION_STATUSES :: "goal_status list" where
  "CONTINUATION_STATUSES = [GoalActive]"

definition isContinuationStatus :: "goal_status \<Rightarrow> bool" where
  "isContinuationStatus s = (s \<in> set CONTINUATION_STATUSES)"

datatype goal_kickoff_state = KickoffPending | KickoffEnqueued | KickoffConsumed

fun kickoff_name :: "goal_kickoff_state \<Rightarrow> string" where
  "kickoff_name KickoffPending = ''pending''"
| "kickoff_name KickoffEnqueued = ''enqueued''"
| "kickoff_name KickoffConsumed = ''consumed''"

section \<open>Goals\<close>

datatype verification_backend = Evaluator | Subagent

datatype verification_verdict = VerdictMet | VerdictNotMet | VerdictImpossible | VerdictInconclusive

record last_verification =
  backend :: verification_backend
  verdict :: verification_verdict
  verificationReason :: string
  missing :: "string list"
  missingFingerprint :: "string option"
  notMetStreak :: nat
  verificationTurnId :: string
  verifiedDigest :: string
  verifiedAt :: nat

datatype proposal_type = ProposeComplete | ProposeBlocked

record last_worker_proposal =
  proposalType :: proposal_type
  proposalTurnId :: string
  proposalSummary :: "string option"
  proposedAt :: nat

text \<open>An attachment is kept with the properties it came with.\<close>

type_synonym goal_attachment = jsobj

record thread_goal =
  goalId :: string
  goalSession :: string
  objective :: string
  objectiveResources :: "goal_attachment list"
  goalStatus :: goal_status
  goalCreatedAt :: nat
  goalUpdatedAt :: nat
  tokensUsed :: nat
  turnsUsed :: nat
  timeUsedSeconds :: nat
  tokenBudget :: "nat option"
  replyFingerprint :: "string option"
  noProgressStreak :: nat
  noToolStreak :: nat
  lastVerification :: "last_verification option"
  lastWorkerProposal :: "last_worker_proposal option"
  statusReason :: "goal_status_reason option"
  kickoffAttachments :: "goal_attachment list"
  kickoffState :: goal_kickoff_state
  executionWait :: "(goal_wait_reason \<times> nat) option"

text \<open>A goal whose text is empty, or too long when there is a bound, is refused.\<close>

definition validateThreadGoalObjective :: "string \<Rightarrow> nat option \<Rightarrow> string option" where
  "validateThreadGoalObjective value maxChars =
     (if length value = 0 then Some ''goal objective must not be empty''
      else (case maxChars of
          None \<Rightarrow> None
        | Some m \<Rightarrow> if m < length value
            then Some (''goal objective must not exceed '' @ decimal m @ '' characters'') else None))"

section \<open>Rows\<close>

record goal_row =
  goal_id :: string
  session_id :: string
  objective_text :: string
  status_text :: string
  created_at_ms :: nat
  updated_at_ms :: nat
  tokens_used :: int
  turns_used :: int
  time_used_seconds :: int
  token_budget :: "int option"
  kickoff_attachments_json :: "jsval option"
  objective_resources_json :: "jsval option"
  kickoff_state_text :: string
  reply_fingerprint :: "string option"
  no_progress_streak :: int
  no_tool_streak :: int
  last_verification_json :: "jsval option"
  last_worker_proposal_json :: "jsval option"
  status_reason_text :: "string option"
  execution_wait_reason :: "string option"
  execution_wait_since_ms :: "int option"
  execution_wait_epoch :: "nat option"

fun numericOrZero :: "js_number \<Rightarrow> nat" where
  "numericOrZero (Finite v) = (if v < 0 then 0 else nat \<lfloor>v\<rfloor>)"
| "numericOrZero NotFinite = 0"

definition positiveOrNull :: "rat option \<Rightarrow> nat option" where
  "positiveOrNull v = (case v of None \<Rightarrow> None | Some x \<Rightarrow> if x \<le> 0 then None else Some (nat \<lfloor>x\<rfloor>))"

definition isKnownThreadGoalStatus :: "string \<Rightarrow> bool" where
  "isKnownThreadGoalStatus v = list_ex (\<lambda>s. goal_status_name s = v) THREAD_GOAL_STATUSES"

text \<open>A status that is not known is read as \<open>paused\<close>.\<close>

definition readStatus :: "string \<Rightarrow> goal_status" where
  "readStatus v = (case find (\<lambda>s. goal_status_name s = v) THREAD_GOAL_STATUSES of
     Some s \<Rightarrow> s | None \<Rightarrow> GoalPaused)"

definition readStatusReason :: "string option \<Rightarrow> goal_status_reason option" where
  "readStatusReason v = (case v of
     None \<Rightarrow> None
   | Some r \<Rightarrow> find (\<lambda>s. goal_reason_name s = r) THREAD_GOAL_STATUS_REASONS)"

definition MAX_SAFE_INTEGER :: int where
  "MAX_SAFE_INTEGER = 9007199254740991"

definition readExecutionWait :: "string option \<Rightarrow> int option \<Rightarrow> (goal_wait_reason \<times> nat) option" where
  "readExecutionWait reason since =
     (case reason of
        None \<Rightarrow> None
      | Some r \<Rightarrow>
          (case find (\<lambda>w. goal_wait_name w = r) THREAD_GOAL_WAIT_REASONS of
             None \<Rightarrow> None
           | Some w \<Rightarrow>
               (case since of
                  None \<Rightarrow> None
                | Some n \<Rightarrow> if MAX_SAFE_INTEGER < n \<or> n < 0 then None else Some (w, nat n))))"

definition readKickoffState :: "string \<Rightarrow> goal_kickoff_state" where
  "readKickoffState v =
     (if v = ''pending'' then KickoffPending else if v = ''enqueued'' then KickoffEnqueued else KickoffConsumed)"

definition optionalString :: "jsval \<Rightarrow> bool" where
  "optionalString v = (case v of JUndefined \<Rightarrow> True | JString s \<Rightarrow> True | _ \<Rightarrow> False)"

definition is_string :: "jsval \<Rightarrow> bool" where
  "is_string v = (case v of JString s \<Rightarrow> True | _ \<Rightarrow> False)"

definition isKickoffAttachment :: "jsval \<Rightarrow> bool" where
  "isKickoffAttachment v =
     (case v of
        JObject item \<Rightarrow>
          prop_of item ''type'' \<in> {JString ''file'', JString ''image''}
          \<and> is_string (prop_of item ''filePath'') \<and> is_string (prop_of item ''fileName'')
          \<and> is_string (prop_of item ''mimeType'') \<and> optionalString (prop_of item ''dataUrl'')
          \<and> optionalString (prop_of item ''assetId'') \<and> optionalString (prop_of item ''error'')
      | _ \<Rightarrow> False)"

fun object_of :: "jsval \<Rightarrow> jsobj" where
  "object_of (JObject item) = item"
| "object_of _ = []"

definition readKickoffAttachments :: "jsval option \<Rightarrow> goal_attachment list" where
  "readKickoffAttachments v =
     (case v of
        Some (JArray items) \<Rightarrow> map object_of (filter isKickoffAttachment items)
      | _ \<Rightarrow> [])"

definition attachments_json :: "goal_attachment list \<Rightarrow> jsval" where
  "attachments_json as = JArray (map JObject as)"

fun natural :: "jsval \<Rightarrow> nat option" where
  "natural (JNumber n) = (if 0 \<le> n then Some (nat n) else None)"
| "natural _ = None"

definition strings_of :: "jsval \<Rightarrow> string list option" where
  "strings_of v = (case v of JArray xs \<Rightarrow> those (map as_string xs) | _ \<Rightarrow> None)"

definition read_backend :: "jsval \<Rightarrow> verification_backend option" where
  "read_backend v = (if v = JString ''evaluator'' then Some Evaluator
     else if v = JString ''subagent'' then Some Subagent else None)"

definition read_verdict :: "jsval \<Rightarrow> verification_verdict option" where
  "read_verdict v = (if v = JString ''met'' then Some VerdictMet
     else if v = JString ''not_met'' then Some VerdictNotMet
     else if v = JString ''impossible'' then Some VerdictImpossible
     else if v = JString ''inconclusive'' then Some VerdictInconclusive else None)"

text \<open>
  The check of \<open>isLastVerificationV1\<close> and the copy made after it, in one: every property has its
  type, or there is no verification.
\<close>

definition readLastVerification :: "jsval option \<Rightarrow> last_verification option" where
  "readLastVerification v =
     (case v of
        Some (JObject item) \<Rightarrow>
          (case (read_backend (prop_of item ''backend''), read_verdict (prop_of item ''verdict''),
               string_prop item ''reason'', strings_of (prop_of item ''missing''),
               natural (prop_of item ''notMetStreak''), string_prop item ''turnId'',
               string_prop item ''objectiveDigest'', natural (prop_of item ''at'')) of
             (Some b, Some vd, Some r, Some ms, Some n, Some tid, Some d, Some x) \<Rightarrow>
               if prop_of item ''v'' = JNumber 1 \<and> optionalString (prop_of item ''missingFingerprint'')
               then Some \<lparr>backend = b, verdict = vd, verificationReason = r, missing = ms,
                 missingFingerprint = (if truthy_opt (string_prop item ''missingFingerprint'')
                   then string_prop item ''missingFingerprint'' else None),
                 notMetStreak = n, verificationTurnId = tid, verifiedDigest = d, verifiedAt = x\<rparr>
               else None
           | _ \<Rightarrow> None)
      | _ \<Rightarrow> None)"

definition THREAD_GOAL_WORKER_PROPOSAL_SUMMARY_MAX_CHARS :: nat where
  "THREAD_GOAL_WORKER_PROPOSAL_SUMMARY_MAX_CHARS = 2000"

definition read_proposal_type :: "jsval \<Rightarrow> proposal_type option" where
  "read_proposal_type v = (if v = JString ''complete'' then Some ProposeComplete
     else if v = JString ''blocked'' then Some ProposeBlocked else None)"

definition readLastWorkerProposal :: "jsval option \<Rightarrow> last_worker_proposal option" where
  "readLastWorkerProposal v =
     (case v of
        Some (JObject item) \<Rightarrow>
          (case (read_proposal_type (prop_of item ''type''), string_prop item ''turnId'',
               natural (prop_of item ''at'')) of
             (Some ty, Some tid, Some x) \<Rightarrow>
               if prop_of item ''v'' = JNumber 1 \<and> prop_of item ''source'' = JString ''worker''
                 \<and> optionalString (prop_of item ''summary'')
                 \<and> length (or_default (string_prop item ''summary'') [])
                     \<le> THREAD_GOAL_WORKER_PROPOSAL_SUMMARY_MAX_CHARS
               then Some \<lparr>proposalType = ty, proposalTurnId = tid,
                 proposalSummary = (if truthy_opt (string_prop item ''summary'')
                   then string_prop item ''summary'' else None), proposedAt = x\<rparr>
               else None
           | _ \<Rightarrow> None)
      | _ \<Rightarrow> None)"

definition rowToThreadGoalState :: "goal_row \<Rightarrow> thread_goal option" where
  "rowToThreadGoalState r =
     (if goal_id r = [] \<or> session_id r = [] \<or> objective_text r = [] \<or> status_text r = [] then None
      else Some
        \<lparr>goalId = goal_id r, goalSession = session_id r, objective = objective_text r,
         objectiveResources = readKickoffAttachments (objective_resources_json r),
         goalStatus = readStatus (status_text r), goalCreatedAt = created_at_ms r,
         goalUpdatedAt = updated_at_ms r,
         tokensUsed = numericOrZero (Finite (of_int (tokens_used r))),
         turnsUsed = numericOrZero (Finite (of_int (turns_used r))),
         timeUsedSeconds = numericOrZero (Finite (of_int (time_used_seconds r))),
         tokenBudget = positiveOrNull (map_option of_int (token_budget r)),
         replyFingerprint = reply_fingerprint r,
         noProgressStreak = numericOrZero (Finite (of_int (no_progress_streak r))),
         noToolStreak = numericOrZero (Finite (of_int (no_tool_streak r))),
         lastVerification = readLastVerification (last_verification_json r),
         lastWorkerProposal = readLastWorkerProposal (last_worker_proposal_json r),
         statusReason = readStatusReason (status_reason_text r),
         kickoffAttachments = readKickoffAttachments (kickoff_attachments_json r),
         kickoffState = readKickoffState (kickoff_state_text r),
         executionWait =
           (if readStatus (status_text r) = GoalActive \<and> execution_wait_epoch r = Some (updated_at_ms r)
            then readExecutionWait (execution_wait_reason r) (execution_wait_since_ms r) else None)\<rparr>)"

section \<open>Writing and reading back\<close>

fun backend_name :: "verification_backend \<Rightarrow> string" where
  "backend_name Evaluator = ''evaluator''"
| "backend_name Subagent = ''subagent''"

fun verdict_name :: "verification_verdict \<Rightarrow> string" where
  "verdict_name VerdictMet = ''met''"
| "verdict_name VerdictNotMet = ''not_met''"
| "verdict_name VerdictImpossible = ''impossible''"
| "verdict_name VerdictInconclusive = ''inconclusive''"

fun optional_prop :: "string \<Rightarrow> string option \<Rightarrow> jsobj" where
  "optional_prop k None = []"
| "optional_prop k (Some s) = [(k, JString s)]"

definition verification_json :: "last_verification \<Rightarrow> jsval" where
  "verification_json v = JObject
     ([(''v'', JNumber 1), (''backend'', JString (backend_name (backend v))),
       (''verdict'', JString (verdict_name (verdict v))), (''reason'', JString (verificationReason v)),
       (''missing'', JArray (map JString (missing v)))]
      @ optional_prop ''missingFingerprint'' (missingFingerprint v)
      @ [(''notMetStreak'', JNumber (int (notMetStreak v))), (''turnId'', JString (verificationTurnId v)),
         (''objectiveDigest'', JString (verifiedDigest v)), (''at'', JNumber (int (verifiedAt v)))])"

fun proposal_name :: "proposal_type \<Rightarrow> string" where
  "proposal_name ProposeComplete = ''complete''"
| "proposal_name ProposeBlocked = ''blocked''"

definition proposal_json :: "last_worker_proposal \<Rightarrow> jsval" where
  "proposal_json p = JObject
     ([(''v'', JNumber 1), (''source'', JString ''worker''), (''type'', JString (proposal_name (proposalType p))),
       (''turnId'', JString (proposalTurnId p))]
      @ optional_prop ''summary'' (proposalSummary p) @ [(''at'', JNumber (int (proposedAt p)))])"

lemma find_status: "find (\<lambda>s. s = a) THREAD_GOAL_STATUSES = Some a"
  by (cases a) (simp_all add: THREAD_GOAL_STATUSES_def)

lemma status_name_not_Nil [simp]: "goal_status_name a \<noteq> []"
  by (cases a) simp_all

lemma goal_status_name_inject [simp]: "goal_status_name a = goal_status_name b \<longleftrightarrow> a = b"
  by (cases a; cases b) simp_all

lemma readStatus_name [simp]: "readStatus (goal_status_name a) = a"
  by (simp add: readStatus_def find_status)

lemma known_status [simp]: "isKnownThreadGoalStatus (goal_status_name a)"
  by (cases a) (simp_all add: isKnownThreadGoalStatus_def THREAD_GOAL_STATUSES_def)

lemma readStatus_active: "readStatus v = GoalActive \<longleftrightarrow> v = goal_status_name GoalActive"
  by (auto simp: readStatus_def THREAD_GOAL_STATUSES_def split: if_splits)

lemma readStatusReason_name [simp]: "readStatusReason (map_option goal_reason_name r) = r"
  by (cases r; simp add: readStatusReason_def; rename_tac s; case_tac s;
      simp add: THREAD_GOAL_STATUS_REASONS_def)

lemma readExecutionWait_name [simp]:
  "int n \<le> MAX_SAFE_INTEGER \<Longrightarrow> readExecutionWait (Some (goal_wait_name w)) (Some (int n)) = Some (w, n)"
  by (cases w) (simp_all add: readExecutionWait_def THREAD_GOAL_WAIT_REASONS_def)

lemma numericOrZero_int [simp]: "numericOrZero (Finite (of_int z)) = nat z"
  by simp

lemma readKickoffState_name [simp]: "readKickoffState (kickoff_name k) = k"
  by (cases k) (simp_all add: readKickoffState_def)

lemma read_attachments [simp]:
  "list_all (\<lambda>a. isKickoffAttachment (JObject a)) as \<Longrightarrow> readKickoffAttachments (Some (attachments_json as)) = as"
  by (induction as) (simp_all add: readKickoffAttachments_def attachments_json_def)

lemma those_strings: "those (map as_string (map JString xs)) = Some xs"
  by (induction xs) simp_all

lemma read_verification [simp]:
  assumes "missingFingerprint v \<noteq> Some []"
  shows "readLastVerification (Some (verification_json v)) = Some v"
proof -
  have "read_backend (JString (backend_name b)) = Some b" for b
    by (cases b) (simp_all add: read_backend_def)
  moreover have "read_verdict (JString (verdict_name d)) = Some d" for d
    by (cases d) (simp_all add: read_verdict_def)
  moreover have "strings_of (JArray (map JString xs)) = Some xs" for xs
    using those_strings [of xs] by (simp add: strings_of_def)
  ultimately show ?thesis using assms
    by (cases "missingFingerprint v")
      (simp_all add: readLastVerification_def verification_json_def prop_of_def string_prop_def optionalString_def)
qed

lemma read_proposal [simp]:
  assumes "proposalSummary p \<noteq> Some []"
    "length (or_default (proposalSummary p) []) \<le> THREAD_GOAL_WORKER_PROPOSAL_SUMMARY_MAX_CHARS"
  shows "readLastWorkerProposal (Some (proposal_json p)) = Some p"
proof -
  have "read_proposal_type (JString (proposal_name ty)) = Some ty" for ty
    by (cases ty) (simp_all add: read_proposal_type_def)
  then show ?thesis using assms
    by (cases "proposalSummary p")
      (simp_all add: readLastWorkerProposal_def proposal_json_def prop_of_def string_prop_def optionalString_def)
qed

end
