(* ===== verification/GoalStore.thy ===== *)
theory GoalStore
  imports GoalTypes
begin

text \<open>
  The store of thread goals (\<open>store.ts\<close>, \<open>store-patch.ts\<close>, \<open>store-breaker.ts\<close>,
  \<open>store-bound-settlement.ts\<close>, \<open>store-verification.ts\<close>, \<open>store-execution.ts\<close>, \<open>binding-stale.ts\<close> and
  \<open>store-worker-proposal.ts\<close> of \<open>local-runtime\<close>) on the table of its rows.  A statement is its effect on
  the table; an operation runs in one transaction, or in one synchronous block of the only process
  that writes the table.  The clock gives the time of the operation, \<open>sha\<close> is the hexadecimal hash.
  A budget is a finite number.
\<close>

section \<open>Statements\<close>

type_synonym goal_table = "goal_row list"

definition row_by_id :: "string \<Rightarrow> goal_table \<Rightarrow> goal_row option" where
  "row_by_id i t = find (\<lambda>r. goal_id r = i) t"

definition row_by_session :: "string \<Rightarrow> goal_table \<Rightarrow> goal_row option" where
  "row_by_session s t = find (\<lambda>r. session_id r = s) t"

definition sql_changes :: "(goal_row \<Rightarrow> bool) \<Rightarrow> goal_table \<Rightarrow> nat" where
  "sql_changes p t = length (filter p t)"

definition sql_update :: "(goal_row \<Rightarrow> bool) \<Rightarrow> (goal_row \<Rightarrow> goal_row) \<Rightarrow> goal_table \<Rightarrow> goal_table" where
  "sql_update p f t = map (\<lambda>r. if p r then f r else r) t"

definition sql_delete :: "(goal_row \<Rightarrow> bool) \<Rightarrow> goal_table \<Rightarrow> goal_table" where
  "sql_delete p t = filter (\<lambda>r. \<not> p r) t"

definition goal_by_id :: "string \<Rightarrow> goal_table \<Rightarrow> thread_goal option" where
  "goal_by_id i t = Option.bind (row_by_id i t) rowToThreadGoalState"

definition getBySession :: "string \<Rightarrow> goal_table \<Rightarrow> thread_goal option" where
  "getBySession s t = Option.bind (row_by_session s t) rowToThreadGoalState"

definition active_text :: string where
  "active_text = goal_status_name GoalActive"

section \<open>Errors and inputs\<close>

datatype goal_error =
    GoalNotFound string
  | GoalAlreadyExists string
  | StatusConflict string goal_status
  | ObjectiveConflict string string string
  | EpochConflict string nat nat
  | BudgetLimited string
  | TokenBudgetExhausted string nat rat
  | GuardedPatchUnchanged string
  | ConstraintFailed

record goal_create_input =
  createSession :: string
  createObjective :: string
  createTokenBudget :: "rat option"
  createKickoffAttachments :: "goal_attachment list option"
  createObjectiveResources :: "goal_attachment list option"

record goal_patch_input =
  patchGoalStatus :: "goal_status option"
  patchObjective :: "string option"
  patchResources :: "goal_attachment list option"
  patchTokenBudget :: "rat option option"
  patchStatusReason :: "goal_status_reason option option"
  rejectIfCurrentStatus :: "goal_status option"
  rejectIfObjectiveChangedFrom :: "string option"
  rejectIfUpdatedAtChangedFrom :: "nat option"

section \<open>Creating, deleting, pausing\<close>

definition new_row :: "goal_create_input \<Rightarrow> string \<Rightarrow> nat \<Rightarrow> goal_row" where
  "new_row input gid now =
     \<lparr>goal_id = gid, session_id = createSession input, objective_text = createObjective input,
      status_text = active_text, created_at_ms = now, updated_at_ms = now,
      tokens_used = 0, turns_used = 0, time_used_seconds = 0,
      token_budget = map_option int (positiveOrNull (createTokenBudget input)),
      kickoff_attachments_json = Some (attachments_json (or_default (createKickoffAttachments input) [])),
      objective_resources_json = Some (attachments_json (or_default (createObjectiveResources input) [])),
      kickoff_state_text = kickoff_name KickoffPending,
      reply_fingerprint = None, no_progress_streak = 0, no_tool_streak = 0,
      last_verification_json = None, last_worker_proposal_json = None, status_reason_text = None,
      execution_wait_reason = None, execution_wait_since_ms = None, execution_wait_epoch = None\<rparr>"

definition created_goal :: "goal_create_input \<Rightarrow> string \<Rightarrow> nat \<Rightarrow> thread_goal" where
  "created_goal input gid now =
     \<lparr>goalId = gid, goalSession = createSession input, objective = createObjective input,
      objectiveResources = or_default (createObjectiveResources input) [], goalStatus = GoalActive,
      goalCreatedAt = now, goalUpdatedAt = now, tokensUsed = 0, turnsUsed = 0, timeUsedSeconds = 0,
      tokenBudget = positiveOrNull (createTokenBudget input), replyFingerprint = None,
      noProgressStreak = 0, noToolStreak = 0, lastVerification = None, lastWorkerProposal = None,
      statusReason = None, kickoffAttachments = or_default (createKickoffAttachments input) [],
      kickoffState = KickoffPending, executionWait = None\<rparr>"

text \<open>Only a complete goal of the session is replaced; the id is a primary key.\<close>

definition createGoal ::
    "string \<Rightarrow> nat \<Rightarrow> goal_create_input \<Rightarrow> goal_table \<Rightarrow> (goal_error + thread_goal) \<times> goal_table" where
  "createGoal gid now input t =
     (case row_by_session (createSession input) t of
        Some existing \<Rightarrow>
          if status_text existing \<noteq> goal_status_name GoalComplete
            then (Inl (GoalAlreadyExists (goal_id existing)), t)
          else
            (let t' = sql_delete (\<lambda>r. session_id r = createSession input) t
             in if row_by_id gid t' \<noteq> None then (Inl ConstraintFailed, t)
                else (Inr (created_goal input gid now), t' @ [new_row input gid now]))
      | None \<Rightarrow>
          if row_by_id gid t \<noteq> None then (Inl ConstraintFailed, t)
          else (Inr (created_goal input gid now), t @ [new_row input gid now]))"

definition deleteGoal :: "string \<Rightarrow> goal_table \<Rightarrow> goal_table" where
  "deleteGoal i t = sql_delete (\<lambda>r. goal_id r = i) t"

definition pauseActiveBySession ::
    "nat \<Rightarrow> string \<Rightarrow> goal_status_reason option \<Rightarrow> goal_table \<Rightarrow> thread_goal option \<times> goal_table" where
  "pauseActiveBySession now s reason t =
     (let p = (\<lambda>r. session_id r = s \<and> status_text r = active_text);
          t' = sql_update p (\<lambda>r. r\<lparr>status_text := goal_status_name GoalPaused,
            status_reason_text := Some (goal_reason_name (or_default reason PausedUserRequested)),
            updated_at_ms := max now (updated_at_ms r + 1)\<rparr>) t
      in if sql_changes p t = 0 then (None, t) else (getBySession s t', t'))"

definition at_epoch :: "string \<Rightarrow> nat \<Rightarrow> goal_row \<Rightarrow> bool" where
  "at_epoch i epoch r \<longleftrightarrow> goal_id r = i \<and> updated_at_ms r = epoch \<and> status_text r = active_text"

definition transitionActiveAtEpoch ::
    "nat \<Rightarrow> string \<Rightarrow> nat \<Rightarrow> goal_status \<Rightarrow> goal_status_reason \<Rightarrow> goal_table \<Rightarrow> thread_goal option \<times> goal_table" where
  "transitionActiveAtEpoch now i expectedEpoch status reason t =
     (let t' = sql_update (at_epoch i expectedEpoch) (\<lambda>r. r\<lparr>status_text := goal_status_name status,
            status_reason_text := Some (goal_reason_name reason),
            updated_at_ms := max now (expectedEpoch + 1)\<rparr>) t
      in if sql_changes (at_epoch i expectedEpoch) t = 0 then (None, t) else (goal_by_id i t', t'))"

definition resetBreakerAtEpoch ::
    "nat \<Rightarrow> string \<Rightarrow> nat \<Rightarrow> goal_table \<Rightarrow> thread_goal option \<times> goal_table" where
  "resetBreakerAtEpoch now i expectedEpoch t =
     (let t' = sql_update (at_epoch i expectedEpoch) (\<lambda>r. r\<lparr>reply_fingerprint := None,
            no_progress_streak := 0, no_tool_streak := 0,
            updated_at_ms := max now (expectedEpoch + 1)\<rparr>) t
      in if sql_changes (at_epoch i expectedEpoch) t = 0 then (None, t) else (goal_by_id i t', t'))"

definition transitionKickoffState ::
    "string \<Rightarrow> goal_kickoff_state \<Rightarrow> goal_kickoff_state \<Rightarrow> goal_table \<Rightarrow> thread_goal option \<times> goal_table" where
  "transitionKickoffState i expected next t =
     (let p = (\<lambda>r. goal_id r = i \<and> kickoff_state_text r = kickoff_name expected);
          t' = sql_update p (\<lambda>r. r\<lparr>kickoff_state_text := kickoff_name next\<rparr>) t
      in if sql_changes p t = 0 then (None, t) else (goal_by_id i t', t'))"

section \<open>Lists for recovery\<close>

definition listed :: "(goal_row \<Rightarrow> bool) \<Rightarrow> (goal_row \<Rightarrow> nat) \<Rightarrow> goal_table \<Rightarrow> thread_goal list" where
  "listed p time t =
     List.map_filter rowToThreadGoalState (sort_key (\<lambda>r. time r) (sort_key goal_id (filter p t)))"

definition listRecoverableKickoffs :: "goal_table \<Rightarrow> thread_goal list" where
  "listRecoverableKickoffs = listed (\<lambda>r. kickoff_state_text r \<in> {''pending'', ''enqueued''}
     \<and> status_text r \<noteq> goal_status_name GoalComplete) created_at_ms"

definition listRecoverableActiveGoals :: "goal_table \<Rightarrow> thread_goal list" where
  "listRecoverableActiveGoals =
     listed (\<lambda>r. kickoff_state_text r = ''consumed'' \<and> status_text r = active_text) updated_at_ms"

definition listRecoverableBudgetLimitSummaries :: "goal_table \<Rightarrow> thread_goal list" where
  "listRecoverableBudgetLimitSummaries =
     listed (\<lambda>r. status_text r = goal_status_name GoalBudgetLimited) updated_at_ms"

section \<open>The user's changes\<close>

definition patched_row ::
    "goal_patch_input \<Rightarrow> bool \<Rightarrow> nat \<Rightarrow> thread_goal \<Rightarrow> goal_row \<Rightarrow> goal_row" where
  "patched_row input resumesTokenLimited now state r =
     (let nextStatus = or_default (patchGoalStatus input) (goalStatus state);
          nextResources = or_default (patchResources input) (objectiveResources state);
          nextTokenBudget = (case patchTokenBudget input of
              None \<Rightarrow> tokenBudget state | Some b \<Rightarrow> positiveOrNull b);
          objectiveChanged = (patchObjective input \<noteq> None \<and> patchObjective input \<noteq> Some (objective state)
              \<or> nextResources \<noteq> objectiveResources state);
          resumed = (patchGoalStatus input = Some GoalActive \<and>
              (goalStatus state \<in> {GoalPaused, GoalBlocked, GoalUsageLimited} \<or> resumesTokenLimited));
          cleared = (objectiveChanged \<or> resumed)
      in r\<lparr>status_text := goal_status_name nextStatus,
           objective_text := or_default (patchObjective input) (objective state),
           token_budget := map_option int nextTokenBudget,
           reply_fingerprint := (if cleared then None else replyFingerprint state),
           no_progress_streak := (if cleared then 0 else int (noProgressStreak state)),
           no_tool_streak := (if cleared then 0 else int (noToolStreak state)),
           last_verification_json := (if objectiveChanged then None
             else map_option verification_json (lastVerification state)),
           last_worker_proposal_json := (if objectiveChanged then None
             else map_option proposal_json (lastWorkerProposal state)),
           status_reason_text := map_option goal_reason_name (case patchStatusReason input of
               Some x \<Rightarrow> x
             | None \<Rightarrow> if patchGoalStatus input \<noteq> None \<and> patchGoalStatus input \<noteq> Some (goalStatus state)
                 then None else statusReason state),
           updated_at_ms := now,
           objective_resources_json := Some (attachments_json nextResources)\<rparr>)"

definition patched_goal ::
    "goal_patch_input \<Rightarrow> bool \<Rightarrow> nat \<Rightarrow> thread_goal \<Rightarrow> thread_goal" where
  "patched_goal input resumesTokenLimited now state =
     (let nextResources = or_default (patchResources input) (objectiveResources state);
          objectiveChanged = (patchObjective input \<noteq> None \<and> patchObjective input \<noteq> Some (objective state)
              \<or> nextResources \<noteq> objectiveResources state);
          resumed = (patchGoalStatus input = Some GoalActive \<and>
              (goalStatus state \<in> {GoalPaused, GoalBlocked, GoalUsageLimited} \<or> resumesTokenLimited));
          cleared = (objectiveChanged \<or> resumed)
      in state\<lparr>objective := or_default (patchObjective input) (objective state),
           objectiveResources := nextResources,
           goalStatus := or_default (patchGoalStatus input) (goalStatus state),
           goalUpdatedAt := now,
           tokenBudget := (case patchTokenBudget input of
               None \<Rightarrow> tokenBudget state | Some b \<Rightarrow> positiveOrNull b),
           replyFingerprint := (if cleared then None else replyFingerprint state),
           noProgressStreak := (if cleared then 0 else noProgressStreak state),
           noToolStreak := (if cleared then 0 else noToolStreak state),
           lastVerification := (if objectiveChanged then None else lastVerification state),
           lastWorkerProposal := (if objectiveChanged then None else lastWorkerProposal state),
           statusReason := (case patchStatusReason input of
               Some x \<Rightarrow> x
             | None \<Rightarrow> if patchGoalStatus input \<noteq> None \<and> patchGoalStatus input \<noteq> Some (goalStatus state)
                 then None else statusReason state),
           executionWait := None\<rparr>)"

definition guards_hold :: "goal_patch_input \<Rightarrow> string \<Rightarrow> goal_row \<Rightarrow> bool" where
  "guards_hold input i r \<longleftrightarrow> goal_id r = i
     \<and> (case rejectIfCurrentStatus input of None \<Rightarrow> True | Some s \<Rightarrow> status_text r \<noteq> goal_status_name s)
     \<and> (case rejectIfObjectiveChangedFrom input of None \<Rightarrow> True | Some o' \<Rightarrow> objective_text r = o')
     \<and> (case rejectIfUpdatedAtChangedFrom input of None \<Rightarrow> True | Some e \<Rightarrow> updated_at_ms r = e)"

definition guarded :: "goal_patch_input \<Rightarrow> bool" where
  "guarded input \<longleftrightarrow> rejectIfCurrentStatus input \<noteq> None \<or> rejectIfObjectiveChangedFrom input \<noteq> None
     \<or> rejectIfUpdatedAtChangedFrom input \<noteq> None"

text \<open>The error of a guarded update that changed no row.\<close>

definition guard_error :: "goal_patch_input \<Rightarrow> string \<Rightarrow> goal_table \<Rightarrow> goal_error" where
  "guard_error input i t =
     (case goal_by_id i t of
        None \<Rightarrow> GoalNotFound i
      | Some current \<Rightarrow>
          if rejectIfCurrentStatus input = Some (goalStatus current) then StatusConflict i (goalStatus current)
          else if rejectIfObjectiveChangedFrom input \<noteq> None
              \<and> rejectIfObjectiveChangedFrom input \<noteq> Some (objective current)
            then ObjectiveConflict i (the (rejectIfObjectiveChangedFrom input)) (objective current)
          else if rejectIfUpdatedAtChangedFrom input \<noteq> None
              \<and> rejectIfUpdatedAtChangedFrom input \<noteq> Some (goalUpdatedAt current)
            then EpochConflict i (the (rejectIfUpdatedAtChangedFrom input)) (goalUpdatedAt current)
          else GuardedPatchUnchanged i)"

text \<open>The checks before the update, in their order.\<close>

definition patch_refused ::
    "goal_patch_input \<Rightarrow> string \<Rightarrow> goal_row \<Rightarrow> thread_goal \<Rightarrow> bool \<Rightarrow> goal_error option" where
  "patch_refused input i existing state resumesTokenLimited =
     (if rejectIfCurrentStatus input = Some (goalStatus state) then Some (StatusConflict i (goalStatus state))
      else if rejectIfObjectiveChangedFrom input \<noteq> None
          \<and> rejectIfObjectiveChangedFrom input \<noteq> Some (objective state)
        then Some (ObjectiveConflict i (the (rejectIfObjectiveChangedFrom input)) (objective state))
      else if rejectIfUpdatedAtChangedFrom input \<noteq> None
          \<and> rejectIfUpdatedAtChangedFrom input \<noteq> Some (goalUpdatedAt state)
        then Some (EpochConflict i (the (rejectIfUpdatedAtChangedFrom input)) (goalUpdatedAt state))
      else if (case patchTokenBudget input of Some (Some b) \<Rightarrow> b \<le> of_nat (tokensUsed state) | _ \<Rightarrow> False)
        then Some (TokenBudgetExhausted i (tokensUsed state) (the (the (patchTokenBudget input))))
      else if patchGoalStatus input = Some GoalActive \<and> goalStatus state = GoalBudgetLimited
          \<and> \<not> resumesTokenLimited
        then Some (BudgetLimited i)
      else if patchGoalStatus input = Some GoalActive \<and> \<not> isKnownThreadGoalStatus (status_text existing)
        then Some (StatusConflict i GoalPaused)
      else if patchGoalStatus input = Some GoalActive \<and> goalStatus state = GoalComplete
        then Some (StatusConflict i (goalStatus state))
      else None)"

definition resumes_token_limited :: "goal_patch_input \<Rightarrow> thread_goal \<Rightarrow> bool" where
  "resumes_token_limited input state \<longleftrightarrow>
     patchGoalStatus input = Some GoalActive \<and> goalStatus state = GoalBudgetLimited
     \<and> statusReason state = Some BudgetLimitedToken
     \<and> (case patchTokenBudget input of
          None \<Rightarrow> False | Some None \<Rightarrow> True | Some (Some b) \<Rightarrow> b > of_nat (tokensUsed state))"

definition patchThreadGoal ::
    "nat \<Rightarrow> string \<Rightarrow> goal_patch_input \<Rightarrow> goal_table \<Rightarrow> (goal_error + thread_goal) \<times> goal_table" where
  "patchThreadGoal time i input t =
     (case (row_by_id i t, goal_by_id i t) of
        (Some existing, Some state) \<Rightarrow>
          (let resumes = resumes_token_limited input state
           in (case patch_refused input i existing state resumes of
                 Some err \<Rightarrow> (Inl err, t)
               | None \<Rightarrow>
                   (let now = max time (goalUpdatedAt state + 1);
                        t' = sql_update (guards_hold input i) (patched_row input resumes now state) t
                    in if guarded input \<and> sql_changes (guards_hold input i) t = 0
                         then (Inl (guard_error input i t), t)
                       else (Inr (patched_goal input resumes now state), t'))))
      | _ \<Rightarrow> (Inl (GoalNotFound i), t))"

section \<open>Bindings\<close>

datatype goal_stale_reason = MissingGoal | StaleEpoch | StaleDigest | StaleStatus

record goal_binding =
  bindingEpoch :: nat
  bindingDigest :: string

definition classifyThreadGoalAccountingStale ::
    "(string \<Rightarrow> string) \<Rightarrow> thread_goal option \<Rightarrow> goal_binding \<Rightarrow> goal_stale_reason option" where
  "classifyThreadGoalAccountingStale sha state expected =
     (case state of
        None \<Rightarrow> Some MissingGoal
      | Some g \<Rightarrow>
          if goalUpdatedAt g \<noteq> bindingEpoch expected then Some StaleEpoch
          else if sha (objective g) \<noteq> bindingDigest expected then Some StaleDigest
          else None)"

definition classifyThreadGoalBindingStale ::
    "(string \<Rightarrow> string) \<Rightarrow> thread_goal option \<Rightarrow> goal_binding \<Rightarrow> goal_stale_reason option" where
  "classifyThreadGoalBindingStale sha state expected =
     (case classifyThreadGoalAccountingStale sha state expected of
        Some r \<Rightarrow> Some r
      | None \<Rightarrow> if map_option goalStatus state = Some GoalActive then None else Some StaleStatus)"

datatype goal_decision = Settled thread_goal nat | Stale goal_stale_reason "thread_goal option"

definition threadGoalStaleDecision ::
    "(string \<Rightarrow> string) \<Rightarrow> thread_goal option \<Rightarrow> goal_binding \<Rightarrow> goal_decision option" where
  "threadGoalStaleDecision sha state expected =
     map_option (\<lambda>reason. Stale reason state) (classifyThreadGoalBindingStale sha state expected)"

section \<open>Accounting and settlement\<close>

record usage_delta =
  deltaTokens :: js_number
  deltaActiveSeconds :: js_number
  deltaMainTurns :: nat

record budget_limits =
  limitTokens :: "js_number option"
  limitMainTurns :: "js_number option"
  limitActiveSeconds :: "js_number option"

datatype budget_dimension = TokenBudget | MainTurnBudget | ActiveTimeBudget

fun isPositiveLimit :: "js_number option \<Rightarrow> bool" where
  "isPositiveLimit (Some (Finite v)) = (v > 0)"
| "isPositiveLimit _ = False"

fun reaches :: "nat \<Rightarrow> js_number option \<Rightarrow> bool" where
  "reaches n (Some (Finite v)) = (of_nat n \<ge> v)"
| "reaches n _ = False"

definition firstExceededBudget :: "nat \<Rightarrow> nat \<Rightarrow> nat \<Rightarrow> budget_limits \<Rightarrow> budget_dimension option" where
  "firstExceededBudget tokens mainTurns activeSeconds limits =
     (if isPositiveLimit (limitTokens limits) \<and> reaches tokens (limitTokens limits) then Some TokenBudget
      else if isPositiveLimit (limitMainTurns limits) \<and> reaches mainTurns (limitMainTurns limits)
        then Some MainTurnBudget
      else if isPositiveLimit (limitActiveSeconds limits) \<and> reaches activeSeconds (limitActiveSeconds limits)
        then Some ActiveTimeBudget
      else None)"

fun dimension_reason :: "budget_dimension \<Rightarrow> goal_status_reason" where
  "dimension_reason TokenBudget = BudgetLimitedToken"
| "dimension_reason MainTurnBudget = BudgetLimitedMainTurn"
| "dimension_reason ActiveTimeBudget = BudgetLimitedActiveTime"

record bound_usage_result =
  usageGoal :: "thread_goal option"
  usageEpoch :: "nat option"
  transitioned :: "budget_dimension option"
  usageStale :: "goal_stale_reason option"

definition bumpThreadGoalBoundUsage ::
    "(string \<Rightarrow> string) \<Rightarrow> nat \<Rightarrow> string \<Rightarrow> goal_binding \<Rightarrow> usage_delta \<Rightarrow> budget_limits \<Rightarrow> goal_table
     \<Rightarrow> bound_usage_result \<times> goal_table" where
  "bumpThreadGoalBoundUsage sha time i binding delta limits t =
     (case goal_by_id i t of
        None \<Rightarrow> (\<lparr>usageGoal = None, usageEpoch = None, transitioned = None, usageStale = Some MissingGoal\<rparr>, t)
      | Some state \<Rightarrow>
          (let stale = classifyThreadGoalAccountingStale sha (Some state) binding;
               tokens = numericOrZero (deltaTokens delta);
               activeSeconds = numericOrZero (deltaActiveSeconds delta);
               mainTurns = (if deltaMainTurns delta = 1 then 1 else 0)
           in if tokens = 0 \<and> activeSeconds = 0 \<and> mainTurns = 0
                then (\<lparr>usageGoal = Some state, usageEpoch = Some (goalUpdatedAt state), transitioned = None,
                  usageStale = stale\<rparr>, t)
              else
                (let tokens' = tokensUsed state + tokens;
                     turns' = turnsUsed state + mainTurns;
                     seconds' = timeUsedSeconds state + activeSeconds;
                     dimension = (if goalStatus state = GoalActive
                       then firstExceededBudget tokens' turns' seconds' limits else None);
                     status = (if dimension \<noteq> None then GoalBudgetLimited else goalStatus state);
                     reason = (case dimension of Some d \<Rightarrow> Some (dimension_reason d) | None \<Rightarrow> statusReason state);
                     keepsDecisionEpoch = (goalStatus state = GoalBudgetLimited \<or> stale \<noteq> None \<and> dimension = None);
                     epoch = (if keepsDecisionEpoch then goalUpdatedAt state
                       else max time (goalUpdatedAt state + 1));
                     t' = sql_update (\<lambda>r. goal_id r = i) (\<lambda>r. r\<lparr>tokens_used := int tokens',
                       turns_used := int turns', time_used_seconds := int seconds',
                       status_text := goal_status_name status,
                       status_reason_text := map_option goal_reason_name reason,
                       updated_at_ms := epoch\<rparr>) t
                 in (\<lparr>usageGoal = Some (state\<lparr>goalStatus := status, statusReason := reason, tokensUsed := tokens',
                        turnsUsed := turns', timeUsedSeconds := seconds', goalUpdatedAt := epoch,
                        executionWait := (if keepsDecisionEpoch then executionWait state else None)\<rparr>),
                      usageEpoch = Some epoch, transitioned = dimension, usageStale = stale\<rparr>, t'))))"

text \<open>A worker's claim, bounded, with the epoch at which it was accepted.\<close>

record worker_proposal_input =
  inputType :: proposal_type
  inputTurnId :: string
  inputSummary :: "string option"

definition normalizeThreadGoalWorkerProposalSummary :: "string option \<Rightarrow> string option" where
  "normalizeThreadGoalWorkerProposalSummary summary =
     (case summary of
        None \<Rightarrow> None
      | Some s \<Rightarrow> if js_trim s = [] then None
          else Some (take THREAD_GOAL_WORKER_PROPOSAL_SUMMARY_MAX_CHARS (js_trim s)))"

definition materializeThreadGoalWorkerProposal ::
    "worker_proposal_input option \<Rightarrow> nat \<Rightarrow> last_worker_proposal option" where
  "materializeThreadGoalWorkerProposal input time =
     map_option (\<lambda>p. \<lparr>proposalType = inputType p, proposalTurnId = inputTurnId p,
       proposalSummary = normalizeThreadGoalWorkerProposalSummary (inputSummary p), proposedAt = time\<rparr>) input"

definition with_proposal :: "last_worker_proposal option \<Rightarrow> goal_row \<Rightarrow> goal_row" where
  "with_proposal p r =
     r\<lparr>last_worker_proposal_json :=
       (case p of Some x \<Rightarrow> Some (proposal_json x) | None \<Rightarrow> last_worker_proposal_json r)\<rparr>"

record settle_input =
  settleBinding :: goal_binding
  settleStatus :: goal_status
  settleReason :: goal_status_reason
  settleProposal :: "worker_proposal_input option"

definition settleThreadGoalBoundTurn ::
    "(string \<Rightarrow> string) \<Rightarrow> nat \<Rightarrow> string \<Rightarrow> settle_input \<Rightarrow> goal_table \<Rightarrow> goal_decision \<times> goal_table" where
  "settleThreadGoalBoundTurn sha time i input t =
     (case goal_by_id i t of
        None \<Rightarrow> (Stale MissingGoal None, t)
      | Some state \<Rightarrow>
          (case threadGoalStaleDecision sha (Some state) (settleBinding input) of
             Some stale \<Rightarrow> (stale, t)
           | None \<Rightarrow>
               (let expected = bindingEpoch (settleBinding input);
                    epoch = max time (expected + 1);
                    proposal = materializeThreadGoalWorkerProposal (settleProposal input) epoch;
                    t' = sql_update (at_epoch i expected) (\<lambda>r. with_proposal proposal
                      (r\<lparr>status_text := goal_status_name (settleStatus input),
                         status_reason_text := Some (goal_reason_name (settleReason input)),
                         updated_at_ms := epoch\<rparr>)) t
                in if sql_changes (at_epoch i expected) t = 0
                     then (or_default (threadGoalStaleDecision sha (goal_by_id i t) (settleBinding input))
                       (Stale StaleStatus None), t)
                   else (Settled (state\<lparr>goalStatus := settleStatus input, statusReason := Some (settleReason input),
                       goalUpdatedAt := epoch,
                       lastWorkerProposal := or_else proposal (lastWorkerProposal state),
                       executionWait := None\<rparr>) epoch, t'))))"

section \<open>Verification\<close>

definition normalizeMissing :: "string list \<Rightarrow> string list" where
  "normalizeMissing values =
     sort (remdups (filter (\<lambda>v. length v > 0) (map (\<lambda>v. collapse_ws False (js_trim v)) values)))"

definition normalizeVerificationResult ::
    "(string \<Rightarrow> string) \<Rightarrow> last_verification option \<Rightarrow> last_verification \<Rightarrow> last_verification" where
  "normalizeVerificationResult sha previous result =
     (let ms = normalizeMissing (missing result)
      in if verdict result \<noteq> VerdictNotMet
           then result\<lparr>missing := ms, missingFingerprint := None, notMetStreak := 0\<rparr>
         else
           (let fp = sha (json_of_strings ms);
                streak = (case previous of
                    Some p \<Rightarrow> if verdict p = VerdictNotMet \<and> missingFingerprint p = Some fp
                      then notMetStreak p + 1 else 1
                  | None \<Rightarrow> 1)
            in result\<lparr>missing := ms, missingFingerprint := Some fp, notMetStreak := streak\<rparr>))"

fun positiveIntegerOrDefault :: "js_number \<Rightarrow> nat \<Rightarrow> nat" where
  "positiveIntegerOrDefault (Finite v) fallback = (if v > 0 then nat \<lfloor>v\<rfloor> else fallback)"
| "positiveIntegerOrDefault NotFinite fallback = fallback"

definition DEFAULT_REPEATED_NOT_MET_LIMIT :: nat where
  "DEFAULT_REPEATED_NOT_MET_LIMIT = 5"

record verification_input =
  verifyBinding :: goal_binding
  verifyResult :: last_verification
  repeatedNotMetLimit :: js_number
  verifyProposal :: "worker_proposal_input option"
  verifyDecision :: "(goal_status \<times> goal_status_reason) option"

definition recordThreadGoalVerification ::
    "(string \<Rightarrow> string) \<Rightarrow> nat \<Rightarrow> string \<Rightarrow> verification_input \<Rightarrow> goal_table \<Rightarrow> goal_decision \<times> goal_table" where
  "recordThreadGoalVerification sha time i input t =
     (case goal_by_id i t of
        None \<Rightarrow> (Stale MissingGoal None, t)
      | Some state \<Rightarrow>
          (case threadGoalStaleDecision sha (Some state) (verifyBinding input) of
             Some stale \<Rightarrow> (stale, t)
           | None \<Rightarrow>
               (let verification = normalizeVerificationResult sha (lastVerification state) (verifyResult input);
                    limit = positiveIntegerOrDefault (repeatedNotMetLimit input) DEFAULT_REPEATED_NOT_MET_LIMIT;
                    repeatedGap = (verdict verification = VerdictNotMet \<and> notMetStreak verification \<ge> limit);
                    decision = (if repeatedGap then Some (GoalPaused, PausedNoProgress) else verifyDecision input);
                    status = (case decision of Some (st, rs) \<Rightarrow> st | None \<Rightarrow> goalStatus state);
                    reason = (case decision of Some (st, rs) \<Rightarrow> Some rs | None \<Rightarrow> statusReason state);
                    expected = bindingEpoch (verifyBinding input);
                    epoch = max time (expected + 1);
                    proposal = materializeThreadGoalWorkerProposal (verifyProposal input) epoch;
                    t' = sql_update (at_epoch i expected) (\<lambda>r. with_proposal proposal
                      (r\<lparr>last_verification_json := Some (verification_json verification),
                         status_text := goal_status_name status,
                         status_reason_text := map_option goal_reason_name reason,
                         updated_at_ms := epoch\<rparr>)) t
                in if sql_changes (at_epoch i expected) t = 0
                     then (or_default (threadGoalStaleDecision sha (goal_by_id i t) (verifyBinding input))
                       (Stale StaleStatus None), t)
                   else (Settled (state\<lparr>goalStatus := status, statusReason := reason,
                       lastVerification := Some verification,
                       lastWorkerProposal := or_else proposal (lastWorkerProposal state),
                       goalUpdatedAt := epoch, executionWait := None\<rparr>) epoch, t'))))"

section \<open>The breaker\<close>

datatype tool_activity = ToolsUsed | ToolsAbsent | ToolsUnknown

record breaker_input =
  breakerEpoch :: nat
  fingerprint :: "string option"
  toolActivity :: tool_activity
  breakerLimit :: js_number
  pauseReason :: "goal_status_reason option"

datatype breaker_action = BreakerNone | BreakerNudge | BreakerPause

datatype breaker_cause = RepeatedReply | NoTool

datatype breaker_result =
    Decided breaker_action thread_goal nat "breaker_cause option"
  | BreakerStale goal_stale_reason "thread_goal option"

definition decideAction :: "nat \<Rightarrow> nat \<Rightarrow> breaker_action" where
  "decideAction occurrences limit =
     (if occurrences \<ge> limit then BreakerPause
      else if occurrences \<ge> 2 then BreakerNudge else BreakerNone)"

definition strongerAction :: "breaker_action \<Rightarrow> breaker_action \<Rightarrow> breaker_action" where
  "strongerAction left right =
     (if left = BreakerPause \<or> right = BreakerPause then BreakerPause
      else if left = BreakerNudge \<or> right = BreakerNudge then BreakerNudge else BreakerNone)"

fun occurrenceLimit :: "js_number \<Rightarrow> nat" where
  "occurrenceLimit (Finite v) = nat (max 2 \<lfloor>v\<rfloor>)"
| "occurrenceLimit NotFinite = 2"

text \<open>The two counters after a turn, and what each asks for.\<close>

definition breaker_step ::
    "breaker_input \<Rightarrow> thread_goal \<Rightarrow> string option \<times> nat \<times> nat \<times> breaker_action \<times> breaker_cause option" where
  "breaker_step input state =
     (let limit = occurrenceLimit (breakerLimit input);
          scoresReply = (fingerprint input \<noteq> None);
          repeated = (scoresReply \<and> replyFingerprint state = fingerprint input);
          nextReplyStreak = (if scoresReply then (if repeated then noProgressStreak state + 1 else 0)
            else noProgressStreak state);
          nextFingerprint = (if scoresReply then fingerprint input else replyFingerprint state);
          replyAction = (if repeated then decideAction (nextReplyStreak + 1) limit else BreakerNone);
          nextNoToolStreak = (if toolActivity input = ToolsAbsent then noToolStreak state + 1 else 0);
          noToolAction = (if toolActivity input = ToolsAbsent then decideAction nextNoToolStreak limit
            else BreakerNone);
          action = strongerAction replyAction noToolAction;
          cause = (if action = BreakerNone then None
            else if replyAction = action then Some RepeatedReply else Some NoTool)
      in (nextFingerprint, nextReplyStreak, nextNoToolStreak, action, cause))"

definition updateThreadGoalBreaker ::
    "nat \<Rightarrow> string \<Rightarrow> breaker_input \<Rightarrow> goal_table \<Rightarrow> breaker_result \<times> goal_table" where
  "updateThreadGoalBreaker time i input t =
     (case goal_by_id i t of
        None \<Rightarrow> (BreakerStale MissingGoal None, t)
      | Some state \<Rightarrow>
          (case breaker_step input state of
             (nextFingerprint, nextReplyStreak, nextNoToolStreak, action, cause) \<Rightarrow>
               if action = BreakerNone \<and> nextFingerprint = replyFingerprint state
                 \<and> nextReplyStreak = noProgressStreak state \<and> nextNoToolStreak = noToolStreak state
               then (if goalUpdatedAt state \<noteq> breakerEpoch input then (BreakerStale StaleEpoch (Some state), t)
                 else if goalStatus state \<noteq> GoalActive then (BreakerStale StaleStatus (Some state), t)
                 else (Decided BreakerNone state (goalUpdatedAt state) None, t))
               else
                 (let status = (if action = BreakerPause then GoalPaused else goalStatus state);
                      reason = (if action = BreakerPause
                        then Some (or_default (pauseReason input) PausedNoProgress) else statusReason state);
                      epoch = max time (goalUpdatedAt state + 1);
                      t' = sql_update (at_epoch i (breakerEpoch input)) (\<lambda>r. r\<lparr>
                        reply_fingerprint := nextFingerprint, no_progress_streak := int nextReplyStreak,
                        no_tool_streak := int nextNoToolStreak, status_text := goal_status_name status,
                        status_reason_text := map_option goal_reason_name reason, updated_at_ms := epoch\<rparr>) t
                  in if sql_changes (at_epoch i (breakerEpoch input)) t = 0
                       then (BreakerStale (if goalUpdatedAt state \<noteq> breakerEpoch input then StaleEpoch
                         else StaleStatus) (Some state), t)
                     else (Decided action (state\<lparr>goalStatus := status, statusReason := reason,
                         replyFingerprint := nextFingerprint, noProgressStreak := nextReplyStreak,
                         noToolStreak := nextNoToolStreak, goalUpdatedAt := epoch,
                         executionWait := None\<rparr>) epoch cause, t'))))"

section \<open>Waits\<close>

definition isCurrentActiveEpoch :: "goal_row option \<Rightarrow> nat \<Rightarrow> bool" where
  "isCurrentActiveEpoch row expected =
     (case row of None \<Rightarrow> False | Some r \<Rightarrow> status_text r = active_text \<and> updated_at_ms r = expected)"

definition hasVisibleWait :: "goal_row \<Rightarrow> bool" where
  "hasVisibleWait r \<longleftrightarrow> execution_wait_reason r \<noteq> None \<and> execution_wait_epoch r = Some (updated_at_ms r)"

definition setThreadGoalExecutionWait ::
    "nat \<Rightarrow> string \<Rightarrow> nat \<Rightarrow> goal_wait_reason \<Rightarrow> goal_table \<Rightarrow> thread_goal option \<times> goal_table" where
  "setThreadGoalExecutionWait time i expected reason t =
     (case row_by_id i t of
        None \<Rightarrow> (None, t)
      | Some current \<Rightarrow>
          if \<not> isCurrentActiveEpoch (Some current) expected then (None, t)
          else if hasVisibleWait current \<and> execution_wait_reason current = Some (goal_wait_name reason)
            then (None, t)
          else
            (let t' = sql_update (at_epoch i expected) (\<lambda>r. r\<lparr>execution_wait_reason := Some (goal_wait_name reason),
                   execution_wait_since_ms := Some (int time), execution_wait_epoch := Some expected\<rparr>) t
             in if sql_changes (at_epoch i expected) t = 0 then (None, t) else (goal_by_id i t', t')))"

definition clearThreadGoalExecutionWait ::
    "string \<Rightarrow> nat \<Rightarrow> goal_table \<Rightarrow> thread_goal option \<times> goal_table" where
  "clearThreadGoalExecutionWait i expected t =
     (case row_by_id i t of
        None \<Rightarrow> (None, t)
      | Some current \<Rightarrow>
          if \<not> isCurrentActiveEpoch (Some current) expected then (None, t)
          else if \<not> hasVisibleWait current then (None, t)
          else
            (let t' = sql_update (at_epoch i expected) (\<lambda>r. r\<lparr>execution_wait_reason := None,
                   execution_wait_since_ms := None, execution_wait_epoch := None\<rparr>) t
             in if sql_changes (at_epoch i expected) t = 0 then (None, t) else (goal_by_id i t', t')))"

definition listThreadGoalsWaitingOnVerification :: "goal_table \<Rightarrow> thread_goal list" where
  "listThreadGoalsWaitingOnVerification = listed (\<lambda>r. status_text r = active_text
     \<and> execution_wait_reason r = Some (goal_wait_name WaitVerification)
     \<and> execution_wait_epoch r = Some (updated_at_ms r)) updated_at_ms"

end
