(* ===== verification/GoalProofs.thy ===== *)
theory GoalProofs
  imports GoalStore
begin

text \<open>
  The store of thread goals as a system of events, the invariant of its table, and what every event
  may do to a row.
\<close>

declare goal_status_name.simps [simp del]

section \<open>Events\<close>

datatype goal_event =
    GoalCreate string nat goal_create_input
  | GoalDelete string
  | GoalPause nat string "goal_status_reason option"
  | GoalTransition nat string nat goal_status goal_status_reason
  | GoalResetBreaker nat string nat
  | GoalKickoff string goal_kickoff_state goal_kickoff_state
  | GoalPatch nat string goal_patch_input
  | GoalCharge nat string goal_binding usage_delta budget_limits
  | GoalSettle nat string settle_input
  | GoalVerify nat string verification_input
  | GoalBreaker nat string breaker_input
  | GoalSetWait nat string nat goal_wait_reason
  | GoalClearWait string nat

fun goal_step :: "(string \<Rightarrow> string) \<Rightarrow> goal_event \<Rightarrow> goal_table \<Rightarrow> goal_table" where
  "goal_step sha (GoalCreate gid now input) t = snd (createGoal gid now input t)"
| "goal_step sha (GoalDelete i) t = deleteGoal i t"
| "goal_step sha (GoalPause now s reason) t = snd (pauseActiveBySession now s reason t)"
| "goal_step sha (GoalTransition now i epoch st rs) t = snd (transitionActiveAtEpoch now i epoch st rs t)"
| "goal_step sha (GoalResetBreaker now i epoch) t = snd (resetBreakerAtEpoch now i epoch t)"
| "goal_step sha (GoalKickoff i expected next) t = snd (transitionKickoffState i expected next t)"
| "goal_step sha (GoalPatch now i input) t = snd (patchThreadGoal now i input t)"
| "goal_step sha (GoalCharge now i b d l) t = snd (bumpThreadGoalBoundUsage sha now i b d l t)"
| "goal_step sha (GoalSettle now i input) t = snd (settleThreadGoalBoundTurn sha now i input t)"
| "goal_step sha (GoalVerify now i input) t = snd (recordThreadGoalVerification sha now i input t)"
| "goal_step sha (GoalBreaker now i input) t = snd (updateThreadGoalBreaker now i input t)"
| "goal_step sha (GoalSetWait now i epoch reason) t = snd (setThreadGoalExecutionWait now i epoch reason t)"
| "goal_step sha (GoalClearWait i epoch) t = snd (clearThreadGoalExecutionWait i epoch t)"

text \<open>The types of the inputs, and objectives that were validated: none is empty.\<close>

definition attachments_ok :: "goal_attachment list option \<Rightarrow> bool" where
  "attachments_ok as = list_all (\<lambda>a. isKickoffAttachment (JObject a)) (or_default as [])"

fun goal_possible :: "goal_table \<Rightarrow> goal_event \<Rightarrow> bool" where
  "goal_possible t (GoalCreate gid now input) \<longleftrightarrow> gid \<noteq> [] \<and> createSession input \<noteq> []
     \<and> createObjective input \<noteq> [] \<and> attachments_ok (createKickoffAttachments input)
     \<and> attachments_ok (createObjectiveResources input)"
| "goal_possible t (GoalTransition now i epoch st rs) \<longleftrightarrow> st \<in> {GoalPaused, GoalBudgetLimited}"
| "goal_possible t (GoalPatch now i input) \<longleftrightarrow> patchObjective input \<noteq> Some []
     \<and> attachments_ok (patchResources input)"
| "goal_possible t (GoalSettle now i input) \<longleftrightarrow> settleStatus input \<noteq> GoalActive"
| "goal_possible t (GoalVerify now i input) \<longleftrightarrow>
     (case verifyDecision input of None \<Rightarrow> True | Some (st, rs) \<Rightarrow> st \<noteq> GoalActive)"
| "goal_possible t (GoalSetWait now i epoch reason) \<longleftrightarrow> int now \<le> MAX_SAFE_INTEGER"
| "goal_possible t _ \<longleftrightarrow> True"

abbreviation "goal_reached sha \<equiv> reached [] goal_possible (goal_step sha)"

section \<open>Statements on the table\<close>

lemma row_by_id_update:
  assumes "\<And>r. goal_id (f r) = goal_id r"
  shows "row_by_id i (sql_update p f t) = map_option (\<lambda>r. if p r then f r else r) (row_by_id i t)"
  using assms by (induction t) (auto simp: row_by_id_def sql_update_def)

lemma row_by_id_member: "row_by_id i t = Some r \<Longrightarrow> r \<in> set t \<and> goal_id r = i"
  by (auto simp: row_by_id_def find_Some_iff)

lemma row_by_id_None: "row_by_id i t = None \<longleftrightarrow> (\<forall>r \<in> set t. goal_id r \<noteq> i)"
  by (auto simp: row_by_id_def find_None_iff)

lemma row_by_id_unique:
  "distinct (map goal_id t) \<Longrightarrow> r \<in> set t \<Longrightarrow> row_by_id (goal_id r) t = Some r"
  by (induction t) (auto simp: row_by_id_def)

lemma find_absent: "x \<notin> f ` set t \<Longrightarrow> find (\<lambda>r. f r = x) t = None"
  by (auto simp: find_None_iff)

lemma row_by_id_delete:
  assumes "distinct (map goal_id t)"
  shows "row_by_id i (sql_delete p t) = (case row_by_id i t of Some r \<Rightarrow> if p r then None else Some r | None \<Rightarrow> None)"
  using assms by (induction t) (auto simp: row_by_id_def sql_delete_def find_absent)

lemma row_by_id_append:
  "row_by_id i (t @ [r]) = (case row_by_id i t of Some x \<Rightarrow> Some x | None \<Rightarrow> if goal_id r = i then Some r else None)"
  by (induction t) (auto simp: row_by_id_def)

lemma changes_none: "sql_changes p t = 0 \<longleftrightarrow> (\<forall>r \<in> set t. \<not> p r)"
  by (simp add: sql_changes_def filter_empty_conv)

lemma update_none: "(\<forall>r \<in> set t. \<not> p r) \<Longrightarrow> sql_update p f t = t"
  by (induction t) (auto simp: sql_update_def)

lemma update_if_changes: "(if sql_changes p t = 0 then t else sql_update p f t) = sql_update p f t"
  by (simp add: changes_none update_none)

section \<open>Rows\<close>

definition row_ok :: "goal_row \<Rightarrow> bool" where
  "row_ok r \<longleftrightarrow> goal_id r \<noteq> [] \<and> session_id r \<noteq> [] \<and> objective_text r \<noteq> []
     \<and> isKnownThreadGoalStatus (status_text r)
     \<and> 0 \<le> tokens_used r \<and> 0 \<le> turns_used r \<and> 0 \<le> time_used_seconds r
     \<and> (case execution_wait_epoch r of None \<Rightarrow> True | Some e \<Rightarrow> e \<le> updated_at_ms r)"

definition goals_ok :: "goal_table \<Rightarrow> bool" where
  "goals_ok t \<longleftrightarrow> distinct (map goal_id t) \<and> distinct (map session_id t) \<and> list_all row_ok t"

lemma known_status_name: "isKnownThreadGoalStatus v \<longleftrightarrow> v = goal_status_name (readStatus v)"
proof
  show "v = goal_status_name (readStatus v) \<Longrightarrow> isKnownThreadGoalStatus v"
    using known_status by metis
next
  assume "isKnownThreadGoalStatus v"
  then obtain s where "v = goal_status_name s" by (auto simp: isKnownThreadGoalStatus_def list_ex_iff)
  then show "v = goal_status_name (readStatus v)" by simp
qed

definition goal_of :: "goal_row \<Rightarrow> thread_goal" where
  "goal_of r = the (rowToThreadGoalState r)"

lemma row_filled: "row_ok r \<Longrightarrow> goal_id r \<noteq> [] \<and> session_id r \<noteq> [] \<and> objective_text r \<noteq> [] \<and> status_text r \<noteq> []"
  using known_status_name [of "status_text r"] status_name_not_Nil [of "readStatus (status_text r)"]
  by (metis row_ok_def)

lemma row_goal: "row_ok r \<Longrightarrow> rowToThreadGoalState r = Some (goal_of r)"
  by (drule row_filled) (simp add: goal_of_def rowToThreadGoalState_def)

lemma goal_of_simps:
  assumes "row_ok r"
  shows "goalId (goal_of r) = goal_id r" "goalSession (goal_of r) = session_id r"
    "objective (goal_of r) = objective_text r" "goalUpdatedAt (goal_of r) = updated_at_ms r"
    "goalStatus (goal_of r) = readStatus (status_text r)" "goalCreatedAt (goal_of r) = created_at_ms r"
    "tokensUsed (goal_of r) = nat (tokens_used r)" "turnsUsed (goal_of r) = nat (turns_used r)"
    "timeUsedSeconds (goal_of r) = nat (time_used_seconds r)"
    "statusReason (goal_of r) = readStatusReason (status_reason_text r)"
    "tokenBudget (goal_of r) = positiveOrNull (map_option of_int (token_budget r))"
    "replyFingerprint (goal_of r) = reply_fingerprint r"
    "noProgressStreak (goal_of r) = nat (no_progress_streak r)"
    "noToolStreak (goal_of r) = nat (no_tool_streak r)"
    "objectiveResources (goal_of r) = readKickoffAttachments (objective_resources_json r)"
    "kickoffAttachments (goal_of r) = readKickoffAttachments (kickoff_attachments_json r)"
    "lastVerification (goal_of r) = readLastVerification (last_verification_json r)"
    "lastWorkerProposal (goal_of r) = readLastWorkerProposal (last_worker_proposal_json r)"
    "kickoffState (goal_of r) = readKickoffState (kickoff_state_text r)"
    "executionWait (goal_of r) =
       (if readStatus (status_text r) = GoalActive \<and> execution_wait_epoch r = Some (updated_at_ms r)
        then readExecutionWait (execution_wait_reason r) (execution_wait_since_ms r) else None)"
  using row_filled [OF assms] by (simp_all add: goal_of_def rowToThreadGoalState_def)

lemma goal_by_id_ok: "goals_ok t \<Longrightarrow> goal_by_id i t = map_option goal_of (row_by_id i t)"
  using row_by_id_member row_goal
  by (cases "row_by_id i t") (fastforce simp: goal_by_id_def goals_ok_def list_all_iff)+

lemma active_status: "row_ok r \<Longrightarrow> status_text r = active_text \<longleftrightarrow> goalStatus (goal_of r) = GoalActive"
  by (simp add: goal_of_simps active_text_def readStatus_active)

section \<open>What an event may do to a row\<close>

text \<open>The decisions: events that were taken for one epoch of a goal.\<close>

fun decision_of :: "goal_event \<Rightarrow> (string \<times> nat) option" where
  "decision_of (GoalTransition now i epoch st rs) = Some (i, epoch)"
| "decision_of (GoalResetBreaker now i epoch) = Some (i, epoch)"
| "decision_of (GoalSettle now i input) = Some (i, bindingEpoch (settleBinding input))"
| "decision_of (GoalVerify now i input) = Some (i, bindingEpoch (verifyBinding input))"
| "decision_of (GoalBreaker now i input) = Some (i, breakerEpoch input)"
| "decision_of _ = None"

text \<open>The user takes up a goal again: one that is not complete and has budget left.\<close>

fun resumes :: "goal_event \<Rightarrow> thread_goal \<Rightarrow> bool" where
  "resumes (GoalPatch now i input) g \<longleftrightarrow> goalId g = i \<and> patchGoalStatus input = Some GoalActive
     \<and> (goalStatus g \<in> {GoalPaused, GoalBlocked, GoalUsageLimited} \<or> resumes_token_limited input g)"
| "resumes _ g \<longleftrightarrow> False"

definition moves :: "goal_event \<Rightarrow> goal_row \<Rightarrow> goal_row \<Rightarrow> bool" where
  "moves e r r' \<longleftrightarrow> goal_id r' = goal_id r \<and> session_id r' = session_id r \<and> row_ok r'
     \<and> updated_at_ms r \<le> updated_at_ms r'
     \<and> tokens_used r \<le> tokens_used r' \<and> turns_used r \<le> turns_used r' \<and> time_used_seconds r \<le> time_used_seconds r'
     \<and> (updated_at_ms r' = updated_at_ms r \<or> execution_wait_epoch r' = execution_wait_epoch r)
     \<and> (case decision_of e of None \<Rightarrow> True
          | Some (i, x) \<Rightarrow> goal_id r = i \<and> updated_at_ms r = x \<and> x < updated_at_ms r')
     \<and> (status_text r' = active_text \<longrightarrow> status_text r = active_text \<or> resumes e (goal_of r))"

definition effect :: "(string \<Rightarrow> string) \<Rightarrow> goal_event \<Rightarrow> goal_table \<Rightarrow> bool" where
  "effect sha e t \<longleftrightarrow> (\<exists>p f. goal_step sha e t = sql_update p f t \<and> (\<forall>r \<in> set t. p r \<longrightarrow> moves e r (f r)))"

lemma effect_none: "goal_step sha e t = t \<Longrightarrow> effect sha e t"
  unfolding effect_def by (intro exI [of _ "\<lambda>r. False"] exI [of _ id]) (simp add: update_none)

lemma effect_update:
  "goal_step sha e t = sql_update p f t \<Longrightarrow> (\<And>r. r \<in> set t \<Longrightarrow> p r \<Longrightarrow> moves e r (f r)) \<Longrightarrow> effect sha e t"
  unfolding effect_def by blast

lemma rows_ok: "goals_ok t \<Longrightarrow> r \<in> set t \<Longrightarrow> row_ok r"
  by (simp add: goals_ok_def list_all_iff)

lemma snd_if_changes:
  "snd (if sql_changes p t = 0 then (a, t) else (b, sql_update p f t)) = sql_update p f t"
  by (simp add: changes_none update_none)

lemma wait_epoch_later: "row_ok r \<Longrightarrow> updated_at_ms r \<le> x \<Longrightarrow>
    (case execution_wait_epoch r of None \<Rightarrow> True | Some e \<Rightarrow> e \<le> x)"
  by (auto simp: row_ok_def split: option.splits)

text \<open>A change of a row of which only the columns below are of interest here.\<close>

lemma moves_intro:
  assumes "row_ok r" "goal_id r' = goal_id r" "session_id r' = session_id r" "objective_text r' \<noteq> []"
    "isKnownThreadGoalStatus (status_text r')" "updated_at_ms r \<le> updated_at_ms r'"
    "tokens_used r \<le> tokens_used r'" "turns_used r \<le> turns_used r'" "time_used_seconds r \<le> time_used_seconds r'"
    "execution_wait_epoch r' = execution_wait_epoch r
       \<or> updated_at_ms r' = updated_at_ms r \<and> execution_wait_epoch r' \<in> {None, Some (updated_at_ms r)}"
    "case decision_of e of None \<Rightarrow> True
       | Some (i, x) \<Rightarrow> goal_id r = i \<and> updated_at_ms r = x \<and> x < updated_at_ms r'"
    "status_text r' = active_text \<Longrightarrow> status_text r = active_text \<or> resumes e (goal_of r)"
  shows "moves e r r'"
  using assms wait_epoch_later [OF assms(1,6)] unfolding moves_def row_ok_def by fastforce

lemma active_text_name [simp]: "goal_status_name s = active_text \<longleftrightarrow> s = GoalActive"
  by (simp add: active_text_def)

lemma known_active [simp]: "isKnownThreadGoalStatus active_text"
  by (simp add: active_text_def)

lemma effect_pause: "goals_ok t \<Longrightarrow> effect sha (GoalPause now s reason) t"
  by (rule effect_update, simp add: pauseActiveBySession_def Let_def snd_if_changes)
    (rule moves_intro; (drule (1) rows_ok)?; simp add: row_ok_def)

lemma effect_transition:
  "goals_ok t \<Longrightarrow> goal_possible t (GoalTransition now i x st rs) \<Longrightarrow> effect sha (GoalTransition now i x st rs) t"
  by (rule effect_update, simp add: transitionActiveAtEpoch_def Let_def snd_if_changes)
    (rule moves_intro; (drule (1) rows_ok)?; auto simp: row_ok_def at_epoch_def)

lemma effect_reset: "goals_ok t \<Longrightarrow> effect sha (GoalResetBreaker now i x) t"
  by (rule effect_update, simp add: resetBreakerAtEpoch_def Let_def snd_if_changes)
    (rule moves_intro; (drule (1) rows_ok)?; auto simp: row_ok_def at_epoch_def)

lemma effect_kickoff: "goals_ok t \<Longrightarrow> effect sha (GoalKickoff i a b) t"
  by (rule effect_update, simp add: transitionKickoffState_def Let_def snd_if_changes)
    (rule moves_intro; (drule (1) rows_ok)?; auto simp: row_ok_def)

lemma the_goal: "goals_ok t \<Longrightarrow> goal_by_id i t = Some g \<Longrightarrow> r \<in> set t \<Longrightarrow> goal_id r = i \<Longrightarrow> g = goal_of r"
  using row_by_id_unique [of t r] by (auto simp: goal_by_id_ok goals_ok_def)

lemma patch_budget_limited:
  "patch_refused input i existing g (resumes_token_limited input g) = None \<Longrightarrow> patchGoalStatus input = Some GoalActive
    \<Longrightarrow> goalStatus g = GoalActive \<or> resumes (GoalPatch now (goalId g) input) g"
  by (cases "goalStatus g") (auto simp: patch_refused_def split: if_splits)

lemma effect_patch:
  assumes ok: "goals_ok t" and possible: "goal_possible t (GoalPatch now i input)"
  shows "effect sha (GoalPatch now i input) t"
proof (cases "row_by_id i t")
  case None
  then show ?thesis by (intro effect_none) (simp add: patchThreadGoal_def)
next
  case (Some x)
  let ?g = "goal_of x"
  note xt = row_by_id_member [OF Some]
  then have rx: "row_ok x" using ok by (blast intro: rows_ok)
  have gx: "goal_by_id i t = Some ?g" using ok Some by (simp add: goal_by_id_ok)
  let ?b = "resumes_token_limited input ?g"
  let ?f = "patched_row input ?b (max now (goalUpdatedAt ?g + 1)) ?g"
  show ?thesis
  proof (cases "patch_refused input i x ?g ?b")
    case (Some e)
    then show ?thesis using gx \<open>row_by_id i t = Some x\<close> by (intro effect_none) (simp add: patchThreadGoal_def Let_def)
  next
    case None
    show ?thesis
    proof (rule effect_update [where p = "guards_hold input i" and f = ?f])
      show "goal_step sha (GoalPatch now i input) t = sql_update (guards_hold input i) ?f t"
        using None gx \<open>row_by_id i t = Some x\<close>
        by (auto simp: patchThreadGoal_def Let_def changes_none update_none)
    next
      fix r assume r: "r \<in> set t" "guards_hold input i r"
      then have [simp]: "r = x" using ok xt row_by_id_unique [of t r] \<open>row_by_id i t = Some x\<close>
        by (auto simp: goals_ok_def guards_hold_def)
      have active: "or_default (patchGoalStatus input) (goalStatus ?g) = GoalActive
          \<Longrightarrow> status_text x = active_text \<or> resumes (GoalPatch now i input) ?g"
        using patch_budget_limited [OF None] xt active_status [OF rx] goal_of_simps(1) [OF rx]
        by (cases "patchGoalStatus input") auto
      show "moves (GoalPatch now i input) r (?f r)"
        by (rule moves_intro)
          (use active rx possible in \<open>auto simp: patched_row_def Let_def goal_of_simps row_ok_def
             or_default_def split: option.splits\<close>)
    qed
  qed
qed

text \<open>The binding of a decision that is not stale fits the row.\<close>

lemma fresh_binding:
  assumes "threadGoalStaleDecision sha (Some g) b = None"
  shows "goalUpdatedAt g = bindingEpoch b" "sha (objective g) = bindingDigest b" "goalStatus g = GoalActive"
  using assms by (auto simp: threadGoalStaleDecision_def classifyThreadGoalBindingStale_def
      classifyThreadGoalAccountingStale_def split: if_splits option.splits)

lemma at_epoch_goal:
  "row_ok r \<Longrightarrow> at_epoch i x r \<longleftrightarrow> goal_id r = i \<and> goalUpdatedAt (goal_of r) = x \<and> goalStatus (goal_of r) = GoalActive"
  by (simp add: at_epoch_def active_status goal_of_simps(4))

lemma with_proposal_columns [simp]:
  "goal_id (with_proposal p r) = goal_id r" "session_id (with_proposal p r) = session_id r"
  "objective_text (with_proposal p r) = objective_text r" "status_text (with_proposal p r) = status_text r"
  "updated_at_ms (with_proposal p r) = updated_at_ms r" "tokens_used (with_proposal p r) = tokens_used r"
  "turns_used (with_proposal p r) = turns_used r" "time_used_seconds (with_proposal p r) = time_used_seconds r"
  "execution_wait_epoch (with_proposal p r) = execution_wait_epoch r"
  by (simp_all add: with_proposal_def)

lemma effect_settle:
  assumes "goals_ok t" "goal_possible t (GoalSettle now i input)"
  shows "effect sha (GoalSettle now i input) t"
proof (cases "goal_by_id i t")
  case None
  then show ?thesis by (intro effect_none) (simp add: settleThreadGoalBoundTurn_def)
next
  case (Some g)
  show ?thesis
  proof (cases "threadGoalStaleDecision sha (Some g) (settleBinding input)")
    case None
    show ?thesis
      by (rule effect_update, simp add: Some None settleThreadGoalBoundTurn_def Let_def snd_if_changes)
        (rule moves_intro; (drule rows_ok [OF assms(1)])?; use assms(2) in \<open>simp add: row_ok_def at_epoch_def\<close>)
  qed (use Some in \<open>intro effect_none, simp add: settleThreadGoalBoundTurn_def\<close>)
qed

lemma effect_verify:
  assumes "goals_ok t" "goal_possible t (GoalVerify now i input)"
  shows "effect sha (GoalVerify now i input) t"
proof (cases "goal_by_id i t")
  case None
  then show ?thesis by (intro effect_none) (simp add: recordThreadGoalVerification_def)
next
  case (Some g)
  show ?thesis
  proof (cases "threadGoalStaleDecision sha (Some g) (verifyBinding input)")
    case None
    show ?thesis
      by (rule effect_update, simp add: Some None recordThreadGoalVerification_def Let_def snd_if_changes)
        (rule moves_intro; (drule rows_ok [OF assms(1)])?; use assms(2) in \<open>simp add: row_ok_def at_epoch_def\<close>)
  qed (use Some in \<open>intro effect_none, simp add: recordThreadGoalVerification_def\<close>)
qed

lemma effect_breaker:
  assumes "goals_ok t"
  shows "effect sha (GoalBreaker now i input) t"
proof (cases "goal_by_id i t")
  case None
  then show ?thesis by (intro effect_none) (simp add: updateThreadGoalBreaker_def)
next
  case (Some g)
  obtain fp rs ns a c where step: "breaker_step input g = (fp, rs, ns, a, c)" by (metis prod_cases5)
  have later: "goalUpdatedAt g = updated_at_ms r" if "r \<in> set t" "goal_id r = i" for r
    using the_goal [OF assms Some that] goal_of_simps(4) [OF rows_ok [OF assms that(1)]] by simp
  show ?thesis
  proof (cases "a = BreakerNone \<and> fp = replyFingerprint g \<and> rs = noProgressStreak g \<and> ns = noToolStreak g")
    case False
    let ?f = "\<lambda>r. r\<lparr>reply_fingerprint := fp, no_progress_streak := int rs, no_tool_streak := int ns,
      status_text := goal_status_name (if a = BreakerPause then GoalPaused else goalStatus g),
      status_reason_text := map_option goal_reason_name (if a = BreakerPause
        then Some (or_default (pauseReason input) PausedNoProgress) else statusReason g),
      updated_at_ms := max now (goalUpdatedAt g + 1)\<rparr>"
    show ?thesis
    proof (rule effect_update [where f = ?f])
      show "goal_step sha (GoalBreaker now i input) t = sql_update (at_epoch i (breakerEpoch input)) ?f t"
        using False by (simp only: Some step updateThreadGoalBreaker_def goal_step.simps Let_def option.case
            prod.case if_False snd_if_changes)
    next
      fix r assume r: "r \<in> set t" "at_epoch i (breakerEpoch input) r"
      then have "row_ok r" "goalUpdatedAt g = updated_at_ms r"
        using rows_ok [OF assms] later by (simp_all add: at_epoch_def)
      with r show "moves (GoalBreaker now i input) r (?f r)"
        by (intro moves_intro) (simp_all add: row_ok_def at_epoch_def)
    qed
  qed (use Some step in \<open>intro effect_none, simp add: updateThreadGoalBreaker_def\<close>)
qed

text \<open>What charging writes, when there is something to charge.\<close>

definition charged_dimension :: "thread_goal \<Rightarrow> usage_delta \<Rightarrow> budget_limits \<Rightarrow> budget_dimension option" where
  "charged_dimension g d l =
     (if goalStatus g = GoalActive
      then firstExceededBudget (tokensUsed g + numericOrZero (deltaTokens d))
        (turnsUsed g + (if deltaMainTurns d = 1 then 1 else 0))
        (timeUsedSeconds g + numericOrZero (deltaActiveSeconds d)) l
      else None)"

definition charged_row ::
    "(string \<Rightarrow> string) \<Rightarrow> nat \<Rightarrow> goal_binding \<Rightarrow> usage_delta \<Rightarrow> budget_limits \<Rightarrow> thread_goal \<Rightarrow> goal_row \<Rightarrow> goal_row" where
  "charged_row sha now b d l g r = r\<lparr>
     tokens_used := int (tokensUsed g + numericOrZero (deltaTokens d)),
     turns_used := int (turnsUsed g + (if deltaMainTurns d = 1 then 1 else 0)),
     time_used_seconds := int (timeUsedSeconds g + numericOrZero (deltaActiveSeconds d)),
     status_text := goal_status_name (if charged_dimension g d l \<noteq> None then GoalBudgetLimited else goalStatus g),
     status_reason_text := map_option goal_reason_name (case charged_dimension g d l of
         Some x \<Rightarrow> Some (dimension_reason x) | None \<Rightarrow> statusReason g),
     updated_at_ms := (if goalStatus g = GoalBudgetLimited
         \<or> classifyThreadGoalAccountingStale sha (Some g) b \<noteq> None \<and> charged_dimension g d l = None
       then goalUpdatedAt g else max now (goalUpdatedAt g + 1))\<rparr>"

definition nothing_charged :: "usage_delta \<Rightarrow> bool" where
  "nothing_charged d \<longleftrightarrow> numericOrZero (deltaTokens d) = 0 \<and> numericOrZero (deltaActiveSeconds d) = 0
     \<and> deltaMainTurns d \<noteq> 1"

lemma charge_table:
  assumes "goal_by_id i t = Some g" "\<not> nothing_charged d"
  shows "snd (bumpThreadGoalBoundUsage sha now i b d l t)
    = sql_update (\<lambda>r. goal_id r = i) (charged_row sha now b d l g) t"
proof -
  have some: "(numericOrZero (deltaTokens d) = 0 \<and> numericOrZero (deltaActiveSeconds d) = 0
      \<and> (if deltaMainTurns d = 1 then 1 else 0) = (0::nat)) = False"
    using assms(2) by (auto simp: nothing_charged_def)
  show ?thesis
    by (simp only: bumpThreadGoalBoundUsage_def some assms(1) Let_def option.case if_False snd_conv)
      (rule arg_cong [where f = "\<lambda>f. sql_update (\<lambda>r. goal_id r = i) f t"], rule ext,
        simp only: charged_row_def charged_dimension_def)
qed

lemma charge_nothing: "nothing_charged d \<Longrightarrow> snd (bumpThreadGoalBoundUsage sha now i b d l t) = t"
  by (simp add: bumpThreadGoalBoundUsage_def nothing_charged_def Let_def split: option.split)

lemma charge_missing: "goal_by_id i t = None \<Longrightarrow> snd (bumpThreadGoalBoundUsage sha now i b d l t) = t"
  by (simp add: bumpThreadGoalBoundUsage_def)

lemma effect_charge:
  assumes "goals_ok t"
  shows "effect sha (GoalCharge now i b d l) t"
proof (cases "goal_by_id i t = None \<or> nothing_charged d")
  case True
  then show ?thesis by (intro effect_none) (auto simp: charge_nothing charge_missing)
next
  case False
  then obtain g where g: "goal_by_id i t = Some g" and some: "\<not> nothing_charged d" by auto
  show ?thesis
  proof (rule effect_update)
    show "goal_step sha (GoalCharge now i b d l) t = sql_update (\<lambda>r. goal_id r = i) (charged_row sha now b d l g) t"
      using charge_table [OF g some] by simp
  next
    fix r assume r: "r \<in> set t" "goal_id r = i"
    then have ok: "row_ok r" and [simp]: "g = goal_of r" using rows_ok the_goal assms g by blast+
    have "status_text r = active_text" if "status_text (charged_row sha now b d l g r) = active_text"
      using that by (simp add: charged_row_def active_status [OF ok] split: if_splits)
    then show "moves (GoalCharge now i b d l) r (charged_row sha now b d l g r)"
      using ok by (intro moves_intro) (auto simp: row_ok_def charged_row_def goal_of_simps [OF ok])
  qed
qed

lemma effect_set_wait:
  assumes "goals_ok t"
  shows "effect sha (GoalSetWait now i x reason) t"
proof (cases "snd (setThreadGoalExecutionWait now i x reason t) = t")
  case False
  let ?f = "\<lambda>r. r\<lparr>execution_wait_reason := Some (goal_wait_name reason),
    execution_wait_since_ms := Some (int now), execution_wait_epoch := Some x\<rparr>"
  show ?thesis
  proof (rule effect_update [where f = ?f])
    show "goal_step sha (GoalSetWait now i x reason) t = sql_update (at_epoch i x) ?f t"
      using False by (auto simp: setThreadGoalExecutionWait_def Let_def split: option.splits if_splits)
  qed (rule moves_intro; (drule rows_ok [OF assms])?; simp add: row_ok_def at_epoch_def)
qed (simp add: effect_none)

lemma effect_clear_wait:
  assumes "goals_ok t"
  shows "effect sha (GoalClearWait i x) t"
proof (cases "snd (clearThreadGoalExecutionWait i x t) = t")
  case False
  let ?f = "\<lambda>r. r\<lparr>execution_wait_reason := None, execution_wait_since_ms := None, execution_wait_epoch := None\<rparr>"
  show ?thesis
  proof (rule effect_update [where f = ?f])
    show "goal_step sha (GoalClearWait i x) t = sql_update (at_epoch i x) ?f t"
      using False by (auto simp: clearThreadGoalExecutionWait_def Let_def split: option.splits if_splits)
  qed (rule moves_intro; (drule rows_ok [OF assms])?; simp add: row_ok_def at_epoch_def)
qed (simp add: effect_none)

section \<open>The invariant\<close>

lemma map_sql_update: "(\<And>r. r \<in> set t \<Longrightarrow> p r \<Longrightarrow> h (f r) = h r) \<Longrightarrow> map h (sql_update p f t) = map h t"
  by (auto simp: sql_update_def)

lemma effect_goals_ok:
  assumes "goals_ok t" "effect sha e t"
  shows "goals_ok (goal_step sha e t)"
proof -
  obtain p f where step: "goal_step sha e t = sql_update p f t" and moves: "\<And>r. r \<in> set t \<Longrightarrow> p r \<Longrightarrow> moves e r (f r)"
    using assms(2) by (auto simp: effect_def)
  have "map goal_id (sql_update p f t) = map goal_id t" "map session_id (sql_update p f t) = map session_id t"
    using moves by (auto simp: moves_def intro!: map_sql_update)
  moreover have "list_all row_ok (sql_update p f t)"
    using assms(1) moves by (auto simp: sql_update_def list_all_iff goals_ok_def moves_def)
  ultimately show ?thesis using assms(1) step by (simp add: goals_ok_def)
qed

lemma delete_goals_ok: "goals_ok t \<Longrightarrow> goals_ok (sql_delete p t)"
  by (auto simp: goals_ok_def sql_delete_def list_all_iff distinct_map_filter)

lemma new_row_ok: "goal_possible t (GoalCreate gid now input) \<Longrightarrow> row_ok (new_row input gid now)"
  by (simp add: row_ok_def new_row_def)

lemma add_goals_ok:
  "goals_ok t \<Longrightarrow> row_ok r \<Longrightarrow> row_by_id (goal_id r) t = None \<Longrightarrow> row_by_session (session_id r) t = None
    \<Longrightarrow> goals_ok (t @ [r])"
  by (auto simp: goals_ok_def row_by_id_def row_by_session_def find_None_iff)

lemma new_row_columns [simp]: "goal_id (new_row input gid now) = gid" "session_id (new_row input gid now) = createSession input"
  by (simp_all add: new_row_def)

lemma create_goals_ok:
  assumes "goals_ok t" "goal_possible t (GoalCreate gid now input)"
  shows "goals_ok (snd (createGoal gid now input t))"
proof -
  have "row_by_session (createSession input) (sql_delete (\<lambda>r. session_id r = createSession input) t) = None"
    by (auto simp: row_by_session_def sql_delete_def find_None_iff)
  then show ?thesis using assms new_row_ok [OF assms(2)]
    by (auto simp: createGoal_def Let_def intro!: add_goals_ok delete_goals_ok split: option.split)
qed

text \<open>Every event but the creation and the deletion of a goal moves rows.\<close>

lemma event_effect:
  assumes "goals_ok t" "goal_possible t e" "\<And>gid now input. e \<noteq> GoalCreate gid now input" "\<And>i. e \<noteq> GoalDelete i"
  shows "effect sha e t"
proof (cases e)
  case (GoalCreate gid now input)
  with assms(3) show ?thesis by blast
next
  case (GoalDelete i)
  with assms(4) show ?thesis by blast
qed (insert assms(1,2), simp_all only: effect_pause effect_transition effect_reset effect_kickoff effect_patch
  effect_charge effect_settle effect_verify effect_breaker effect_set_wait effect_clear_wait)

lemma step_goals_ok:
  assumes "goals_ok t" "goal_possible t e"
  shows "goals_ok (goal_step sha e t)"
proof (cases "(\<exists>gid now input. e = GoalCreate gid now input) \<or> (\<exists>i. e = GoalDelete i)")
  case True
  then show ?thesis using assms create_goals_ok by (auto simp: deleteGoal_def delete_goals_ok)
next
  case False
  then show ?thesis using assms by (intro effect_goals_ok event_effect) auto
qed

interpretation goals: event_system "[]" goal_possible "goal_step sha" goals_ok for sha
  by unfold_locales (simp add: goals_ok_def, rule step_goals_ok)

text \<open>A row after an event: gone, or moved from the row with its id, or just created.\<close>

lemma row_after:
  assumes "goals_ok t" "goal_possible t e" "row_by_id i (goal_step sha e t) = Some r'"
    and "\<And>now input. e \<noteq> GoalCreate i now input"
  shows "\<exists>r. row_by_id i t = Some r \<and> (r' = r \<or> moves e r r')"
proof (cases "(\<exists>gid now input. e = GoalCreate gid now input) \<or> (\<exists>i. e = GoalDelete i)")
  case True
  then show ?thesis
  proof
    assume "\<exists>i. e = GoalDelete i"
    then show ?thesis using assms by (auto simp: deleteGoal_def row_by_id_delete goals_ok_def split: option.splits if_splits)
  next
    assume "\<exists>gid now input. e = GoalCreate gid now input"
    then obtain gid now input where e: "e = GoalCreate gid now input" by blast
    with assms(4) have "gid \<noteq> i" by blast
    then show ?thesis using assms(1,3) e
      by (auto simp: createGoal_def Let_def row_by_id_append row_by_id_delete goals_ok_def
          split: option.splits if_splits)
  qed
next
  case False
  then have "effect sha e t" using assms(1,2) by (intro event_effect) auto
  then obtain p f where step: "goal_step sha e t = sql_update p f t" and moves: "\<And>r. r \<in> set t \<Longrightarrow> p r \<Longrightarrow> moves e r (f r)"
    by (auto simp: effect_def)
  define f' where "f' r = (if p r \<and> r \<in> set t then f r else r)" for r
  have "sql_update (\<lambda>r. True) f' t = sql_update p f t" by (simp add: sql_update_def f'_def)
  moreover have same: "goal_id (f' r) = goal_id r" for r using moves by (simp add: f'_def moves_def)
  moreover have "row_by_id i (sql_update (\<lambda>r. True) f' t) = map_option f' (row_by_id i t)"
    using row_by_id_update [of f', OF same, of i "\<lambda>r. True" t] by simp
  ultimately show ?thesis using assms(3) step moves by (auto simp: f'_def split: if_splits)
qed

end
