(* ===== verification/ThreadGoals.thy ===== *)
theory ThreadGoals
  imports GoalProofs
begin

text \<open>
  What the operations on thread goals promise, over runs of the events of the store: decisions that were
  taken for one epoch, the ways back to an active goal, accounting, the breaker, and the goals returned.
\<close>

section \<open>Decisions for an epoch\<close>

text \<open>
  A system whose keys carry an epoch: epochs do not go back while the key lives, and a decision that
  was taken for an epoch changes nothing at another one, and moves the epoch on where it changes
  something.
\<close>

locale epoch_guarded = event_system init possible step ok
  for init :: 's and possible :: "'s \<Rightarrow> 'e \<Rightarrow> bool" and step :: "'e \<Rightarrow> 's \<Rightarrow> 's" and ok :: "'s \<Rightarrow> bool" +
  fixes epoch :: "'k \<Rightarrow> 's \<Rightarrow> nat option" and decision :: "'e \<Rightarrow> ('k \<times> nat) option"
    and makes :: "'k \<Rightarrow> 'e \<Rightarrow> bool"
  assumes onward: "ok s \<Longrightarrow> possible s e \<Longrightarrow> \<not> makes k e \<Longrightarrow> epoch k (step e s) = Some y \<Longrightarrow>
      \<exists>x. epoch k s = Some x \<and> x \<le> y"
    and guarded: "ok s \<Longrightarrow> possible s e \<Longrightarrow> decision e = Some (k, x) \<Longrightarrow> epoch k s \<noteq> Some x \<Longrightarrow> step e s = s"
    and advances: "ok s \<Longrightarrow> possible s e \<Longrightarrow> decision e = Some (k, x) \<Longrightarrow> step e s \<noteq> s \<Longrightarrow>
      epoch k (step e s) = Some y \<Longrightarrow> x < y"
begin

definition spent :: "'k \<Rightarrow> nat \<Rightarrow> 's \<Rightarrow> bool" where
  "spent k x s \<longleftrightarrow> (\<forall>y. epoch k s = Some y \<longrightarrow> x < y)"

lemma spent_step: "ok s \<Longrightarrow> possible s e \<Longrightarrow> \<not> makes k e \<Longrightarrow> spent k x s \<Longrightarrow> spent k x (step e s)"
  unfolding spent_def by (auto dest: onward)

lemma decided_once:
  assumes ok: "ok s" and first: "possible s e" "decision e = Some (k, x)" "step e s \<noteq> s"
    and run: "all_possible possible step es (step e s)" "list_all (\<lambda>e. \<not> makes k e) es"
    and second: "possible (run_events step es (step e s)) e'" "decision e' = Some (k, x)"
  shows "step e' (run_events step es (step e s)) = run_events step es (step e s)"
proof -
  have ok': "ok (step e s)" using ok first(1) by (rule ok_step)
  have "spent k x (step e s)" using ok first advances by (auto simp: spent_def)
  with ok' run have "spent k x (run_events step es (step e s))"
    by (rule run_keeps [where E = "\<lambda>e. \<not> makes k e" and Q = "spent k x", rotated]) (rule spent_step)
  moreover have "ok (run_events step es (step e s))" using ok' run(1) by (rule run_ok)
  ultimately show ?thesis using second by (intro guarded [of _ e' k x]) (auto simp: spent_def)
qed

end

definition goal_epoch :: "string \<Rightarrow> goal_table \<Rightarrow> nat option" where
  "goal_epoch i t = map_option updated_at_ms (row_by_id i t)"

fun creates :: "string \<Rightarrow> goal_event \<Rightarrow> bool" where
  "creates i (GoalCreate gid now input) \<longleftrightarrow> gid = i"
| "creates i _ \<longleftrightarrow> False"

lemma creates_iff: "creates i e \<longleftrightarrow> (\<exists>now input. e = GoalCreate i now input)"
  by (cases e) auto

lemma row_step:
  "goals_ok t \<Longrightarrow> goal_possible t e \<Longrightarrow> \<not> creates i e \<Longrightarrow> row_by_id i (goal_step sha e t) = Some r' \<Longrightarrow>
    \<exists>r. row_by_id i t = Some r \<and> (r' = r \<or> moves e r r')"
  by (rule row_after) (auto simp: creates_iff)

lemma decision_effect: "decision_of e = Some (i, x) \<Longrightarrow> goals_ok t \<Longrightarrow> goal_possible t e \<Longrightarrow> effect sha e t"
  by (rule event_effect) auto

lemma decision_changes:
  assumes "decision_of e = Some (i, x)" "goals_ok t" "goal_possible t e" "goal_step sha e t \<noteq> t"
  shows "\<exists>r r'. row_by_id i t = Some r \<and> updated_at_ms r = x \<and> row_by_id i (goal_step sha e t) = Some r'
    \<and> x < updated_at_ms r'"
proof -
  have "effect sha e t" using assms(1-3) by (rule decision_effect)
  then obtain p f where step: "goal_step sha e t = sql_update p f t"
    and moves: "\<forall>r \<in> set t. p r \<longrightarrow> moves e r (f r)" unfolding effect_def by blast
  from step assms(4) obtain r where r: "r \<in> set t" "p r" by (metis update_none)
  then have m: "goal_id r = i" "updated_at_ms r = x" "x < updated_at_ms (f r)" "goal_id (f r) = goal_id r"
    using moves assms(1) by (auto simp: moves_def)
  moreover have row: "row_by_id i t = Some r" using r(1) m(1) assms(2) row_by_id_unique [of t r] by (auto simp: goals_ok_def)
  moreover have "f r \<in> set (goal_step sha e t)" using r step by (force simp: sql_update_def)
  moreover have "goals_ok (goal_step sha e t)" using assms(2,3) by (rule step_goals_ok)
  ultimately show ?thesis using row_by_id_unique [of "goal_step sha e t" "f r"] by (auto simp: goals_ok_def)
qed

interpretation decisions: epoch_guarded "[]" goal_possible "goal_step sha" goals_ok goal_epoch decision_of creates for sha
proof unfold_locales
  fix s e k y assume "goals_ok s" "goal_possible s e" "\<not> creates k e" "goal_epoch k (goal_step sha e s) = Some y"
  then show "\<exists>x. goal_epoch k s = Some x \<and> x \<le> y" by (auto simp: goal_epoch_def moves_def dest!: row_step)
next
  fix s e k x assume "goals_ok s" "goal_possible s e" "decision_of e = Some (k, x)" "goal_epoch k s \<noteq> Some x"
  then show "goal_step sha e s = s" using decision_changes [of e k x s sha] by (auto simp: goal_epoch_def)
next
  fix s e k x y assume "goals_ok s" "goal_possible s e" "decision_of e = Some (k, x)" "goal_step sha e s \<noteq> s"
    "goal_epoch k (goal_step sha e s) = Some y"
  then show "x < y" using decision_changes [of e k x s sha] by (auto simp: goal_epoch_def)
qed

abbreviation run_goals :: "(string \<Rightarrow> string) \<Rightarrow> goal_event list \<Rightarrow> goal_table \<Rightarrow> goal_table" where
  "run_goals sha \<equiv> run_events (goal_step sha)"

abbreviation goals_possible :: "(string \<Rightarrow> string) \<Rightarrow> goal_event list \<Rightarrow> goal_table \<Rightarrow> bool" where
  "goals_possible sha \<equiv> all_possible goal_possible (goal_step sha)"

text \<open>A goal that was just created, for the examples.\<close>

definition example_create :: goal_create_input where
  "example_create = \<lparr>createSession = ''s'', createObjective = ''o'', createTokenBudget = None,
     createKickoffAttachments = None, createObjectiveResources = None\<rparr>"

definition example_goals :: goal_table where
  "example_goals = [new_row example_create ''g'' 10]"

lemma example_reached: "goal_reached sha example_goals"
  using reached_run [OF reached.start, of goal_possible "goal_step sha" "[GoalCreate ''g'' 10 example_create]" "[]"]
  by (simp add: example_create_def example_goals_def attachments_ok_def createGoal_def row_by_session_def row_by_id_def)

lemma example_goal: "goal_by_id ''g'' example_goals = Some (created_goal example_create ''g'' 10)"
  by (simp add: example_goals_def goal_by_id_def row_by_id_def new_row_def created_goal_def rowToThreadGoalState_def
      example_create_def active_text_def readKickoffAttachments_def attachments_json_def readLastVerification_def
      readLastWorkerProposal_def readStatusReason_def positiveOrNull_def readKickoffState_def)

definition example_transition :: goal_event where
  "example_transition = GoalTransition 11 ''g'' 10 GoalPaused PausedUserRequested"

text \<open>
  C14.  Of the decisions that were taken for one epoch of a goal - settling a turn, recording a
  verification, a step of the breaker, a change or a reset at an epoch - at most one changes the table,
  whatever else happens between them, in whatever order they arrive and whatever the clock says.
\<close>

theorem goal_decided_once:
  assumes "goal_reached sha t" "goal_possible t e" "decision_of e = Some (i, x)" "goal_step sha e t \<noteq> t"
    and "goals_possible sha es (goal_step sha e t)" "list_all (\<lambda>e. \<not> creates i e) es"
    and "goal_possible (run_goals sha es (goal_step sha e t)) e'" "decision_of e' = Some (i, x)"
  shows "goal_step sha e' (run_goals sha es (goal_step sha e t)) = run_goals sha es (goal_step sha e t)"
  using assms goals.reached_ok [OF assms(1)] by (intro decisions.decided_once)

lemma goal_decided_once_witness:
  "goal_step (\<lambda>s. ''h'') (GoalResetBreaker 12 ''g'' 10) (goal_step (\<lambda>s. ''h'') example_transition example_goals)
    = goal_step (\<lambda>s. ''h'') example_transition example_goals"
proof -
  have "goal_step (\<lambda>s. ''h'') example_transition example_goals \<noteq> example_goals"
    by (simp add: example_transition_def example_goals_def transitionActiveAtEpoch_def sql_changes_def sql_update_def
        at_epoch_def new_row_def Let_def)
  then show ?thesis
    using goal_decided_once [OF example_reached, of example_transition "''g''" 10 "\<lambda>s. ''h''" "[]" "GoalResetBreaker 12 ''g'' 10"]
    by (simp add: example_transition_def)
qed

section \<open>Back to an active goal\<close>

lemma run_absent:
  "goals_ok t \<Longrightarrow> goals_possible sha es t \<Longrightarrow> list_all (\<lambda>e. \<not> creates i e) es \<Longrightarrow> row_by_id i t = None
    \<Longrightarrow> row_by_id i (run_goals sha es t) = None"
proof (induction es arbitrary: t)
  case (Cons e es)
  then have "row_by_id i (goal_step sha e t) = None"
    using row_step [of t e i sha] by (cases "row_by_id i (goal_step sha e t)") auto
  with Cons show ?case by (auto intro: step_goals_ok)
qed simp

lemma run_revived:
  assumes "goals_ok t" "goals_possible sha es t" "list_all (\<lambda>e. \<not> creates i e) es"
    and "row_by_id i t = Some r" "status_text r \<noteq> active_text"
    and "row_by_id i (run_goals sha es t) = Some r'" "status_text r' = active_text"
  shows "\<exists>as e bs h. es = as @ e # bs \<and> row_by_id i (run_goals sha as t) = Some h \<and> row_ok h \<and> resumes e (goal_of h)"
  using assms
proof (induction es arbitrary: t r)
  case (Cons e es)
  have ok: "goals_ok (goal_step sha e t)" using Cons.prems by (auto intro: step_goals_ok)
  have r: "row_ok r" using Cons.prems rows_ok row_by_id_member by blast
  show ?case
  proof (cases "row_by_id i (goal_step sha e t)")
    case None
    then show ?thesis using run_absent [OF ok _ _ None, of sha es] Cons.prems by simp
  next
    case (Some q)
    then have q: "q = r \<or> moves e r q" using row_step [of t e i sha q] Cons.prems by auto
    show ?thesis
    proof (cases "status_text q = active_text")
      case True
      then have "resumes e (goal_of r)" using q Cons.prems(5) by (auto simp: moves_def)
      then show ?thesis using Cons.prems(4) r
        by (intro exI [of _ "[]"] exI [of _ e] exI [of _ es] exI [of _ r]) simp
    next
      case False
      then obtain as e' bs h where "es = as @ e' # bs" "row_by_id i (run_goals sha as (goal_step sha e t)) = Some h"
        "row_ok h" "resumes e' (goal_of h)"
        using Cons.IH [OF ok _ _ Some] Cons.prems by auto
      then show ?thesis by (intro exI [of _ "e # as"] exI [of _ e'] exI [of _ bs] exI [of _ h]) simp
    qed
  qed
qed simp

text \<open>
  C21.  A goal that is not active stays so, whatever the turns, verifications, charges and waits that
  come in, until the user asks for it: a goal found active again went through a patch with that status,
  made while it was paused, blocked or usage limited, or token limited with a larger budget.
\<close>

theorem goal_revived_by_user:
  assumes "goal_reached sha t" "goals_possible sha es t" "list_all (\<lambda>e. \<not> creates i e) es"
    and "goal_by_id i t = Some g" "goalStatus g \<noteq> GoalActive"
    and "goal_by_id i (run_goals sha es t) = Some g'" "goalStatus g' = GoalActive"
  shows "\<exists>as now input bs h. es = as @ GoalPatch now i input # bs \<and> goal_by_id i (run_goals sha as t) = Some h
    \<and> patchGoalStatus input = Some GoalActive
    \<and> (goalStatus h \<in> {GoalPaused, GoalBlocked, GoalUsageLimited} \<or> resumes_token_limited input h)"
proof -
  have ok: "goals_ok t" using assms(1) by (rule goals.reached_ok)
  then have ok': "goals_ok (run_goals sha es t)" using assms(2) by (rule goals.run_ok)
  obtain r where r: "row_by_id i t = Some r" "g = goal_of r" using assms(4) ok by (auto simp: goal_by_id_ok)
  obtain r' where r': "row_by_id i (run_goals sha es t) = Some r'" "g' = goal_of r'"
    using assms(6) ok' by (auto simp: goal_by_id_ok)
  have "row_ok r" "row_ok r'" using ok ok' r r' rows_ok row_by_id_member by blast+
  then have "status_text r \<noteq> active_text" "status_text r' = active_text"
    using assms(5,7) r r' by (simp_all add: active_status)
  from run_revived [OF ok assms(2,3) r(1) this(1) r'(1) this(2)]
  obtain as e bs h where es: "es = as @ e # bs" "row_by_id i (run_goals sha as t) = Some h" "row_ok h"
    "resumes e (goal_of h)" by blast
  have "goals_ok (run_goals sha as t)" using ok assms(2) es(1) by (auto intro: goals.run_ok simp: all_possible_append)
  then have h: "goal_by_id i (run_goals sha as t) = Some (goal_of h)" using es(2) by (simp add: goal_by_id_ok)
  have "goalId (goal_of h) = i" using row_by_id_member [OF es(2)] goal_of_simps(1) [OF es(3)] by simp
  with es(4) obtain now input where e: "e = GoalPatch now i input" by (cases e) auto
  show ?thesis
    by (intro exI [of _ as] exI [of _ now] exI [of _ input] exI [of _ bs] exI [of _ "goal_of h"])
      (use es(1,4) h e in simp)
qed

definition example_paused :: goal_table where
  "example_paused = goal_step (\<lambda>s. ''h'') example_transition example_goals"

definition example_resume :: goal_patch_input where
  "example_resume = \<lparr>patchGoalStatus = Some GoalActive, patchObjective = None, patchResources = None,
     patchTokenBudget = None, patchStatusReason = None, rejectIfCurrentStatus = None,
     rejectIfObjectiveChangedFrom = None, rejectIfUpdatedAtChangedFrom = None\<rparr>"

lemma goal_revived_by_user_witness:
  "\<exists>as now input bs h. [GoalPatch 12 ''g'' example_resume] = as @ GoalPatch now ''g'' input # bs
    \<and> goal_by_id ''g'' (run_goals (\<lambda>s. ''h'') as example_paused) = Some h
    \<and> patchGoalStatus input = Some GoalActive
    \<and> (goalStatus h \<in> {GoalPaused, GoalBlocked, GoalUsageLimited} \<or> resumes_token_limited input h)"
proof -
  have "goal_reached (\<lambda>s. ''h'') example_paused" unfolding example_paused_def
    by (rule reached.event [OF example_reached]) (simp add: example_transition_def)
  moreover have "map_option goalStatus (goal_by_id ''g'' example_paused) = Some GoalPaused" by code_simp
  then obtain g where "goal_by_id ''g'' example_paused = Some g" "goalStatus g \<noteq> GoalActive" by auto
  moreover have "map_option goalStatus (goal_by_id ''g'' (goal_step (\<lambda>s. ''h'') (GoalPatch 12 ''g'' example_resume)
      example_paused)) = Some GoalActive" by code_simp
  then obtain g' where "goal_by_id ''g'' (run_goals (\<lambda>s. ''h'') [GoalPatch 12 ''g'' example_resume] example_paused) = Some g'"
    "goalStatus g' = GoalActive" by auto
  moreover have "goal_possible example_paused (GoalPatch 12 ''g'' example_resume)"
    by (simp add: example_resume_def attachments_ok_def)
  ultimately show ?thesis
    by (intro goal_revived_by_user) simp_all
qed

section \<open>Accounting\<close>

lemma read_updated:
  "(\<And>r. goal_id (f r) = goal_id r) \<Longrightarrow> row_by_id i t = Some r \<Longrightarrow> p r \<Longrightarrow>
    goal_by_id i (sql_update p f t) = rowToThreadGoalState (f r)"
  by (simp add: goal_by_id_def row_by_id_update)

lemma read_other:
  assumes "\<And>r. goal_id (f r) = goal_id r" "\<And>r. p r \<Longrightarrow> goal_id r = i" "j \<noteq> i"
  shows "goal_by_id j (sql_update p f t) = goal_by_id j t"
proof (cases "row_by_id j t")
  case (Some r)
  with assms(2,3) have "\<not> p r" using row_by_id_member by blast
  with Some show ?thesis by (simp add: goal_by_id_def row_by_id_update [of f, OF assms(1)])
qed (simp add: goal_by_id_def row_by_id_update [of f, OF assms(1)])

lemma state_row:
  assumes "goals_ok t" "goal_by_id i t = Some g"
  obtains r where "row_by_id i t = Some r" "row_ok r" "goal_id r = i" "g = goal_of r"
  using assms row_by_id_member [of i t] rows_ok [of t] by (auto simp: goal_by_id_ok)

definition below_limit :: "nat \<Rightarrow> js_number option \<Rightarrow> bool" where
  "below_limit n l \<longleftrightarrow> \<not> (isPositiveLimit l \<and> reaches n l)"

lemma below_budgets: "firstExceededBudget a b c l = None \<longleftrightarrow>
    below_limit a (limitTokens l) \<and> below_limit b (limitMainTurns l) \<and> below_limit c (limitActiveSeconds l)"
  by (auto simp: firstExceededBudget_def below_limit_def)

lemma charged_row_id [simp]: "goal_id (charged_row sha now b d l g r) = goal_id r"
  by (simp add: charged_row_def)

lemma charged_read:
  assumes "goals_ok t" "goal_by_id i t = Some g" "\<not> nothing_charged d"
  shows "\<exists>g'. goal_by_id i (snd (bumpThreadGoalBoundUsage sha now i b d l t)) = Some g'
    \<and> tokensUsed g' = tokensUsed g + numericOrZero (deltaTokens d)
    \<and> turnsUsed g' = turnsUsed g + (if deltaMainTurns d = 1 then 1 else 0)
    \<and> timeUsedSeconds g' = timeUsedSeconds g + numericOrZero (deltaActiveSeconds d)
    \<and> goalStatus g' = (if charged_dimension g d l \<noteq> None then GoalBudgetLimited else goalStatus g)
    \<and> statusReason g' = (case charged_dimension g d l of Some x \<Rightarrow> Some (dimension_reason x) | None \<Rightarrow> statusReason g)
    \<and> goalUpdatedAt g' = (if goalStatus g = GoalBudgetLimited
         \<or> classifyThreadGoalAccountingStale sha (Some g) b \<noteq> None \<and> charged_dimension g d l = None
       then goalUpdatedAt g else max now (goalUpdatedAt g + 1))"
proof -
  obtain r where r: "row_by_id i t = Some r" "row_ok r" "goal_id r = i" "g = goal_of r"
    using assms(1,2) by (rule state_row)
  let ?r = "charged_row sha now b d l g r"
  have "row_by_id i (sql_update (\<lambda>r. goal_id r = i) (charged_row sha now b d l g) t) = Some ?r"
    using r(1,3) by (subst row_by_id_update) simp_all
  moreover have "goals_ok (sql_update (\<lambda>r. goal_id r = i) (charged_row sha now b d l g) t)"
    using step_goals_ok [OF assms(1), of "GoalCharge now i b d l" sha] charge_table [OF assms(2,3), of sha now b l] by simp
  ultimately have "row_ok ?r" by (meson row_by_id_member rows_ok)
  then have "goal_by_id i (snd (bumpThreadGoalBoundUsage sha now i b d l t)) = Some (goal_of ?r)"
    using r by (simp add: charge_table [OF assms(2,3)] read_updated row_goal)
  moreover have "tokens_used ?r = int (tokensUsed g + numericOrZero (deltaTokens d))"
    "turns_used ?r = int (turnsUsed g + (if deltaMainTurns d = 1 then 1 else 0))"
    "time_used_seconds ?r = int (timeUsedSeconds g + numericOrZero (deltaActiveSeconds d))"
    by (simp_all add: charged_row_def)
  moreover have "readStatus (status_text ?r) = (if charged_dimension g d l \<noteq> None then GoalBudgetLimited else goalStatus g)"
    "readStatusReason (status_reason_text ?r) =
      (case charged_dimension g d l of Some x \<Rightarrow> Some (dimension_reason x) | None \<Rightarrow> statusReason g)"
    "updated_at_ms ?r = (if goalStatus g = GoalBudgetLimited
         \<or> classifyThreadGoalAccountingStale sha (Some g) b \<noteq> None \<and> charged_dimension g d l = None
       then goalUpdatedAt g else max now (goalUpdatedAt g + 1))"
    unfolding charged_row_def by (simp_all split del: if_split)
  ultimately show ?thesis
    by (simp only: goal_of_simps [OF \<open>row_ok ?r\<close>] nat_int option.inject ex_simps simp_thms)
qed

text \<open>
  C31.  Charging adds exactly the usage reported, also when the report is stale; it changes the status only
  of an active goal, and only to budget limited; a goal that is still active afterwards has reached none of its
  positive limits; a stale report that crosses none keeps the epoch, so decisions in flight stay good; and
  no other goal changes.
\<close>

theorem goal_charged:
  assumes "goal_reached sha t" "goal_by_id i t = Some g"
  shows "\<exists>g'. goal_by_id i (snd (bumpThreadGoalBoundUsage sha now i b d l t)) = Some g'
    \<and> tokensUsed g' = tokensUsed g + numericOrZero (deltaTokens d)
    \<and> turnsUsed g' = turnsUsed g + (if deltaMainTurns d = 1 then 1 else 0)
    \<and> timeUsedSeconds g' = timeUsedSeconds g + numericOrZero (deltaActiveSeconds d)
    \<and> (goalStatus g' = goalStatus g \<or> goalStatus g = GoalActive \<and> goalStatus g' = GoalBudgetLimited)
    \<and> (goalStatus g' = GoalActive \<and> \<not> nothing_charged d \<longrightarrow> below_limit (tokensUsed g') (limitTokens l)
        \<and> below_limit (turnsUsed g') (limitMainTurns l) \<and> below_limit (timeUsedSeconds g') (limitActiveSeconds l))
    \<and> (classifyThreadGoalAccountingStale sha (Some g) b \<noteq> None \<and> goalStatus g' = goalStatus g
        \<longrightarrow> goalUpdatedAt g' = goalUpdatedAt g)
    \<and> (\<forall>j. j \<noteq> i \<longrightarrow> goal_by_id j (snd (bumpThreadGoalBoundUsage sha now i b d l t)) = goal_by_id j t)"
proof (cases "nothing_charged d")
  case True
  then show ?thesis using assms(2) by (simp add: charge_nothing) (simp add: nothing_charged_def)
next
  case False
  have ok: "goals_ok t" using assms(1) by (rule goals.reached_ok)
  have "goal_by_id j (snd (bumpThreadGoalBoundUsage sha now i b d l t)) = goal_by_id j t" if "j \<noteq> i" for j
    using that by (simp add: charge_table [OF assms(2) False] read_other [of _ _ i])
  then show ?thesis using charged_read [OF ok assms(2) False, of sha now b l]
    by (auto simp: charged_dimension_def below_budgets split: if_splits)
qed

lemma goal_charged_witness:
  "\<exists>g'. goal_by_id ''g'' (snd (bumpThreadGoalBoundUsage (\<lambda>s. ''h'') 20 ''g'' \<lparr>bindingEpoch = 4, bindingDigest = ''h''\<rparr>
      \<lparr>deltaTokens = Finite 7, deltaActiveSeconds = Finite 1, deltaMainTurns = 1\<rparr>
      \<lparr>limitTokens = Some (Finite 100), limitMainTurns = None, limitActiveSeconds = None\<rparr> example_goals)) = Some g'
    \<and> tokensUsed g' = 7 \<and> turnsUsed g' = 1"
  using goal_charged [OF example_reached example_goal, of "\<lambda>s. ''h''" 20 "\<lparr>bindingEpoch = 4, bindingDigest = ''h''\<rparr>"
      "\<lparr>deltaTokens = Finite 7, deltaActiveSeconds = Finite 1, deltaMainTurns = 1\<rparr>"
      "\<lparr>limitTokens = Some (Finite 100), limitMainTurns = None, limitActiveSeconds = None\<rparr>"]
  by (auto simp: created_goal_def)

end
