(* ===== verification/GoalReads.thy ===== *)
theory GoalReads
  imports ThreadGoals
begin

text \<open>
  The goal an operation of the store returns is the goal the next read gives.
\<close>

section \<open>Rows that read back\<close>

lemma positive_read [simp]: "positiveOrNull (map_option of_int (map_option int b)) = b" if "b \<noteq> Some 0"
  using that by (cases b) (simp_all add: positiveOrNull_def)

lemma positive_read_again [simp]:
  "positiveOrNull (map_option of_int (map_option int (positiveOrNull (map_option of_int (z :: int option)))))
    = positiveOrNull (map_option of_int z)"
  by (rule positive_read) (auto simp: positiveOrNull_def split: option.splits)

lemma read_verification_again [simp]:
  "readLastVerification (map_option verification_json (readLastVerification v)) = readLastVerification v"
proof (cases "readLastVerification v")
  case (Some x)
  then have "missingFingerprint x \<noteq> Some []"
    by (auto simp: readLastVerification_def truthy_opt_def split: option.splits jsval.splits if_splits prod.splits)
  with Some show ?thesis by simp
qed (simp add: readLastVerification_def)

lemma read_proposal_again [simp]:
  "readLastWorkerProposal (map_option proposal_json (readLastWorkerProposal v)) = readLastWorkerProposal v"
proof (cases "readLastWorkerProposal v")
  case (Some x)
  then have "proposalSummary x \<noteq> Some []
      \<and> length (or_default (proposalSummary x) []) \<le> THREAD_GOAL_WORKER_PROPOSAL_SUMMARY_MAX_CHARS"
    by (auto simp: readLastWorkerProposal_def truthy_opt_def split: option.splits jsval.splits if_splits prod.splits)
  with Some show ?thesis by simp
qed (simp add: readLastWorkerProposal_def)

lemma attachment_object: "isKickoffAttachment x \<Longrightarrow> JObject (object_of x) = x"
  by (cases x) (simp_all add: isKickoffAttachment_def)

lemma read_attachments_again [simp]:
  "readKickoffAttachments (Some (attachments_json (readKickoffAttachments v))) = readKickoffAttachments v"
  by (rule read_attachments)
    (auto simp: readKickoffAttachments_def list_all_iff attachment_object split: option.splits jsval.splits)

lemma materialized_reads [simp]:
  "materializeThreadGoalWorkerProposal input x = Some p \<Longrightarrow> readLastWorkerProposal (Some (proposal_json p)) = Some p"
  by (rule read_proposal)
    (auto simp: materializeThreadGoalWorkerProposal_def normalizeThreadGoalWorkerProposalSummary_def
      THREAD_GOAL_WORKER_PROPOSAL_SUMMARY_MAX_CHARS_def split: option.splits if_splits)

section \<open>The operations\<close>

lemma late_wait: "row_ok r \<Longrightarrow> updated_at_ms r < x \<Longrightarrow> execution_wait_epoch r \<noteq> Some x"
  by (auto simp: row_ok_def)

lemma late_waits:
  assumes "row_ok r"
  shows "execution_wait_epoch r \<noteq> Some (max now (Suc (updated_at_ms r)))"
    "execution_wait_epoch r \<noteq> Some (max now (updated_at_ms r + 1))"
  using late_wait [OF assms] by (simp_all add: less_max_iff_disj)

lemma read_at_epoch:
  "row_by_id i t = Some r \<Longrightarrow> at_epoch i x r \<Longrightarrow> (\<And>r. goal_id (f r) = goal_id r) \<Longrightarrow>
    goal_by_id i (sql_update (at_epoch i x) f t) = rowToThreadGoalState (f r)"
  by (rule read_updated)

lemma with_proposal_more [simp]:
  "created_at_ms (with_proposal p r) = created_at_ms r" "token_budget (with_proposal p r) = token_budget r"
  "kickoff_attachments_json (with_proposal p r) = kickoff_attachments_json r"
  "objective_resources_json (with_proposal p r) = objective_resources_json r"
  "kickoff_state_text (with_proposal p r) = kickoff_state_text r"
  "reply_fingerprint (with_proposal p r) = reply_fingerprint r"
  "no_progress_streak (with_proposal p r) = no_progress_streak r" "no_tool_streak (with_proposal p r) = no_tool_streak r"
  "last_verification_json (with_proposal p r) = last_verification_json r"
  "status_reason_text (with_proposal p r) = status_reason_text r"
  "execution_wait_reason (with_proposal p r) = execution_wait_reason r"
  "execution_wait_since_ms (with_proposal p r) = execution_wait_since_ms r"
  by (simp_all add: with_proposal_def)

lemma with_proposal_read [simp]:
  "readLastWorkerProposal (last_worker_proposal_json (with_proposal (materializeThreadGoalWorkerProposal input x) r))
    = or_else (materializeThreadGoalWorkerProposal input x) (readLastWorkerProposal (last_worker_proposal_json r))"
  by (cases "materializeThreadGoalWorkerProposal input x") (simp_all add: with_proposal_def or_else_def)

lemma readStatusReason_Some [simp]: "readStatusReason (Some (goal_reason_name r)) = Some r"
  using readStatusReason_name [of "Some r"] by (simp del: readStatusReason_name)

text \<open>A changed row reads back as the goal of its columns.\<close>

lemma changed_read:
  assumes "row_by_id i t = Some r" "p r" "goals_ok (sql_update p f t)" "\<And>r. goal_id (f r) = goal_id r"
  shows "row_ok (f r)" "goal_by_id i (sql_update p f t) = Some (goal_of (f r))"
proof -
  have row: "row_by_id i (sql_update p f t) = Some (f r)" using assms(1,2) by (simp add: row_by_id_update [of f, OF assms(4)])
  then show "row_ok (f r)" using assms(3) row_by_id_member rows_ok by blast
  show "goal_by_id i (sql_update p f t) = Some (goal_of (f r))" using row assms(3) by (simp add: goal_by_id_ok)
qed

text \<open>The row of a decision that is not stale.\<close>

lemma epoch_row:
  assumes "goals_ok t" "goal_by_id i t = Some s" "goalUpdatedAt s = x" "goalStatus s = GoalActive"
  obtains r where "row_by_id i t = Some r" "row_ok r" "s = goal_of r" "at_epoch i x r" "updated_at_ms r = x"
    "(sql_changes (at_epoch i x) t = 0) = False"
proof -
  obtain r where r: "row_by_id i t = Some r" "row_ok r" "goal_id r = i" "s = goal_of r" using assms(1,2) by (rule state_row)
  then have at: "at_epoch i x r" using assms(3,4) by (simp add: at_epoch_goal)
  then have "sql_changes (at_epoch i x) t \<noteq> 0" using row_by_id_member [OF r(1)] by (auto simp: changes_none)
  with that r at show ?thesis by (simp add: at_epoch_def)
qed

fun decided_goal :: "goal_decision \<Rightarrow> thread_goal option" where
  "decided_goal (Settled g x) = Some g"
| "decided_goal (Stale reason g) = g"

lemma stale_goal: "threadGoalStaleDecision sha s b = Some d \<Longrightarrow> decided_goal d = s"
  by (auto simp: threadGoalStaleDecision_def)

lemma settled_read:
  assumes ok: "goals_ok t" and possible: "goal_possible t (GoalSettle now i input)"
    and answer: "decided_goal (fst (settleThreadGoalBoundTurn sha now i input t)) = Some g"
  shows "goal_by_id i (snd (settleThreadGoalBoundTurn sha now i input t)) = Some g"
proof (cases "goal_by_id i t")
  case None
  then show ?thesis using answer by (simp add: settleThreadGoalBoundTurn_def)
next
  case (Some s)
  let ?x = "bindingEpoch (settleBinding input)"
  show ?thesis
  proof (cases "threadGoalStaleDecision sha (Some s) (settleBinding input)")
    case (Some d)
    then show ?thesis using answer \<open>goal_by_id i t = Some s\<close> by (simp add: settleThreadGoalBoundTurn_def stale_goal)
  next
    case fresh: None
    obtain r where r: "row_by_id i t = Some r" "row_ok r" "s = goal_of r" "at_epoch i ?x r" "updated_at_ms r = ?x"
      "(sql_changes (at_epoch i ?x) t = 0) = False"
      using epoch_row [OF ok Some] fresh_binding [OF fresh] by metis
    define y where "y = max now (?x + 1)"
    have late: "execution_wait_epoch r \<noteq> Some y" using late_waits [OF r(2)] by (simp add: y_def flip: r(5))
    let ?f = "\<lambda>r'. with_proposal (materializeThreadGoalWorkerProposal (settleProposal input) y)
      (r'\<lparr>status_text := goal_status_name (settleStatus input),
        status_reason_text := Some (goal_reason_name (settleReason input)), updated_at_ms := y\<rparr>)"
    have run: "settleThreadGoalBoundTurn sha now i input t =
        (Settled (s\<lparr>goalStatus := settleStatus input, statusReason := Some (settleReason input), goalUpdatedAt := y,
          lastWorkerProposal := or_else (materializeThreadGoalWorkerProposal (settleProposal input) y) (lastWorkerProposal s),
          executionWait := None\<rparr>) y, sql_update (at_epoch i ?x) ?f t)"
      by (simp only: settleThreadGoalBoundTurn_def Some option.case fresh Let_def r(6) if_False y_def)
    have "goals_ok (sql_update (at_epoch i ?x) ?f t)" using step_goals_ok [OF ok possible, of sha] by (simp add: run)
    note q = changed_read [OF r(1,4) this, simplified]
    have "Some (goal_of (?f r)) = decided_goal (fst (settleThreadGoalBoundTurn sha now i input t))"
      unfolding run fst_conv decided_goal.simps option.inject
      by (intro thread_goal.equality) (simp_all add: goal_of_simps [OF q(1)] goal_of_simps [OF r(2)] r(3) late)
    then show ?thesis using answer q(2) by (simp add: run)
  qed
qed

lemma verified_read:
  assumes ok: "goals_ok t" and possible: "goal_possible t (GoalVerify now i input)" and sha: "\<And>s. sha s \<noteq> []"
    and answer: "decided_goal (fst (recordThreadGoalVerification sha now i input t)) = Some g"
  shows "goal_by_id i (snd (recordThreadGoalVerification sha now i input t)) = Some g"
proof (cases "goal_by_id i t")
  case None
  then show ?thesis using answer by (simp add: recordThreadGoalVerification_def)
next
  case (Some s)
  let ?x = "bindingEpoch (verifyBinding input)"
  show ?thesis
  proof (cases "threadGoalStaleDecision sha (Some s) (verifyBinding input)")
    case (Some d)
    then show ?thesis using answer \<open>goal_by_id i t = Some s\<close> by (simp add: recordThreadGoalVerification_def stale_goal)
  next
    case fresh: None
    obtain r where r: "row_by_id i t = Some r" "row_ok r" "s = goal_of r" "at_epoch i ?x r" "updated_at_ms r = ?x"
      "(sql_changes (at_epoch i ?x) t = 0) = False"
      using epoch_row [OF ok Some] fresh_binding [OF fresh] by metis
    define y where "y = max now (?x + 1)"
    have late: "execution_wait_epoch r \<noteq> Some y" using late_waits [OF r(2)] by (simp add: y_def flip: r(5))
    define v where "v = normalizeVerificationResult sha (lastVerification s) (verifyResult input)"
    define d where "d = (if verdict v = VerdictNotMet \<and> notMetStreak v
        \<ge> positiveIntegerOrDefault (repeatedNotMetLimit input) DEFAULT_REPEATED_NOT_MET_LIMIT
      then Some (GoalPaused, PausedNoProgress) else verifyDecision input)"
    define st where "st = (case d of Some (st, rs) \<Rightarrow> st | None \<Rightarrow> goalStatus s)"
    define rs where "rs = (case d of Some (st, rs) \<Rightarrow> Some rs | None \<Rightarrow> statusReason s)"
    have v: "readLastVerification (Some (verification_json v)) = Some v"
      using sha by (auto simp: v_def normalizeVerificationResult_def Let_def intro!: read_verification)
    let ?f = "\<lambda>r'. with_proposal (materializeThreadGoalWorkerProposal (verifyProposal input) y)
      (r'\<lparr>last_verification_json := Some (verification_json v), status_text := goal_status_name st,
        status_reason_text := map_option goal_reason_name rs, updated_at_ms := y\<rparr>)"
    have run: "recordThreadGoalVerification sha now i input t =
        (Settled (s\<lparr>goalStatus := st, statusReason := rs, lastVerification := Some v,
          lastWorkerProposal := or_else (materializeThreadGoalWorkerProposal (verifyProposal input) y) (lastWorkerProposal s),
          goalUpdatedAt := y, executionWait := None\<rparr>) y, sql_update (at_epoch i ?x) ?f t)"
      by (simp only: recordThreadGoalVerification_def Some option.case fresh Let_def r(6) if_False y_def v_def d_def
          st_def rs_def)
    have "goals_ok (sql_update (at_epoch i ?x) ?f t)" using step_goals_ok [OF ok possible, of sha] by (simp add: run)
    note q = changed_read [OF r(1,4) this, simplified]
    have "Some (goal_of (?f r)) = decided_goal (fst (recordThreadGoalVerification sha now i input t))"
      unfolding run fst_conv decided_goal.simps option.inject
      by (intro thread_goal.equality) (simp_all add: goal_of_simps [OF q(1)] goal_of_simps [OF r(2)] r(3) late v)
    then show ?thesis using answer q(2) by (simp add: run)
  qed
qed

fun breaker_goal :: "breaker_result \<Rightarrow> thread_goal option" where
  "breaker_goal (Decided a g x c) = Some g"
| "breaker_goal (BreakerStale reason g) = g"

text \<open>A step of the breaker at the epoch of an active goal.\<close>

definition breaker_unchanged :: "thread_goal \<Rightarrow> string option \<times> nat \<times> nat \<times> breaker_action \<times> breaker_cause option \<Rightarrow> bool" where
  "breaker_unchanged g n \<longleftrightarrow> (case n of (fp, rs, ns, a, c) \<Rightarrow>
     a = BreakerNone \<and> fp = replyFingerprint g \<and> rs = noProgressStreak g \<and> ns = noToolStreak g)"

definition after_breaker ::
    "breaker_input \<Rightarrow> nat \<Rightarrow> string option \<times> nat \<times> nat \<times> breaker_action \<times> breaker_cause option \<Rightarrow> thread_goal \<Rightarrow> thread_goal" where
  "after_breaker input y n g = (case n of (fp, rs, ns, a, c) \<Rightarrow>
     g\<lparr>goalStatus := (if a = BreakerPause then GoalPaused else goalStatus g),
       statusReason := (if a = BreakerPause then Some (or_default (pauseReason input) PausedNoProgress) else statusReason g),
       replyFingerprint := fp, noProgressStreak := rs, noToolStreak := ns, goalUpdatedAt := y, executionWait := None\<rparr>)"

lemma breaker_current:
  assumes ok: "goals_ok t" and Some: "goal_by_id i t = Some s" and x: "goalUpdatedAt s = breakerEpoch input"
    and active: "goalStatus s = GoalActive" and step: "breaker_step input s = (fp, rs, ns, a, c)"
    and changed: "\<not> breaker_unchanged s (fp, rs, ns, a, c)"
  shows "fst (updateThreadGoalBreaker now i input t) = Decided a
        (after_breaker input (max now (goalUpdatedAt s + 1)) (fp, rs, ns, a, c) s) (max now (goalUpdatedAt s + 1)) c"
    and "goal_by_id i (snd (updateThreadGoalBreaker now i input t)) =
        Some (after_breaker input (max now (goalUpdatedAt s + 1)) (fp, rs, ns, a, c) s)"
proof -
  let ?x = "breakerEpoch input"
  obtain r where r: "row_by_id i t = Some r" "row_ok r" "s = goal_of r" "at_epoch i ?x r" "updated_at_ms r = ?x"
    "(sql_changes (at_epoch i ?x) t = 0) = False"
    using epoch_row [OF ok Some x active] by metis
  define y where "y = max now (goalUpdatedAt s + 1)"
  have late: "execution_wait_epoch r \<noteq> Some y" using late_waits [OF r(2)] by (simp add: y_def x flip: r(5))
  have changed': "(a = BreakerNone \<and> fp = replyFingerprint s \<and> rs = noProgressStreak s \<and> ns = noToolStreak s) = False"
    using changed by (simp add: breaker_unchanged_def)
  let ?st = "if a = BreakerPause then GoalPaused else goalStatus s"
  let ?rs = "if a = BreakerPause then Some (or_default (pauseReason input) PausedNoProgress) else statusReason s"
  let ?f = "\<lambda>r'. r'\<lparr>reply_fingerprint := fp, no_progress_streak := int rs, no_tool_streak := int ns,
    status_text := goal_status_name ?st, status_reason_text := map_option goal_reason_name ?rs, updated_at_ms := y\<rparr>"
  have run: "updateThreadGoalBreaker now i input t =
      (Decided a (after_breaker input y (fp, rs, ns, a, c) s) y c, sql_update (at_epoch i ?x) ?f t)"
    by (simp only: updateThreadGoalBreaker_def Some option.case prod.case step Let_def changed' r(6) if_False y_def
        after_breaker_def)
  have "goals_ok (sql_update (at_epoch i ?x) ?f t)"
    using step_goals_ok [OF ok, of "GoalBreaker now i input"] by (simp only: run goal_step.simps goal_possible.simps snd_conv simp_thms)
  note q = changed_read [OF r(1,4) this, simplified]
  have "goal_of (?f r) = after_breaker input y (fp, rs, ns, a, c) s"
    unfolding after_breaker_def prod.case
    by (intro thread_goal.equality) (simp_all add: goal_of_simps [OF q(1)] goal_of_simps [OF r(2)] r(3) late)
  then show "goal_by_id i (snd (updateThreadGoalBreaker now i input t)) =
      Some (after_breaker input (max now (goalUpdatedAt s + 1)) (fp, rs, ns, a, c) s)"
    using q(2) by (simp add: run y_def)
  show "fst (updateThreadGoalBreaker now i input t) = Decided a
      (after_breaker input (max now (goalUpdatedAt s + 1)) (fp, rs, ns, a, c) s) (max now (goalUpdatedAt s + 1)) c"
    by (simp add: run y_def)
qed

lemma breaker_read:
  assumes ok: "goals_ok t" and answer: "breaker_goal (fst (updateThreadGoalBreaker now i input t)) = Some g"
  shows "goal_by_id i (snd (updateThreadGoalBreaker now i input t)) = Some g"
proof (cases "goal_by_id i t")
  case None
  then show ?thesis using answer by (simp add: updateThreadGoalBreaker_def)
next
  case (Some s)
  obtain fp rs ns a c where step: "breaker_step input s = (fp, rs, ns, a, c)" by (metis prod_cases5)
  show ?thesis
  proof (cases "goalUpdatedAt s = breakerEpoch input \<and> goalStatus s = GoalActive \<and> \<not> breaker_unchanged s (fp, rs, ns, a, c)")
    case True
    then show ?thesis using breaker_current [OF ok Some _ _ step, of now] answer by auto
  next
    case False
    have "sql_changes (at_epoch i (breakerEpoch input)) t = 0"
      if "goalUpdatedAt s \<noteq> breakerEpoch input \<or> goalStatus s \<noteq> GoalActive"
      using that the_goal [OF ok Some] rows_ok [OF ok]
      by (auto simp: changes_none at_epoch_def active_status goal_of_simps(4))
    then show ?thesis using False answer Some step
      by (auto simp: updateThreadGoalBreaker_def breaker_unchanged_def Let_def split: if_splits prod.splits)
  qed
qed

lemma charge_answer:
  assumes "goal_by_id i t = Some s"
  shows "usageGoal (fst (bumpThreadGoalBoundUsage sha now i b d l t)) = Some (if nothing_charged d then s
    else s\<lparr>goalStatus := (if charged_dimension s d l \<noteq> None then GoalBudgetLimited else goalStatus s),
      statusReason := (case charged_dimension s d l of Some x \<Rightarrow> Some (dimension_reason x) | None \<Rightarrow> statusReason s),
      tokensUsed := tokensUsed s + numericOrZero (deltaTokens d),
      turnsUsed := turnsUsed s + (if deltaMainTurns d = 1 then 1 else 0),
      timeUsedSeconds := timeUsedSeconds s + numericOrZero (deltaActiveSeconds d),
      goalUpdatedAt := (if goalStatus s = GoalBudgetLimited
          \<or> classifyThreadGoalAccountingStale sha (Some s) b \<noteq> None \<and> charged_dimension s d l = None
        then goalUpdatedAt s else max now (goalUpdatedAt s + 1)),
      executionWait := (if goalStatus s = GoalBudgetLimited
          \<or> classifyThreadGoalAccountingStale sha (Some s) b \<noteq> None \<and> charged_dimension s d l = None
        then executionWait s else None)\<rparr>)"
proof -
  have "(numericOrZero (deltaTokens d) = 0 \<and> numericOrZero (deltaActiveSeconds d) = 0
      \<and> (if deltaMainTurns d = 1 then 1 else 0) = (0::nat)) = nothing_charged d"
    by (auto simp: nothing_charged_def)
  then show ?thesis
    by (simp only: bumpThreadGoalBoundUsage_def assms option.case Let_def charged_dimension_def
        if_distrib [of fst] if_distrib [of usageGoal] fst_conv bound_usage_result.simps if_distrib [of Some])
qed

lemma charged_read_goal:
  assumes ok: "goals_ok t" and answer: "usageGoal (fst (bumpThreadGoalBoundUsage sha now i b d l t)) = Some g"
  shows "goal_by_id i (snd (bumpThreadGoalBoundUsage sha now i b d l t)) = Some g"
proof (cases "goal_by_id i t")
  case None
  then show ?thesis using answer by (simp add: bumpThreadGoalBoundUsage_def)
next
  case (Some s)
  show ?thesis
  proof (cases "nothing_charged d")
    case True
    then show ?thesis using Some answer by (simp add: charge_nothing charge_answer [OF Some])
  next
    case False
    obtain r where r: "row_by_id i t = Some r" "row_ok r" "goal_id r = i" "s = goal_of r" using ok Some by (rule state_row)
    let ?f = "charged_row sha now b d l s"
    have "goals_ok (sql_update (\<lambda>r. goal_id r = i) ?f t)"
      using step_goals_ok [OF ok, of "GoalCharge now i b d l" sha] charge_table [OF Some False, of sha now b l] by simp
    note q = changed_read [OF r(1) r(3) this charged_row_id]
    define keeps where "keeps \<longleftrightarrow> goalStatus s = GoalBudgetLimited
      \<or> classifyThreadGoalAccountingStale sha (Some s) b \<noteq> None \<and> charged_dimension s d l = None"
    define y where "y = (if keeps then goalUpdatedAt s else max now (goalUpdatedAt s + 1))"
    have status: "readStatus (status_text (?f r)) = (if charged_dimension s d l \<noteq> None then GoalBudgetLimited else goalStatus s)"
      by (simp add: charged_row_def)
    have epoch: "updated_at_ms (?f r) = y" unfolding charged_row_def y_def keeps_def by simp
    have wait: "executionWait (goal_of (?f r)) = (if keeps then executionWait s else None)"
      using late_waits [OF r(2)] unfolding goal_of_simps(20) [OF q(1)] status epoch
      by (auto simp: y_def keeps_def r(4) goal_of_simps [OF r(2)] charged_row_def)
    note old = goal_of_simps(1-19) [OF r(2), folded r(4), symmetric]
    have "goal_of (?f r) = the (usageGoal (fst (bumpThreadGoalBoundUsage sha now i b d l t)))"
      unfolding charge_answer [OF Some] option.sel if_not_P [OF False] keeps_def [symmetric] y_def [symmetric]
      by (intro thread_goal.equality)
        (simp_all add: goal_of_simps(1-19) [OF q(1)] wait status epoch, simp_all add: charged_row_def old nat_add_distrib)
    then show ?thesis using q(2) answer by (simp add: charge_table [OF Some False])
  qed
qed

lemma patched_row_id [simp]: "goal_id (patched_row input b y g r) = goal_id r"
  by (simp add: patched_row_def Let_def)

lemma positive_nonzero: "tokenBudget (goal_of r) \<noteq> Some 0" if "row_ok r"
  by (auto simp: goal_of_simps(11) [OF that] positiveOrNull_def split: option.splits)

lemma read_verification_of [simp]:
  "row_ok r \<Longrightarrow> readLastVerification (map_option verification_json (lastVerification (goal_of r))) = lastVerification (goal_of r)"
  by (simp add: goal_of_simps)

lemma read_proposal_of [simp]:
  "row_ok r \<Longrightarrow> readLastWorkerProposal (map_option proposal_json (lastWorkerProposal (goal_of r))) = lastWorkerProposal (goal_of r)"
  by (simp add: goal_of_simps)

lemma read_nothing [simp]: "readLastVerification None = None" "readLastWorkerProposal None = None"
  by (simp_all add: readLastVerification_def readLastWorkerProposal_def)

lemma read_resources_of:
  assumes "row_ok r" "attachments_ok given"
  shows "readKickoffAttachments (Some (attachments_json (or_default given (objectiveResources (goal_of r)))))
    = or_default given (objectiveResources (goal_of r))"
  using assms by (cases given) (simp_all add: goal_of_simps attachments_ok_def)

lemma patched_read:
  assumes ok: "goals_ok t" and possible: "goal_possible t (GoalPatch now i input)"
    and whole: "case patchTokenBudget input of None \<Rightarrow> True | Some v \<Rightarrow> positiveOrNull v \<noteq> Some 0"
    and answer: "fst (patchThreadGoal now i input t) = Inr g"
  shows "goal_by_id i (snd (patchThreadGoal now i input t)) = Some g"
proof (cases "row_by_id i t")
  case None
  then show ?thesis using answer by (simp add: patchThreadGoal_def)
next
  case (Some r)
  then have r: "row_ok r" "goal_id r = i" using ok rows_ok row_by_id_member by blast+
  let ?s = "goal_of r"
  have s: "goal_by_id i t = Some ?s" using ok Some by (simp add: goal_by_id_ok)
  let ?b = "resumes_token_limited input ?s"
  define y where "y = max now (goalUpdatedAt ?s + 1)"
  have late: "execution_wait_epoch r \<noteq> Some y" using late_waits [OF r(1)] by (simp add: y_def goal_of_simps [OF r(1)])
  have accepted: "patch_refused input i r ?s ?b = None"
    using answer Some s by (auto simp: patchThreadGoal_def Let_def split: option.splits)
  have guards: "guards_hold input i r"
  proof (cases "guarded input")
    case True
    have "sql_changes (guards_hold input i) t \<noteq> 0"
      using answer Some s accepted True by (auto simp: patchThreadGoal_def Let_def split: if_splits)
    then obtain q where "q \<in> set t" "guards_hold input i q" by (auto simp: changes_none)
    moreover from this have "q = r" using Some row_by_id_unique [of t q] ok by (auto simp: goals_ok_def guards_hold_def)
    ultimately show ?thesis by simp
  next
    case False
    then show ?thesis using r(2) by (auto simp: guards_hold_def guarded_def)
  qed
  have run: "patchThreadGoal now i input t =
      (Inr (patched_goal input ?b y ?s), sql_update (guards_hold input i) (patched_row input ?b y ?s) t)"
    using answer by (simp add: patchThreadGoal_def Let_def Some s accepted y_def split: if_splits)
  have "goals_ok (sql_update (guards_hold input i) (patched_row input ?b y ?s) t)"
    using step_goals_ok [OF ok possible] by (simp add: run)
  note q = changed_read [OF Some guards this patched_row_id]
  have resources: "attachments_ok (patchResources input)" using possible by simp
  have budget: "positiveOrNull (map_option of_int (map_option int (case patchTokenBudget input of
      None \<Rightarrow> tokenBudget ?s | Some v \<Rightarrow> positiveOrNull v)))
    = (case patchTokenBudget input of None \<Rightarrow> tokenBudget ?s | Some v \<Rightarrow> positiveOrNull v)"
    using whole positive_nonzero [OF r(1)] by (intro positive_read) (auto split: option.splits)
  note old = goal_of_simps(1-10,12-16,19) [OF r(1), symmetric]
  have "goal_of (patched_row input ?b y ?s r) = patched_goal input ?b y ?s"
    by (intro thread_goal.equality)
      (simp_all only: goal_of_simps [OF q(1)],
       simp_all add: patched_row_def patched_goal_def Let_def old late budget r(1) read_resources_of [OF r(1) resources], auto)
  then show ?thesis using answer q(2) by (simp add: run)
qed

lemma created_read:
  assumes ok: "goals_ok t" and possible: "goal_possible t (GoalCreate gid now input)"
    and whole: "positiveOrNull (createTokenBudget input) \<noteq> Some 0"
    and answer: "fst (createGoal gid now input t) = Inr g"
  shows "goal_by_id gid (snd (createGoal gid now input t)) = Some g"
proof -
  have "goals_ok (snd (createGoal gid now input t))" using create_goals_ok [OF ok possible] .
  moreover have "row_by_id gid (snd (createGoal gid now input t)) = Some (new_row input gid now)"
    and g: "g = created_goal input gid now"
    using answer by (auto simp: createGoal_def Let_def row_by_id_append split: option.splits if_splits)
  ultimately have read: "goal_by_id gid (snd (createGoal gid now input t)) = Some (goal_of (new_row input gid now))"
    by (simp add: goal_by_id_ok)
  have attachments: "attachments_ok (createKickoffAttachments input)" "attachments_ok (createObjectiveResources input)"
    using possible by simp_all
  note q = new_row_ok [OF possible]
  have "goal_of (new_row input gid now) = g" unfolding g
    by (intro thread_goal.equality)
      (simp_all only: goal_of_simps [OF q],
       use whole attachments in \<open>simp_all add: new_row_def created_goal_def attachments_ok_def
         active_text_def readExecutionWait_def readKickoffState_def readStatusReason_def\<close>)
  with read show ?thesis by simp
qed

text \<open>The goal that an operation answers with.\<close>

fun answered :: "goal_error + thread_goal \<Rightarrow> thread_goal option" where
  "answered (Inl e) = None"
| "answered (Inr g) = Some g"

fun goal_answer :: "(string \<Rightarrow> string) \<Rightarrow> goal_event \<Rightarrow> goal_table \<Rightarrow> thread_goal option" where
  "goal_answer sha (GoalCreate gid now input) t = answered (fst (createGoal gid now input t))"
| "goal_answer sha (GoalDelete i) t = None"
| "goal_answer sha (GoalPause now s reason) t = fst (pauseActiveBySession now s reason t)"
| "goal_answer sha (GoalTransition now i epoch st rs) t = fst (transitionActiveAtEpoch now i epoch st rs t)"
| "goal_answer sha (GoalResetBreaker now i epoch) t = fst (resetBreakerAtEpoch now i epoch t)"
| "goal_answer sha (GoalKickoff i expected next) t = fst (transitionKickoffState i expected next t)"
| "goal_answer sha (GoalPatch now i input) t = answered (fst (patchThreadGoal now i input t))"
| "goal_answer sha (GoalCharge now i b d l) t = usageGoal (fst (bumpThreadGoalBoundUsage sha now i b d l t))"
| "goal_answer sha (GoalSettle now i input) t = decided_goal (fst (settleThreadGoalBoundTurn sha now i input t))"
| "goal_answer sha (GoalVerify now i input) t = decided_goal (fst (recordThreadGoalVerification sha now i input t))"
| "goal_answer sha (GoalBreaker now i input) t = breaker_goal (fst (updateThreadGoalBreaker now i input t))"
| "goal_answer sha (GoalSetWait now i epoch reason) t = fst (setThreadGoalExecutionWait now i epoch reason t)"
| "goal_answer sha (GoalClearWait i epoch) t = fst (clearThreadGoalExecutionWait i epoch t)"

text \<open>A token budget that the rounding down does not make zero.\<close>

fun whole_budget :: "goal_event \<Rightarrow> bool" where
  "whole_budget (GoalCreate gid now input) \<longleftrightarrow> positiveOrNull (createTokenBudget input) \<noteq> Some 0"
| "whole_budget (GoalPatch now i input) \<longleftrightarrow>
     (case patchTokenBudget input of None \<Rightarrow> True | Some v \<Rightarrow> positiveOrNull v \<noteq> Some 0)"
| "whole_budget _ \<longleftrightarrow> True"

lemma read_id: "goals_ok t \<Longrightarrow> goal_by_id i t = Some g \<Longrightarrow> goalId g = i"
  using state_row [of t i g] goal_of_simps(1) by metis

lemma read_session:
  assumes "goals_ok t" "getBySession s t = Some g"
  shows "goal_by_id (goalId g) t = Some g"
proof -
  obtain r where r: "row_by_session s t = Some r" "rowToThreadGoalState r = Some g"
    using assms(2) by (auto simp: getBySession_def bind_eq_Some_conv)
  then have m: "r \<in> set t" by (auto simp: row_by_session_def find_Some_iff)
  with assms(1) have "row_ok r" by (rule rows_ok)
  moreover have "row_by_id (goal_id r) t = Some r" using assms(1) m by (simp add: row_by_id_unique goals_ok_def)
  moreover have "g = goal_of r" using r(2) row_goal [OF \<open>row_ok r\<close>] by simp
  ultimately show ?thesis using assms(1) by (simp add: goal_by_id_ok goal_of_simps)
qed

lemma answer_read:
  assumes ok: "goals_ok t" and possible: "goal_possible t e" and sha: "\<And>s. sha s \<noteq> []"
    and whole: "whole_budget e" and answer: "goal_answer sha e t = Some g"
  shows "\<exists>i. goal_by_id i (goal_step sha e t) = Some g"
proof (cases e)
  case (GoalCreate gid now input)
  then show ?thesis using created_read [OF ok, of gid now input] possible whole answer
    by (cases "fst (createGoal gid now input t)") auto
next
  case (GoalDelete i)
  then show ?thesis using answer by simp
next
  case (GoalPause now s reason)
  then show ?thesis using answer read_session [of "goal_step sha e t" s g] step_goals_ok [OF ok possible]
    by (auto simp: pauseActiveBySession_def Let_def split: if_splits)
next
  case (GoalTransition now i x st rs)
  then show ?thesis using answer by (auto simp: transitionActiveAtEpoch_def Let_def split: if_splits)
next
  case (GoalResetBreaker now i x)
  then show ?thesis using answer by (auto simp: resetBreakerAtEpoch_def Let_def split: if_splits)
next
  case (GoalKickoff i a b)
  then show ?thesis using answer by (auto simp: transitionKickoffState_def Let_def split: if_splits)
next
  case (GoalPatch now i input)
  then show ?thesis using patched_read [OF ok, of now i input] possible whole answer
    by (cases "fst (patchThreadGoal now i input t)") auto
next
  case (GoalCharge now i b d l)
  then show ?thesis using charged_read_goal [OF ok, of sha now i b d l g] answer by auto
next
  case (GoalSettle now i input)
  then show ?thesis using settled_read [OF ok, of now i input sha g] possible answer by auto
next
  case (GoalVerify now i input)
  then show ?thesis using verified_read [where sha = sha, OF ok _ sha, of now i input g] possible answer by auto
next
  case (GoalBreaker now i input)
  then show ?thesis using breaker_read [OF ok, of now i input g] answer by auto
next
  case (GoalSetWait now i x reason)
  then show ?thesis using answer
    by (auto simp: setThreadGoalExecutionWait_def Let_def split: if_splits option.splits)
next
  case (GoalClearWait i x)
  then show ?thesis using answer
    by (auto simp: clearThreadGoalExecutionWait_def Let_def split: if_splits option.splits)
qed

text \<open>
  C9.  The goal an operation answers with, settled or stale, is exactly the goal that the next read of its id
  gives: what was written is read back, attachments, verification and proposal included.  Budgets are
  whole numbers.
\<close>

theorem goal_answer_is_read:
  assumes "goal_reached sha t" "goal_possible t e" "\<forall>s. sha s \<noteq> []" "whole_budget e"
    and "goal_answer sha e t = Some g"
  shows "goal_by_id (goalId g) (goal_step sha e t) = Some g"
proof -
  have ok: "goals_ok t" using assms(1) by (rule goals.reached_ok)
  obtain i where i: "goal_by_id i (goal_step sha e t) = Some g" using answer_read [OF ok assms(2)] assms(3-5) by blast
  with step_goals_ok [OF ok assms(2)] have "goalId g = i" by (rule read_id)
  with i show ?thesis by simp
qed

lemma goal_answer_is_read_witness:
  "goal_by_id ''g'' (goal_step (\<lambda>s. ''h'') example_transition example_goals)
    = goal_answer (\<lambda>s. ''h'') example_transition example_goals"
proof -
  have "map_option goalId (goal_answer (\<lambda>s. ''h'') example_transition example_goals) = Some ''g''" by code_simp
  then obtain g where g: "goal_answer (\<lambda>s. ''h'') example_transition example_goals = Some g" "goalId g = ''g''" by auto
  then show ?thesis
    using goal_answer_is_read [OF example_reached _ _ _ g(1)] by (simp add: example_transition_def)
qed

section \<open>The breaker over a run of equal replies\<close>

definition reply_input :: "string \<Rightarrow> js_number \<Rightarrow> nat \<Rightarrow> breaker_input" where
  "reply_input fp limit epoch =
     \<lparr>breakerEpoch = epoch, fingerprint = Some fp, toolActivity = ToolsUsed, breakerLimit = limit, pauseReason = None\<rparr>"

text \<open>
  The actions of the breaker on turns that all use tools and end with the same reply, each at the current
  epoch.
\<close>

fun reply_actions :: "string \<Rightarrow> string \<Rightarrow> js_number \<Rightarrow> nat list \<Rightarrow> goal_table \<Rightarrow> breaker_action list" where
  "reply_actions i fp limit [] t = []"
| "reply_actions i fp limit (now # nows) t =
     (case goal_by_id i t of
        None \<Rightarrow> []
      | Some g \<Rightarrow>
          (case updateThreadGoalBreaker now i (reply_input fp limit (goalUpdatedAt g)) t of
             (Decided a g' x c, t') \<Rightarrow> a # reply_actions i fp limit nows t'
           | (BreakerStale reason g', t') \<Rightarrow> []))"

declare reply_actions.simps(2) [simp del]

lemma limit_two: "2 \<le> occurrenceLimit l"
  by (cases l) auto

lemma reply_step:
  "breaker_step (reply_input fp limit x) g =
     (if replyFingerprint g = Some fp
      then (Some fp, noProgressStreak g + 1, 0, decideAction (noProgressStreak g + 2) (occurrenceLimit limit),
        if decideAction (noProgressStreak g + 2) (occurrenceLimit limit) = BreakerNone then None else Some RepeatedReply)
      else (Some fp, 0, 0, BreakerNone, None))"
  by (auto simp: breaker_step_def reply_input_def Let_def strongerAction_def decideAction_def)

lemma reply_changes: "\<not> breaker_unchanged g (breaker_step (reply_input fp limit x) g)"
  by (simp add: reply_step breaker_unchanged_def)

lemma reply_inactive:
  assumes "goals_ok t" "goal_by_id i t = Some g" "goalStatus g \<noteq> GoalActive"
  shows "reply_actions i fp limit nows t = []"
proof (cases nows)
  case (Cons now rest)
  have "sql_changes (at_epoch i x) t = 0" for x
    using the_goal [OF assms(1,2)] rows_ok [OF assms(1)] assms(3) by (auto simp: changes_none at_epoch_def active_status)
  then show ?thesis
    by (auto simp: Cons assms(2) reply_actions.simps(2) updateThreadGoalBreaker_def reply_step Let_def)
qed simp

lemma reply_next:
  assumes "goals_ok t" "goal_by_id i t = Some g" "goalStatus g = GoalActive"
    "breaker_step (reply_input fp limit (goalUpdatedAt g)) g = (f, rs, ns, a, c)"
  obtains t' g' where "goals_ok t'" "goal_by_id i t' = Some g'"
    "reply_actions i fp limit (now # nows) t = a # reply_actions i fp limit nows t'"
    "replyFingerprint g' = f" "noProgressStreak g' = rs" "goalStatus g' = (if a = BreakerPause then GoalPaused else GoalActive)"
proof -
  let ?input = "reply_input fp limit (goalUpdatedAt g)"
  let ?u = "updateThreadGoalBreaker now i ?input t"
  have x: "goalUpdatedAt g = breakerEpoch ?input" by (simp add: reply_input_def)
  have changed: "\<not> breaker_unchanged g (f, rs, ns, a, c)" using reply_changes [of g fp limit "goalUpdatedAt g"] assms(4) by simp
  note run = breaker_current [OF assms(1,2) x assms(3,4) changed, of now]
  have "goals_ok (snd ?u)" using step_goals_ok [OF assms(1), of "GoalBreaker now i ?input"] by simp
  moreover have "reply_actions i fp limit (now # nows) t = a # reply_actions i fp limit nows (snd ?u)"
    using run(1) assms(2) by (cases ?u) (simp add: reply_actions.simps(2))
  ultimately show ?thesis using that run(2) assms(3) by (auto simp: after_breaker_def)
qed

lemma reply_ladder:
  assumes "goals_ok t" "goal_by_id i t = Some g" "goalStatus g = GoalActive" "replyFingerprint g = Some fp"
    "noProgressStreak g + 1 < occurrenceLimit limit"
  shows "reply_actions i fp limit nows t = map (\<lambda>k. decideAction k (occurrenceLimit limit))
    [noProgressStreak g + 2 ..< min (noProgressStreak g + 2 + length nows) (occurrenceLimit limit + 1)]"
  using assms
proof (induction nows arbitrary: t g)
  case Nil
  then show ?case by simp
next
  case (Cons now nows)
  let ?n = "noProgressStreak g" and ?l = "occurrenceLimit limit"
  have range: "[?n + 2 ..< min (?n + 2 + length (now # nows)) (?l + 1)]
      = (?n + 2) # [?n + 3 ..< min (?n + 3 + length nows) (?l + 1)]"
    using Cons.prems(5) by (subst upt_conv_Cons) (simp_all add: eval_nat_numeral)
  obtain t' g' where t': "goals_ok t'" "goal_by_id i t' = Some g'"
    "reply_actions i fp limit (now # nows) t = decideAction (?n + 2) ?l # reply_actions i fp limit nows t'"
    "replyFingerprint g' = Some fp" "noProgressStreak g' = ?n + 1"
    "goalStatus g' = (if decideAction (?n + 2) ?l = BreakerPause then GoalPaused else GoalActive)"
    using reply_next [OF Cons.prems(1-3) reply_step [of fp limit "goalUpdatedAt g" g, unfolded if_P [OF Cons.prems(4)]]] by metis
  show ?case
  proof (cases "?l \<le> ?n + 2")
    case True
    then have "reply_actions i fp limit nows t' = []" using t' by (intro reply_inactive [of t' i g']) (simp_all add: decideAction_def)
    moreover have "[?n + 3 ..< min (?n + 3 + length nows) (?l + 1)] = []" using True by simp
    ultimately show ?thesis unfolding range by (simp add: t'(3))
  next
    case False
    then have "goalStatus g' = GoalActive" by (simp add: t'(6) decideAction_def)
    from Cons.IH [OF t'(1,2) this t'(4)] False
    have "reply_actions i fp limit nows t' = map (\<lambda>k. decideAction k ?l) [?n + 3 ..< min (?n + 3 + length nows) (?l + 1)]"
      by (simp add: t'(5) eval_nat_numeral)
    then show ?thesis unfolding range by (simp add: t'(3))
  qed
qed

text \<open>
  C33.  Equal replies are counted exactly: turns of an active goal that all use tools and all end with the same
  reply, new to it, get no action for the first, a nudge from the second on, and a pause precisely at
  the one that reaches the limit, which is at least two; after the pause nothing more is decided.
  (Turns without tools are counted beside the replies, and may be nudged or pause the goal earlier.)
\<close>

theorem breaker_counts_replies:
  assumes "goal_reached sha t" "goal_by_id i t = Some g" "goalStatus g = GoalActive" "replyFingerprint g \<noteq> Some fp"
  shows "reply_actions i fp limit nows t =
    map (\<lambda>k. if k = 1 then BreakerNone else if k < occurrenceLimit limit then BreakerNudge else BreakerPause)
      [1 ..< min (1 + length nows) (occurrenceLimit limit + 1)]"
proof (cases nows)
  case Nil
  then show ?thesis by simp
next
  case (Cons now rest)
  let ?l = "occurrenceLimit limit"
  have ok: "goals_ok t" using assms(1) by (rule goals.reached_ok)
  have two: "2 \<le> ?l" by (rule limit_two)
  obtain t' g' where t': "goals_ok t'" "goal_by_id i t' = Some g'"
    "reply_actions i fp limit (now # rest) t = BreakerNone # reply_actions i fp limit rest t'"
    "replyFingerprint g' = Some fp" "noProgressStreak g' = 0" "goalStatus g' = GoalActive"
    using reply_next [OF ok assms(2,3) reply_step [of fp limit "goalUpdatedAt g" g, unfolded if_not_P [OF assms(4)]], of now rest] by auto
  have less: "noProgressStreak g' + 1 < ?l" using two t'(5) by simp
  have "reply_actions i fp limit rest t' = map (\<lambda>k. decideAction k ?l) [2 ..< min (2 + length rest) (?l + 1)]"
    using reply_ladder [OF t'(1,2,6,4) less, of rest] unfolding t'(5) by (simp only: add_0)
  also have "\<dots> = map (\<lambda>k. if k = 1 then BreakerNone else if k < ?l then BreakerNudge else BreakerPause)
      [2 ..< min (2 + length rest) (?l + 1)]"
    by (rule map_cong) (auto simp: decideAction_def)
  finally have rest: "reply_actions i fp limit rest t' = \<dots>" .
  have "[1 ..< min (1 + length nows) (?l + 1)] = 1 # [2 ..< min (2 + length rest) (?l + 1)]"
    using two Cons by (subst upt_conv_Cons) (simp_all add: eval_nat_numeral)
  then show ?thesis using t'(3) by (simp only: rest Cons list.map if_True simp_thms)
qed

lemma breaker_counts_replies_witness:
  "reply_actions ''g'' ''f'' (Finite 3) [11, 12, 13, 14] example_goals = [BreakerNone, BreakerNudge, BreakerPause]"
proof -
  have "[1 ..< min (1 + length [11, 12, 13, 14 :: nat]) (occurrenceLimit (Finite 3) + 1)] = [1, 2, 3]"
    by (simp add: upt_conv_Cons)
  then show ?thesis
    using breaker_counts_replies [OF example_reached example_goal, of "''f''" "Finite 3" "[11, 12, 13, 14]"]
    by (simp add: created_goal_def)
qed

end
