(* ===== verification/JsonArrays.thy ===== *)
theory JsonArrays
  imports JsonText
begin

text \<open>
  \<open>JSON.parse\<close> of any array, as far as the code looks at the result: its elements, those that are
  strings with their value.  A string with an escape beyond the 8-bit characters is an element
  without a value; it differs from every string the code compares with.
\<close>

section \<open>Tokens\<close>

text \<open>Each reader gives the rest of the text behind its token.\<close>

fun json_string_end :: "string \<Rightarrow> string option" where
  "json_string_end [] = None"
| "json_string_end (c # s) =
     (if c = DQ then Some s
      else if c = BS then
        (case s of
           [] \<Rightarrow> None
         | e # r \<Rightarrow>
             if e = CHR ''u'' then
               (if length (take 4 r) = 4 \<and> list_all (\<lambda>h. hex_value h \<noteq> None) (take 4 r) then json_string_end (drop 4 r) else None)
             else if simple_escape e = None then None else json_string_end r)
      else if code c < 32 then None
      else json_string_end s)"

definition json_digits :: "string \<Rightarrow> string option" where
  "json_digits s = (if s \<noteq> [] \<and> is_digit (hd s) then Some (dropWhile is_digit s) else None)"

definition json_fraction :: "string \<Rightarrow> string option" where
  "json_fraction s = (if s \<noteq> [] \<and> hd s = CHR ''.'' then json_digits (tl s) else Some s)"

definition json_exponent :: "string \<Rightarrow> string option" where
  "json_exponent s =
     (if s \<noteq> [] \<and> (hd s = CHR ''e'' \<or> hd s = CHR ''E'')
      then json_digits (if tl s \<noteq> [] \<and> (hd (tl s) = CHR ''+'' \<or> hd (tl s) = CHR ''-'') then tl (tl s) else tl s)
      else Some s)"

definition json_number :: "string \<Rightarrow> string option" where
  "json_number s =
     (let t = (if s \<noteq> [] \<and> hd s = CHR ''-'' then tl s else s)
      in Option.bind (if t \<noteq> [] \<and> hd t = CHR ''0'' then Some (tl t) else json_digits t)
           (\<lambda>r. Option.bind (json_fraction r) json_exponent))"

definition json_literal :: "string \<Rightarrow> string option" where
  "json_literal s =
     (if starts_with ''true'' s \<or> starts_with ''null'' s then Some (drop 4 s)
      else if starts_with ''false'' s then Some (drop 5 s) else None)"

lemma string_end_shorter: "json_string_end s = Some r \<Longrightarrow> length r < length s"
  by (induction s rule: json_string_end.induct) (fastforce split: if_splits list.splits)+

lemma digits_shorter: "json_digits s = Some r \<Longrightarrow> length r < length s"
  by (cases s) (auto simp: json_digits_def less_Suc_eq_le length_dropWhile_le split: if_splits)

lemma fraction_shorter: "json_fraction s = Some r \<Longrightarrow> length r \<le> length s"
  by (cases s) (auto simp: json_fraction_def dest: digits_shorter split: if_splits)

lemma exponent_shorter: "json_exponent s = Some r \<Longrightarrow> length r \<le> length s"
  by (cases s; cases "tl s") (auto simp: json_exponent_def dest: digits_shorter split: if_splits)

lemma number_shorter: "json_number s = Some r \<Longrightarrow> length r < length s"
proof -
  assume r: "json_number s = Some r"
  define t where "t = (if s \<noteq> [] \<and> hd s = CHR ''-'' then tl s else s)"
  have t: "length t \<le> length s" by (cases s) (auto simp: t_def)
  obtain u v where u: "(if t \<noteq> [] \<and> hd t = CHR ''0'' then Some (tl t) else json_digits t) = Some u"
    "json_fraction u = Some v" "json_exponent v = Some r"
    using r by (auto simp: json_number_def t_def [symmetric] Let_def bind_eq_Some_conv)
  have "length u < length t" using u(1) by (cases t) (auto dest: digits_shorter split: if_splits)
  then show ?thesis using t fraction_shorter [OF u(2)] exponent_shorter [OF u(3)] by simp
qed

lemma literal_shorter: "json_literal s = Some r \<Longrightarrow> length r < length s"
  by (cases s) (auto simp: json_literal_def starts_with_def split: if_splits)

lemma ws_shorter: "dropWhile json_ws s = c # r \<Longrightarrow> length r < length s"
  using length_dropWhile_le [of json_ws s] by simp

definition json_scalar :: "char \<Rightarrow> string \<Rightarrow> string option" where
  "json_scalar c r =
     (if c = DQ then json_string_end r
      else if c = CHR ''-'' \<or> is_digit c then json_number (c # r) else json_literal (c # r))"

lemma scalar_shorter: "json_scalar c r = Some r' \<Longrightarrow> length r' < Suc (length r)"
  using string_end_shorter [of r r'] number_shorter [of "c # r" r'] literal_shorter [of "c # r" r']
  by (auto simp: json_scalar_def split: if_splits)

section \<open>Values\<close>

text \<open>What the text must go on with, inside the containers that are open: arrays are \<open>True\<close>.\<close>

datatype json_expect = ExpectValue | ExpectElement | ExpectKey | ExpectFirstKey | AfterValue

function json_skip :: "json_expect \<Rightarrow> bool list \<Rightarrow> string \<Rightarrow> string option" where
  "json_skip e stack s =
     (if e = AfterValue \<and> stack = [] then Some s
      else
        (case dropWhile json_ws s of
           [] \<Rightarrow> None
         | c # r \<Rightarrow>
             (case e of
                AfterValue \<Rightarrow>
                  if hd stack then
                    (if c = CHR '','' then json_skip ExpectValue stack r
                     else if c = CHR '']'' then json_skip AfterValue (tl stack) r else None)
                  else
                    (if c = CHR '','' then json_skip ExpectKey stack r
                     else if c = CHR ''}'' then json_skip AfterValue (tl stack) r else None)
              | _ \<Rightarrow>
                  if e = ExpectFirstKey \<and> c = CHR ''}'' \<or> e = ExpectElement \<and> c = CHR '']''
                  then json_skip AfterValue (tl stack) r
                  else if e = ExpectKey \<or> e = ExpectFirstKey then
                    (if c \<noteq> DQ then None
                     else (case json_string_end r of
                             None \<Rightarrow> None
                           | Some r1 \<Rightarrow> (case dropWhile json_ws r1 of
                               [] \<Rightarrow> None
                             | d # r2 \<Rightarrow> if d = CHR '':'' then json_skip ExpectValue stack r2 else None)))
                  else if c = CHR ''['' then json_skip ExpectElement (True # stack) r
                  else if c = CHR ''{'' then json_skip ExpectFirstKey (False # stack) r
                  else
                    (case json_scalar c r of
                       None \<Rightarrow> None
                     | Some r1 \<Rightarrow> json_skip AfterValue stack r1))))"
  by pat_completeness auto
termination
  by (relation "measure (\<lambda>(e, stack, s). length s)")
    (auto dest!: ws_shorter string_end_shorter scalar_shorter)

lemma skip_done [simp]: "json_skip AfterValue [] s = Some s"
  by simp

declare json_skip.simps [simp del]

lemma skip_shorter: "json_skip e stack s = Some r \<Longrightarrow> length r \<le> length s"
proof (induction s arbitrary: e stack rule: measure_induct_rule [of length])
  case (less s)
  have IH: "json_skip e' stack' t = Some r \<Longrightarrow> length t < length s \<Longrightarrow> length r < length s" for e' stack' t
    using less.IH [of t e' stack'] by simp
  show ?case
    using less.prems
    by (subst (asm) json_skip.simps)
      (force split: if_splits list.splits option.splits json_expect.splits intro: less_imp_le
        dest: IH dest!: ws_shorter string_end_shorter scalar_shorter)
qed

text \<open>The elements of an array, from behind its bracket.\<close>

function json_elements :: "string \<Rightarrow> string option list option" where
  "json_elements s =
     (case json_skip ExpectValue [] s of
        None \<Rightarrow> None
      | Some r \<Rightarrow>
          (let element = (case dropWhile json_ws s of
                 [] \<Rightarrow> None | c # t \<Rightarrow> if c = DQ then map_option fst (json_body t) else None)
           in case dropWhile json_ws r of
                [] \<Rightarrow> None
              | d # r2 \<Rightarrow>
                  if d = CHR '','' then map_option (Cons element) (json_elements r2)
                  else if d = CHR '']'' \<and> dropWhile json_ws r2 = [] then Some [element]
                  else None))"
  by pat_completeness auto
termination
  by (relation "measure length") (auto dest!: ws_shorter skip_shorter)

declare json_elements.simps [simp del]

definition json_array :: "string \<Rightarrow> string option list option" where
  "json_array s =
     (case dropWhile json_ws s of
        [] \<Rightarrow> None
      | b # r \<Rightarrow>
          if b \<noteq> CHR ''['' then None
          else
            (case dropWhile json_ws r of
               [] \<Rightarrow> None
             | d # r2 \<Rightarrow> if d = CHR '']'' then (if dropWhile json_ws r2 = [] then Some [] else None) else json_elements r))"

section \<open>Arrays of strings\<close>

lemma unicode_hex: "unicode_escape h = Some x \<Longrightarrow> length h = 4 \<and> list_all (\<lambda>d. hex_value d \<noteq> None) h"
  by (induction h rule: unicode_escape.induct) (auto split: option.splits)

lemma string_end_body: "json_body s = Some (x, r) \<Longrightarrow> json_string_end s = Some r"
proof (induction s arbitrary: x rule: json_body.induct)
  case (2 c s)
  then show ?case
    by (fastforce split: if_splits option.splits list.splits dest: unicode_hex)
qed simp

lemma elements_join: "xs \<noteq> [] \<Longrightarrow> json_elements (js_join '','' (map json_quote xs) @ '']'') = Some (map Some xs)"
proof (induction xs rule: list_nonempty_induct)
  case (single x)
  have "json_skip ExpectValue [] (json_quote x @ '']'') = Some '']''"
    by (subst json_skip.simps)
      (simp add: json_quote_def json_ws_def json_scalar_def string_end_body [OF json_body_quote])
  then show ?case
    by (subst json_elements.simps) (simp add: json_quote_def json_ws_def json_body_quote)
next
  case (cons x xs)
  then have join: "js_join '','' (map json_quote (x # xs)) @ '']'' =
      json_quote x @ CHR '','' # js_join '','' (map json_quote xs) @ '']''"
    by (simp add: js_join_Cons)
  have "json_skip ExpectValue [] (json_quote x @ CHR '','' # t) = Some (CHR '','' # t)" for t :: string
    by (subst json_skip.simps)
      (simp add: json_quote_def [of x] json_ws_def json_scalar_def string_end_body [OF json_body_quote])
  then show ?case unfolding join using cons.IH
    by (subst json_elements.simps) (simp add: json_quote_def [of x] json_ws_def json_body_quote)
qed

lemma json_array_strings: "xs \<noteq> [] \<Longrightarrow> json_array (json_of_strings xs) = Some (map Some xs)"
proof -
  assume xs: "xs \<noteq> []"
  then obtain y ys where "xs = y # ys" by (cases xs) auto
  then obtain t where "js_join '','' (map json_quote xs) @ '']'' = DQ # t"
    by (cases ys) (auto simp: js_join_Cons json_quote_def)
  then show ?thesis using elements_join [OF xs]
    by (simp add: json_array_def json_of_strings_def json_ws_def)
qed

end
