(* ===== verification/McpNames.thy ===== *)
theory McpNames
  imports JsonArrays Numbers PermissionCore "HOL-Library.List_Lexorder" "HOL-Library.Char_ord"
    "HOL-Library.Product_Lexorder"
begin

text \<open>
  The names under which the tools of MCP servers are offered to the model: \<open>tool-name.ts\<close> and
  \<open>name-registry.ts\<close> of the package \<open>mcp\<close>.  A registry is the list of its server assignments; the
  file behind it is the JSON value it holds.  A thrown error is its message.
\<close>

section \<open>Names\<close>

datatype name_kind = ServerName | ToolName

fun kind_text :: "name_kind \<Rightarrow> string" where
  "kind_text ServerName = ''server''"
| "kind_text ToolName = ''tool''"

definition MCP_RUNTIME_TOOL_NAME_MAX_LENGTH :: int where
  "MCP_RUNTIME_TOOL_NAME_MAX_LENGTH = 80"

definition MCP_RUNTIME_SERVER_SEGMENT_MAX_LENGTH :: int where
  "MCP_RUNTIME_SERVER_SEGMENT_MAX_LENGTH = 48"

text \<open>The control and format characters among the 8-bit ones.\<close>

definition control_char :: "char \<Rightarrow> bool" where
  "control_char c \<longleftrightarrow> code c < 32 \<or> 127 \<le> code c \<and> code c < 160 \<or> code c = 173"

definition segment_char :: "char \<Rightarrow> bool" where
  "segment_char c \<longleftrightarrow> is_alnum c \<or> c = CHR ''_'' \<or> c = CHR ''-''"

text \<open>\<open>replace\<close> of every run of characters of a class by one character.\<close>

fun replace_runs :: "(char \<Rightarrow> bool) \<Rightarrow> char \<Rightarrow> bool \<Rightarrow> string \<Rightarrow> string" where
  "replace_runs p r inside [] = []"
| "replace_runs p r inside (c # s) =
     (if p c then (if inside then replace_runs p r True s else r # replace_runs p r True s)
      else c # replace_runs p r False s)"

definition strip_end :: "string \<Rightarrow> string" where
  "strip_end s = rev (dropWhile (\<lambda>c. c = CHR ''_'') (rev s))"

definition normalizeMcpNameSegment :: "string \<Rightarrow> name_kind \<Rightarrow> string + string" where
  "normalizeMcpNameSegment value kind =
     (if value = [] \<or> list_ex control_char value then Inl (''Invalid MCP '' @ kind_text kind @ '' name'')
      else
        (let segment = strip_end (dropWhile (\<lambda>c. c = CHR ''_'')
               (replace_runs (\<lambda>c. c = CHR ''_'') (CHR ''_'') False
                 (replace_runs (\<lambda>c. \<not> segment_char c) (CHR ''_'') False value)))
         in Inr (if list_ex is_alnum segment then segment else kind_text kind)))"

text \<open>The readable prefix of a length that is not zero, and the check of the length.\<close>

definition readable_prefix :: "string \<Rightarrow> nat \<Rightarrow> name_kind \<Rightarrow> string" where
  "readable_prefix segment n kind =
     (let prefix = strip_end (take n segment)
      in if list_ex is_alnum prefix then prefix else take n (kind_text kind))"

definition shortenMcpNameSegment :: "string \<Rightarrow> int \<Rightarrow> name_kind \<Rightarrow> string + string" where
  "shortenMcpNameSegment segment m kind =
     (if m < 1 then Inl (''MCP '' @ kind_text kind @ '' name has no room for a readable prefix'')
      else Inr (readable_prefix segment (nat m) kind))"

fun and_then :: "'e + 'a \<Rightarrow> ('a \<Rightarrow> 'e + 'b) \<Rightarrow> 'e + 'b" where
  "and_then (Inl e) f = Inl e"
| "and_then (Inr x) f = f x"

definition buildMcpServerRuntimeName :: "string \<Rightarrow> string + string" where
  "buildMcpServerRuntimeName serverName =
     and_then (normalizeMcpNameSegment serverName ServerName) (\<lambda>segment.
       and_then (shortenMcpNameSegment segment MCP_RUNTIME_SERVER_SEGMENT_MAX_LENGTH ServerName) (\<lambda>short.
         Inr (''mcp__'' @ short)))"

definition buildMcpToolRuntimeName :: "string \<Rightarrow> string \<Rightarrow> string + string" where
  "buildMcpToolRuntimeName serverName toolName' =
     and_then (buildMcpServerRuntimeName serverName) (\<lambda>server.
       and_then (normalizeMcpNameSegment toolName' ToolName) (\<lambda>segment.
         and_then (shortenMcpNameSegment segment (MCP_RUNTIME_TOOL_NAME_MAX_LENGTH - int (length server) - 2) ToolName)
           (\<lambda>tool. Inr (server @ ''__'' @ tool))))"

section \<open>The registry\<close>

record tool_assignment =
  toolRaw :: string
  toolSegment :: string

record server_assignment =
  serverKey :: string
  serverRaw :: string
  serverSegment :: string
  serverTools :: "tool_assignment list"

type_synonym name_registry = "server_assignment list"

record name_assignments =
  assignedNames :: "(string \<times> string) list"
  assignErrors :: "(string \<times> string) list"

definition configuredMcpNameKey :: "string \<Rightarrow> string" where
  "configuredMcpNameKey server = json_of_strings [''configured'', server]"

definition pluginMcpNameKey :: "string \<Rightarrow> string \<Rightarrow> string \<Rightarrow> string" where
  "pluginMcpNameKey origin plugin server = json_of_strings [''plugin'', origin, plugin, server]"

text \<open>The identity in a key is a JSON array; a key of any other text has none.\<close>

definition sourcePriority :: "string \<Rightarrow> nat" where
  "sourcePriority key =
     (case json_array key of
        None \<Rightarrow> 2
      | Some identity \<Rightarrow>
          if take 1 identity = [Some ''configured''] then 0
          else if take 2 identity = [Some ''plugin'', Some ''OFFICIAL''] then 1
          else 2)"

lemma source_priority:
  "sourcePriority (configuredMcpNameKey server) = 0"
  "sourcePriority (pluginMcpNameKey origin plugin server) = (if origin = ''OFFICIAL'' then 1 else 2)"
  "sourcePriority ''[\"configured\", 1, {\"a\": [true, -1.5e3]}]'' = 0"
  by (simp_all add: sourcePriority_def configuredMcpNameKey_def pluginMcpNameKey_def json_array_strings) code_simp

record pending_name =
  pendingKey :: string
  pendingBase :: string
  pendingNatural :: bool

text \<open>The first pass: saved names are kept, invalid ones refused, the others wait.\<close>

fun classify_candidates ::
    "(string \<times> string) list \<Rightarrow> name_kind \<Rightarrow> int \<Rightarrow> (string \<times> string) list
     \<Rightarrow> (string \<times> string) list \<times> (string \<times> string) list \<times> pending_name list
     \<Rightarrow> (string \<times> string) list \<times> (string \<times> string) list \<times> pending_name list" where
  "classify_candidates saved kind m [] st = st"
| "classify_candidates saved kind m ((key, name) # cs) (ns, es, ps) =
     classify_candidates saved kind m cs
       (if truthy_opt (map_of saved key) then (AList.update key (the (map_of saved key)) ns, es, ps)
        else
          (case and_then (normalizeMcpNameSegment name kind) (\<lambda>s. shortenMcpNameSegment s m kind) of
             Inl e \<Rightarrow> (ns, AList.update key e es, ps)
           | Inr base \<Rightarrow> (ns, es, ps @ [\<lparr>pendingKey = key, pendingBase = base, pendingNatural = (base = name)\<rparr>])))"

text \<open>The second pass: a base that is free is taken, the others are conflicts.\<close>

fun take_bases ::
    "pending_name list \<Rightarrow> string list \<times> (string \<times> string) list \<times> pending_name list
     \<Rightarrow> string list \<times> (string \<times> string) list \<times> pending_name list" where
  "take_bases [] st = st"
| "take_bases (p # ps) (used, ns, cs) =
     take_bases ps (if pendingBase p \<in> set used then (used, ns, cs @ [p])
       else (pendingBase p # used, AList.update (pendingKey p) (pendingBase p) ns, cs))"

text \<open>The first suffix from a number on that is free, if the name has room for one.\<close>

lemma decimal_bound: "n < 10 ^ length (decimal n)"
proof (induction n rule: decimal.induct)
  case (1 n)
  show ?case
  proof (cases "n < 10")
    case True
    then show ?thesis by (simp add: decimal.simps)
  next
    case False
    then have "n div 10 < 10 ^ length (decimal (n div 10))" using 1 by simp
    then have "n < 10 * 10 ^ length (decimal (n div 10))" by linarith
    then show ?thesis using False by (subst decimal.simps) simp
  qed
qed

definition suffix_of :: "nat \<Rightarrow> string" where
  "suffix_of number = CHR ''_'' # decimal number"

function free_suffix :: "string list \<Rightarrow> string \<Rightarrow> int \<Rightarrow> name_kind \<Rightarrow> nat \<Rightarrow> string option" where
  "free_suffix used base m kind number =
     (if m \<le> int (length (suffix_of number)) then None
      else
        (let candidate = readable_prefix base (nat (m - int (length (suffix_of number)))) kind @ suffix_of number
         in if candidate \<notin> set used then Some candidate
            else free_suffix used base m kind (number + 1)))"
  by pat_completeness auto
termination
proof (relation "measure (\<lambda>(used, base, m, kind, number). 10 ^ nat m - number)", simp, clarsimp)
  fix m :: int and number
  assume "\<not> m \<le> int (length (suffix_of number))"
  then have "length (decimal number) \<le> nat m" by (simp add: suffix_of_def)
  then have "(10::nat) ^ length (decimal number) \<le> 10 ^ nat m" by (intro power_increasing) auto
  then show "10 ^ nat m - Suc number < 10 ^ nat m - number" using decimal_bound [of number] by linarith
qed

declare free_suffix.simps [simp del]

fun resolve_conflicts ::
    "name_kind \<Rightarrow> int \<Rightarrow> pending_name list \<Rightarrow> string list \<times> (string \<times> string) list \<times> (string \<times> string) list
     \<Rightarrow> string list \<times> (string \<times> string) list \<times> (string \<times> string) list" where
  "resolve_conflicts kind m [] st = st"
| "resolve_conflicts kind m (p # ps) (used, ns, es) =
     resolve_conflicts kind m ps
       (case free_suffix used (pendingBase p) m kind 2 of
          None \<Rightarrow> (used, ns, AList.update (pendingKey p)
            (''MCP '' @ kind_text kind @ '' name has no room for a collision suffix'') es)
        | Some candidate \<Rightarrow> (candidate # used, AList.update (pendingKey p) candidate ns, es))"

definition allocate ::
    "(string \<times> string) list \<Rightarrow> (string \<times> string) list \<Rightarrow> name_kind \<Rightarrow> int \<Rightarrow> name_assignments" where
  "allocate cands saved kind m =
     (let unique = sort_key fst (foldl (\<lambda>cs (key, name). AList.update key name cs) [] cands)
      in case classify_candidates saved kind m unique ([], [], []) of
           (ns, es, pending) \<Rightarrow>
             (case take_bases (sort_key (\<lambda>p. (if pendingNatural p then 0 else 1 :: nat, sourcePriority (pendingKey p),
                  pendingKey p)) pending) (map snd saved, ns, []) of
                (used, ns', conflicts) \<Rightarrow>
                  (case resolve_conflicts kind m conflicts (used, ns', es) of
                     (used', ns'', es') \<Rightarrow> \<lparr>assignedNames = ns'', assignErrors = es'\<rparr>)))"

definition saved_servers :: "name_registry \<Rightarrow> (string \<times> string) list" where
  "saved_servers reg = map (\<lambda>e. (serverKey e, serverSegment e)) reg"

fun add_servers :: "(string \<times> string) list \<Rightarrow> (string \<times> string) list \<Rightarrow> name_registry \<Rightarrow> name_registry" where
  "add_servers ns [] reg = reg"
| "add_servers ns ((key, name) # cs) reg =
     add_servers ns cs
       (if truthy_opt (map_of ns key) \<and> key \<notin> set (map serverKey reg)
        then reg @ [\<lparr>serverKey = key, serverRaw = name, serverSegment = the (map_of ns key), serverTools = []\<rparr>]
        else reg)"

definition assignServers :: "(string \<times> string) list \<Rightarrow> name_registry \<Rightarrow> name_assignments \<times> name_registry" where
  "assignServers cands reg =
     (let result = allocate cands (saved_servers reg) ServerName MCP_RUNTIME_SERVER_SEGMENT_MAX_LENGTH
      in (result, add_servers (assignedNames result) cands reg))"

definition saved_tools :: "tool_assignment list \<Rightarrow> (string \<times> string) list" where
  "saved_tools ts = map (\<lambda>t. (toolRaw t, toolSegment t)) ts"

fun add_tools :: "(string \<times> string) list \<Rightarrow> string list \<Rightarrow> tool_assignment list \<Rightarrow> tool_assignment list" where
  "add_tools ns [] ts = ts"
| "add_tools ns (raw # raws) ts =
     add_tools ns raws
       (if truthy_opt (map_of ns raw) \<and> raw \<notin> set (map toolRaw ts)
        then ts @ [\<lparr>toolRaw = raw, toolSegment = the (map_of ns raw)\<rparr>] else ts)"

definition runtime_name :: "string \<Rightarrow> string \<Rightarrow> string" where
  "runtime_name server tool = ''mcp__'' @ server @ ''__'' @ tool"

definition assignTools ::
    "string \<Rightarrow> string list \<Rightarrow> name_registry \<Rightarrow> (string + name_assignments) \<times> name_registry" where
  "assignTools key rawNames reg =
     (case find (\<lambda>e. serverKey e = key) reg of
        None \<Rightarrow> (Inl ''MCP server name has not been allocated'', reg)
      | Some server \<Rightarrow>
          (let result = allocate (map (\<lambda>name. (name, name)) rawNames) (saved_tools (serverTools server)) ToolName
                 (MCP_RUNTIME_TOOL_NAME_MAX_LENGTH - 7 - int (length (serverSegment server)));
               tools = add_tools (assignedNames result) rawNames (serverTools server)
           in (Inr \<lparr>assignedNames = map (\<lambda>(raw, segment). (raw, runtime_name (serverSegment server) segment))
                  (assignedNames result), assignErrors = assignErrors result\<rparr>,
               map (\<lambda>e. if serverKey e = key then e\<lparr>serverTools := tools\<rparr> else e) reg)))"

section \<open>The file of a registry\<close>

text \<open>The automaton of the regular expression for a segment: words of letters, digits and dashes,
  separated by single underscores.\<close>

fun segment_shape :: "bool \<Rightarrow> string \<Rightarrow> bool" where
  "segment_shape inWord [] = inWord"
| "segment_shape inWord (c # s) =
     (if c = CHR ''_'' then inWord \<and> segment_shape False s
      else (is_alnum c \<or> c = CHR ''-'') \<and> segment_shape True s)"

definition validSegment :: "string \<Rightarrow> bool" where
  "validSegment s \<longleftrightarrow> segment_shape False s \<and> list_ex is_alnum s"

definition tool_json :: "tool_assignment \<Rightarrow> jsval" where
  "tool_json t = JObject [(''raw'', JString (toolRaw t)), (''segment'', JString (toolSegment t))]"

definition server_json :: "server_assignment \<Rightarrow> jsval" where
  "server_json e = JObject [(''key'', JString (serverKey e)), (''raw'', JString (serverRaw e)),
     (''segment'', JString (serverSegment e)), (''tools'', JArray (map tool_json (serverTools e)))]"

definition registry_json :: "name_registry \<Rightarrow> jsval" where
  "registry_json reg = JObject [(''version'', JNumber 1), (''servers'', JArray (map server_json reg))]"

fun parse_tools :: "nat \<Rightarrow> string list \<Rightarrow> string list \<Rightarrow> jsval list \<Rightarrow> tool_assignment list option" where
  "parse_tools n raws segs [] = Some []"
| "parse_tools n raws segs (JObject t # ts) =
     (case (string_prop t ''raw'', string_prop t ''segment'') of
        (Some raw, Some seg) \<Rightarrow>
          if validSegment seg \<and> int (length seg + n + 7) \<le> MCP_RUNTIME_TOOL_NAME_MAX_LENGTH
            \<and> raw \<notin> set raws \<and> seg \<notin> set segs
          then map_option (Cons \<lparr>toolRaw = raw, toolSegment = seg\<rparr>) (parse_tools n (raw # raws) (seg # segs) ts)
          else None
      | _ \<Rightarrow> None)"
| "parse_tools n raws segs (v # ts) = None"

fun parse_servers :: "string list \<Rightarrow> string list \<Rightarrow> jsval list \<Rightarrow> string + name_registry" where
  "parse_servers keys segs [] = Inr []"
| "parse_servers keys segs (JObject e # es) =
     (case (string_prop e ''key'', string_prop e ''raw'', string_prop e ''segment'', prop_of e ''tools'') of
        (Some key, Some raw, Some seg, JArray ts) \<Rightarrow>
          if validSegment seg \<and> int (length seg) \<le> MCP_RUNTIME_SERVER_SEGMENT_MAX_LENGTH
            \<and> key \<notin> set keys \<and> seg \<notin> set segs
          then (case parse_tools (length seg) [] [] ts of
              None \<Rightarrow> Inl ''Invalid MCP tool assignment''
            | Some tools \<Rightarrow> and_then (parse_servers (key # keys) (seg # segs) es)
                (\<lambda>rest. Inr (\<lparr>serverKey = key, serverRaw = raw, serverSegment = seg, serverTools = tools\<rparr> # rest)))
          else Inl ''Invalid MCP server assignment''
      | _ \<Rightarrow> Inl ''Invalid MCP server assignment'')"
| "parse_servers keys segs (v # es) = Inl ''Invalid MCP server assignment''"

definition parseState :: "jsval \<Rightarrow> string + name_registry" where
  "parseState v =
     (case v of
        JObject st \<Rightarrow>
          (case (prop_of st ''version'', prop_of st ''servers'') of
             (JNumber n, JArray es) \<Rightarrow>
               if n = 1 then parse_servers [] [] es else Inl ''Invalid MCP name registry''
           | _ \<Rightarrow> Inl ''Invalid MCP name registry'')
      | _ \<Rightarrow> Inl ''Invalid MCP name registry'')"

text \<open>One transaction under the lock of the file: read, run, and write what changed unless it failed.\<close>

definition transaction_on ::
    "(name_registry \<Rightarrow> (string + 'a) \<times> name_registry) \<Rightarrow> jsval option \<Rightarrow> (string + 'a) \<times> jsval option" where
  "transaction_on run file =
     (case (case file of None \<Rightarrow> Inr [] | Some v \<Rightarrow> parseState v) of
        Inl e \<Rightarrow> (Inl e, file)
      | Inr reg \<Rightarrow>
          (case run reg of
             (Inl e, reg') \<Rightarrow> (Inl e, file)
           | (Inr x, reg') \<Rightarrow>
               (Inr x, if registry_json reg' \<noteq> registry_json reg then Some (registry_json reg') else file)))"

end
