(* ===== verification/McpProofs.thy ===== *)
theory McpProofs
  imports McpNames
begin

text \<open>
  The registry of MCP names: the shape of segments, what an allocation gives, the invariant of the
  registry over any sequence of calls, and its properties.
\<close>

section \<open>The shape of segments\<close>

abbreviation US :: char where
  "US \<equiv> CHR ''_''"

text \<open>No two underscores in a row; the flag is whether one is just before.\<close>

fun spaced :: "bool \<Rightarrow> string \<Rightarrow> bool" where
  "spaced prev [] = True"
| "spaced prev (c # s) =
     (if c = US then \<not> prev \<and> spaced True s else (is_alnum c \<or> c = CHR ''-'') \<and> spaced False s)"

lemma shape_spaced: "segment_shape inWord s \<longleftrightarrow> spaced (\<not> inWord) s \<and> (if s = [] then inWord else last s \<noteq> US)"
  by (induction s arbitrary: inWord) auto

lemma spaced_prefix: "spaced b (s @ t) \<Longrightarrow> spaced b s"
  by (induction s arbitrary: b) (auto split: if_splits)

lemma spaced_take: "spaced b s \<Longrightarrow> spaced b (take n s)"
  by (metis append_take_drop_id spaced_prefix)

lemma spaced_drop: "spaced b s \<Longrightarrow> spaced True (dropWhile (\<lambda>c. c = US) s)"
  by (induction s arbitrary: b) (auto split: if_splits)

lemma strip_end_prefix: "\<exists>t. s = strip_end s @ t"
proof -
  have "s = rev (takeWhile (\<lambda>c. c = US) (rev s) @ dropWhile (\<lambda>c. c = US) (rev s))" by simp
  then show ?thesis unfolding strip_end_def by (metis rev_append)
qed

lemma strip_end_last: "strip_end s \<noteq> [] \<Longrightarrow> last (strip_end s) \<noteq> US"
  using hd_dropWhile [of "\<lambda>c. c = US" "rev s"] unfolding strip_end_def by (simp add: last_rev del: dropWhile_eq_Nil_conv)

lemma strip_end_length: "length (strip_end s) \<le> length s"
  by (metis strip_end_prefix length_append le_add1)

lemma shape_strip: "spaced True s \<Longrightarrow> strip_end s \<noteq> [] \<Longrightarrow> segment_shape False (strip_end s)"
  using strip_end_prefix [of s] strip_end_last [of s] by (metis shape_spaced spaced_prefix)

lemma runs_all: "(\<And>c. \<not> p c \<Longrightarrow> q c) \<Longrightarrow> q r \<Longrightarrow> list_all q (replace_runs p r b s)"
  by (induction s arbitrary: b) auto

lemma runs_spaced: "list_all segment_char s \<Longrightarrow> spaced b (replace_runs (\<lambda>c. c = US) US b s)"
  by (induction s arbitrary: b) (auto simp: segment_char_def)

lemma alnum_not_Nil: "list_ex is_alnum s \<Longrightarrow> s \<noteq> []"
  by auto

lemma kind_shape: "0 < n \<Longrightarrow> validSegment (take n (kind_text kind))"
proof -
  assume "0 < n"
  then obtain k where n: "n = Suc k" by (cases n) auto
  have "segment_shape True (take k (CHR ''e'' # ''rver''))" "segment_shape True (take k ''ool'')"
    by (auto simp: take_Cons is_alnum_def is_alpha_def is_lower_def code_def split: nat.split)
  then show ?thesis
    by (cases kind) (auto simp: n validSegment_def is_alnum_def is_alpha_def is_lower_def code_def)
qed

lemma normalized:
  assumes "normalizeMcpNameSegment value kind = Inr s"
  shows "spaced True s" "list_ex is_alnum s"
proof -
  let ?t = "replace_runs (\<lambda>c. c = US) US False (replace_runs (\<lambda>c. \<not> segment_char c) US False value)"
  let ?s = "strip_end (dropWhile (\<lambda>c. c = US) ?t)"
  have s: "s = (if list_ex is_alnum ?s then ?s else kind_text kind)"
    using assms by (auto simp: normalizeMcpNameSegment_def Let_def split: if_splits)
  have "list_all segment_char (replace_runs (\<lambda>c. \<not> segment_char c) US False value)"
    by (rule runs_all) (simp_all add: segment_char_def)
  then have "spaced False ?t" by (rule runs_spaced)
  then have "spaced True (dropWhile (\<lambda>c. c = US) ?t)" by (rule spaced_drop)
  then have "spaced True ?s" by (metis strip_end_prefix spaced_prefix)
  moreover have "validSegment (kind_text kind)" using kind_shape [of "length (kind_text kind)" kind] by (cases kind) simp_all
  ultimately show "spaced True s" "list_ex is_alnum s"
    using s by (auto simp: validSegment_def shape_spaced split: if_splits)
qed

lemma readable_prefix_ok:
  assumes "spaced True s" "0 < n"
  shows "validSegment (readable_prefix s n kind)" "length (readable_prefix s n kind) \<le> n"
proof -
  have "validSegment (strip_end (take n s))" if "list_ex is_alnum (strip_end (take n s))"
    using that shape_strip [OF spaced_take [OF assms(1)], of n] alnum_not_Nil by (auto simp: validSegment_def)
  then show "validSegment (readable_prefix s n kind)"
    using kind_shape [OF assms(2)] by (simp add: readable_prefix_def Let_def)
  have "length (strip_end (take n s)) \<le> n" using strip_end_length [of "take n s"] by simp
  then show "length (readable_prefix s n kind) \<le> n" by (simp add: readable_prefix_def Let_def)
qed

lemma shape_append: "segment_shape b p \<Longrightarrow> segment_shape True q \<Longrightarrow> segment_shape b (p @ q)"
  by (induction p arbitrary: b) auto

lemma shape_digits: "list_all is_digit d \<Longrightarrow> segment_shape True d"
  by (induction d) (auto simp: is_alnum_def is_digit_def code_def)

lemma valid_suffix: "validSegment p \<Longrightarrow> validSegment (p @ suffix_of n)"
proof -
  assume p: "validSegment p"
  have "segment_shape True (suffix_of n)"
    using decimal_digits [of n] shape_digits [of "decimal n"]
    by (cases "decimal n") (auto simp: suffix_of_def is_alnum_def is_digit_def code_def)
  then show ?thesis using p shape_append [of False p "suffix_of n"] by (simp add: validSegment_def)
qed

lemma valid_not_Nil: "validSegment s \<Longrightarrow> s \<noteq> []"
  by (auto simp: validSegment_def)

lemma not_valid_Nil [simp]: "\<not> validSegment []"
  by (simp add: validSegment_def)

lemma valid_spaced: "validSegment s \<Longrightarrow> spaced True s"
  by (simp add: validSegment_def shape_spaced)

text \<open>A segment can be cut out of a public name in one way only.\<close>

lemma spaced_no_double: "spaced b s \<Longrightarrow> \<not> str_includes ''__'' s"
proof (induction s arbitrary: b)
  case (Cons c s)
  then show ?case by (cases s) (auto simp: starts_with_def split: if_splits)
qed simp

lemma shape_no_double: "segment_shape b s \<Longrightarrow> s \<noteq> [] \<Longrightarrow> \<not> str_includes ''__'' (s @ [US])"
proof (induction s arbitrary: b)
  case (Cons c s)
  then show ?case by (cases s) (auto simp: starts_with_def split: if_splits)
qed simp

section \<open>An allocation\<close>

text \<open>
  The names given so far, beside the saved ones: a name that is not saved is valid, short enough and
  new, no name is given twice, and all names are in use.
\<close>

definition fresh_name :: "(string \<times> string) list \<Rightarrow> int \<Rightarrow> string \<Rightarrow> bool" where
  "fresh_name saved m v \<longleftrightarrow> validSegment v \<and> int (length v) \<le> m \<and> v \<notin> snd ` set saved"

definition given_ok :: "(string \<times> string) list \<Rightarrow> int \<Rightarrow> string list \<Rightarrow> (string \<times> string) list \<Rightarrow> bool" where
  "given_ok saved m used ns \<longleftrightarrow> snd ` set saved \<subseteq> set used
     \<and> (\<forall>k v. map_of ns k = Some v \<longrightarrow> v \<in> set used
          \<and> (map_of saved k = Some v \<or> map_of saved k = None \<and> fresh_name saved m v))
     \<and> (\<forall>k k' v. map_of ns k = Some v \<longrightarrow> map_of ns k' = Some v \<longrightarrow> k = k')"

definition waiting_ok :: "(string \<times> string) list \<Rightarrow> int \<Rightarrow> (string \<times> string) list \<Rightarrow> pending_name list \<Rightarrow> bool" where
  "waiting_ok saved m ns ps \<longleftrightarrow> distinct (map pendingKey ps)
     \<and> (\<forall>p \<in> set ps. map_of saved (pendingKey p) = None \<and> map_of ns (pendingKey p) = None
          \<and> validSegment (pendingBase p) \<and> int (length (pendingBase p)) \<le> m)"

lemma given_add:
  assumes "given_ok saved m used ns" "map_of saved k = None" "map_of ns k = None" "v \<notin> set used"
    "validSegment v" "int (length v) \<le> m"
  shows "given_ok saved m (v # used) (AList.update k v ns)"
  using assms unfolding given_ok_def fresh_name_def by (auto simp: update_conv' split: if_splits)

lemma free_suffix_fresh:
  "spaced True base \<Longrightarrow> free_suffix used base m kind n = Some v \<Longrightarrow>
    v \<notin> set used \<and> validSegment v \<and> int (length v) \<le> m"
proof (induction used base m kind n rule: free_suffix.induct)
  case (1 used base m kind n)
  let ?l = "length (suffix_of n)"
  let ?c = "readable_prefix base (nat (m - int ?l)) kind @ suffix_of n"
  have room: "int ?l < m" using 1(3) by (subst (asm) free_suffix.simps) (auto split: if_splits)
  show ?case
  proof (cases "?c \<in> set used")
    case True
    then have "free_suffix used base m kind (n + 1) = Some v"
      using 1(3) room by (subst (asm) free_suffix.simps) (simp add: Let_def)
    then show ?thesis using 1(1) [OF _ refl _ 1(2)] True room by simp
  next
    case False
    then have "v = ?c" using 1(3) room by (subst (asm) free_suffix.simps) (simp add: Let_def)
    moreover have "0 < nat (m - int ?l)" using room by simp
    ultimately show ?thesis
      using False valid_suffix readable_prefix_ok [OF 1(2), of "nat (m - int ?l)" kind] room by auto
  qed
qed

lemma take_bases_ok:
  assumes "given_ok saved m used ns" "waiting_ok saved m ns (ps @ cs)" "take_bases ps (used, ns, cs) = (used', ns', cs')"
  shows "given_ok saved m used' ns' \<and> waiting_ok saved m ns' cs'
    \<and> (\<forall>k. map_of ns k \<noteq> None \<longrightarrow> map_of ns' k = map_of ns k)
    \<and> (\<forall>p \<in> set (ps @ cs). map_of ns' (pendingKey p) \<noteq> None \<or> p \<in> set cs')
    \<and> (\<forall>k. map_of ns' k \<noteq> None \<longrightarrow> map_of ns k \<noteq> None \<or> k \<in> pendingKey ` set ps) \<and> set cs' \<subseteq> set (ps @ cs)"
  using assms
proof (induction ps arbitrary: used ns cs)
  case (Cons p ps)
  have p: "map_of saved (pendingKey p) = None" "map_of ns (pendingKey p) = None" "validSegment (pendingBase p)"
    "int (length (pendingBase p)) \<le> m" "\<forall>q \<in> set (ps @ cs). pendingKey q \<noteq> pendingKey p"
    using Cons.prems(2) by (auto simp: waiting_ok_def image_iff)
  show ?case
  proof (cases "pendingBase p \<in> set used")
    case True
    have "waiting_ok saved m ns (ps @ cs @ [p])" using Cons.prems(2) by (auto simp: waiting_ok_def)
    then show ?thesis using Cons.IH [OF Cons.prems(1), of "cs @ [p]"] Cons.prems(3) True by auto
  next
    case False
    let ?ns = "AList.update (pendingKey p) (pendingBase p) ns"
    have "waiting_ok saved m ?ns (ps @ cs)" using Cons.prems(2) p(5) by (auto simp: waiting_ok_def update_conv')
    from Cons.IH [OF given_add [OF Cons.prems(1) p(1,2) False p(3,4)] this] Cons.prems(3) False
    show ?thesis using p(2) by (auto simp: update_conv' split: if_splits)
  qed
qed simp

lemma resolve_conflicts_ok:
  assumes "given_ok saved m used ns" "waiting_ok saved m ns ps" "resolve_conflicts kind m ps (used, ns, es) = (used', ns', es')"
  shows "given_ok saved m used' ns'
    \<and> (\<forall>k. map_of ns k \<noteq> None \<longrightarrow> map_of ns' k = map_of ns k)
    \<and> (\<forall>k. map_of es k \<noteq> None \<longrightarrow> map_of es' k \<noteq> None)
    \<and> (\<forall>p \<in> set ps. map_of ns' (pendingKey p) \<noteq> None \<or> map_of es' (pendingKey p) \<noteq> None)
    \<and> (\<forall>k. map_of ns' k \<noteq> None \<longrightarrow> map_of ns k \<noteq> None \<or> k \<in> pendingKey ` set ps)"
  using assms
proof (induction ps arbitrary: used ns es)
  case (Cons p ps)
  have p: "map_of saved (pendingKey p) = None" "map_of ns (pendingKey p) = None" "validSegment (pendingBase p)"
    "\<forall>q \<in> set ps. pendingKey q \<noteq> pendingKey p"
    using Cons.prems(2) by (auto simp: waiting_ok_def image_iff)
  show ?case
  proof (cases "free_suffix used (pendingBase p) m kind 2")
    case None
    have "waiting_ok saved m ns ps" using Cons.prems(2) by (auto simp: waiting_ok_def)
    from Cons.IH [OF Cons.prems(1) this] Cons.prems(3) None show ?thesis by (auto simp: update_conv' split: if_splits)
  next
    case (Some v)
    then have v: "v \<notin> set used" "validSegment v" "int (length v) \<le> m"
      using free_suffix_fresh [OF valid_spaced [OF p(3)]] by auto
    let ?ns = "AList.update (pendingKey p) v ns"
    have "waiting_ok saved m ?ns ps" using Cons.prems(2) p(4) by (auto simp: waiting_ok_def update_conv')
    moreover have "resolve_conflicts kind m ps (v # used, ?ns, es) = (used', ns', es')" using Cons.prems(3) Some by simp
    ultimately have IH: "given_ok saved m used' ns'" "\<And>k. map_of ?ns k \<noteq> None \<Longrightarrow> map_of ns' k = map_of ?ns k"
      "\<And>k. map_of es k \<noteq> None \<Longrightarrow> map_of es' k \<noteq> None"
      "\<And>p. p \<in> set ps \<Longrightarrow> map_of ns' (pendingKey p) \<noteq> None \<or> map_of es' (pendingKey p) \<noteq> None"
      "\<And>k. map_of ns' k \<noteq> None \<Longrightarrow> map_of ?ns k \<noteq> None \<or> k \<in> pendingKey ` set ps"
      using Cons.IH [OF given_add [OF Cons.prems(1) p(1,2) v]] by blast+
    have "map_of ns' (pendingKey p) \<noteq> None" using IH(2) [of "pendingKey p"] by (simp add: update_conv')
    moreover have "map_of ns' k = map_of ns k" if "map_of ns k \<noteq> None" for k
      using IH(2) [of k] that p(2) by (auto simp: update_conv' split: if_splits)
    moreover have "map_of ns k \<noteq> None \<or> k \<in> pendingKey ` set (p # ps)" if "map_of ns' k \<noteq> None" for k
      using IH(5) [OF that] by (auto simp: update_conv' split: if_splits)
    ultimately show ?thesis using IH(1,3,4) by auto
  qed
qed simp

definition saved_ok :: "(string \<times> string) list \<Rightarrow> bool" where
  "saved_ok saved \<longleftrightarrow> distinct (map fst saved) \<and> distinct (map snd saved) \<and> (\<forall>v \<in> snd ` set saved. validSegment v)"

lemma saved_inj: "saved_ok saved \<Longrightarrow> map_of saved k = Some v \<Longrightarrow> map_of saved k' = Some v \<Longrightarrow> k = k'"
  unfolding saved_ok_def distinct_map by (metis inj_onD map_of_SomeD prod.inject snd_conv)

lemma saved_value: "map_of saved k = Some v \<Longrightarrow> v \<in> snd ` set saved"
  by (force dest: map_of_SomeD)

lemma given_saved:
  assumes "saved_ok saved" "given_ok saved m used ns" "map_of saved k = Some v"
  shows "given_ok saved m used (AList.update k v ns)"
proof -
  have "k' = k" if n: "map_of ns k' = Some v" for k'
  proof -
    have "map_of saved k' = Some v \<or> fresh_name saved m v" using n assms(2) unfolding given_ok_def by blast
    then show ?thesis using saved_inj [OF assms(1) _ assms(3)] saved_value [OF assms(3)] by (auto simp: fresh_name_def)
  qed
  then show ?thesis using assms(2,3) saved_value [OF assms(3)]
    unfolding given_ok_def by (auto simp: update_conv' split: if_splits)
qed

lemma classify_ok:
  assumes "saved_ok saved" "given_ok saved m used ns" "waiting_ok saved m ns ps" "distinct (map fst cs)"
    "\<And>k. k \<in> fst ` set cs \<Longrightarrow> map_of ns k = None \<and> k \<notin> pendingKey ` set ps"
    "classify_candidates saved kind m cs (ns, es, ps) = (ns', es', ps')"
  shows "given_ok saved m used ns' \<and> waiting_ok saved m ns' ps'
    \<and> (\<forall>k. map_of ns k \<noteq> None \<longrightarrow> map_of ns' k = map_of ns k)
    \<and> (\<forall>k. map_of es k \<noteq> None \<longrightarrow> map_of es' k \<noteq> None) \<and> set ps \<subseteq> set ps'
    \<and> (\<forall>k \<in> fst ` set cs. map_of ns' k \<noteq> None \<or> map_of es' k \<noteq> None \<or> k \<in> pendingKey ` set ps')
    \<and> (\<forall>k \<in> fst ` set cs. map_of saved k \<noteq> None \<longrightarrow> map_of ns' k = map_of saved k)
    \<and> (\<forall>k. map_of ns' k \<noteq> None \<or> k \<in> pendingKey ` set ps' \<longrightarrow>
         map_of ns k \<noteq> None \<or> k \<in> pendingKey ` set ps \<or> k \<in> fst ` set cs)"
  using assms(2-)
proof (induction cs arbitrary: ns es ps)
  case Nil
  then show ?case by simp
next
  case (Cons c cs)
  obtain key name where c: "c = (key, name)" by (cases c)
  have new: "map_of ns key = None" "key \<notin> pendingKey ` set ps" "key \<notin> fst ` set cs"
    and rest: "distinct (map fst cs)" "\<And>k. k \<in> fst ` set cs \<Longrightarrow> map_of ns k = None \<and> k \<notin> pendingKey ` set ps \<and> k \<noteq> key"
    using Cons.prems c by auto
  show ?case
  proof (cases "map_of saved key")
    case (Some v)
    let ?ns = "AList.update key v ns"
    have v: "v \<noteq> []" using assms(1) saved_value [OF Some] valid_not_Nil by (auto simp: saved_ok_def)
    have 1: "given_ok saved m used ?ns" using assms(1) Cons.prems(1) Some by (rule given_saved)
    have 2: "waiting_ok saved m ?ns ps" using Cons.prems(2) new(2) by (auto simp: waiting_ok_def update_conv' image_iff)
    have 3: "map_of ?ns k = None \<and> k \<notin> pendingKey ` set ps" if "k \<in> fst ` set cs" for k
      using rest(2) [OF that] by (simp add: update_conv')
    have run: "classify_candidates saved kind m cs (?ns, es, ps) = (ns', es', ps')"
      using Cons.prems(5) Some v by (simp add: c)
    note IH = Cons.IH [OF 1 2 rest(1) 3 run]
    then have "map_of ns' key = Some v" by (auto simp: update_conv')
    moreover have "map_of ns' k = map_of ns k" if "map_of ns k \<noteq> None" for k
      using IH that new(1) by (auto simp: update_conv' split: if_splits)
    moreover have "map_of ns k \<noteq> None \<or> k \<in> pendingKey ` set ps \<or> k \<in> fst ` set (c # cs)"
      if "map_of ns' k \<noteq> None \<or> k \<in> pendingKey ` set ps'" for k
      using IH that by (auto simp: update_conv' c split: if_splits)
    ultimately show ?thesis using IH Some by (auto simp: c)
  next
    case None
    show ?thesis
    proof (cases "and_then (normalizeMcpNameSegment name kind) (\<lambda>s. shortenMcpNameSegment s m kind)")
      case (Inl e)
      have run: "classify_candidates saved kind m cs (ns, AList.update key e es, ps) = (ns', es', ps')"
        using Cons.prems(5) None Inl by (simp add: c)
      have 1: "map_of ns k = None \<and> k \<notin> pendingKey ` set ps" if "k \<in> fst ` set cs" for k
        using rest(2) [OF that] by simp
      note IH = Cons.IH [OF Cons.prems(1,2) rest(1) 1 run]
      have all: "map_of (AList.update key e es) k \<noteq> None \<longrightarrow> map_of es' k \<noteq> None" for k using IH by blast
      have "map_of es' key \<noteq> None" using all [of key] by (simp add: update_conv')
      moreover have "map_of es' k \<noteq> None" if "map_of es k \<noteq> None" for k
        using all [of k] that by (auto simp: update_conv')
      moreover have "map_of ns k \<noteq> None \<or> k \<in> pendingKey ` set ps \<or> k \<in> fst ` set (c # cs)"
        if "map_of ns' k \<noteq> None \<or> k \<in> pendingKey ` set ps'" for k using IH that by (simp add: c) blast
      ultimately show ?thesis using IH None by (simp add: c)
    next
      case (Inr base)
      let ?p = "\<lparr>pendingKey = key, pendingBase = base, pendingNatural = (base = name)\<rparr>"
      obtain seg where seg: "normalizeMcpNameSegment name kind = Inr seg" "shortenMcpNameSegment seg m kind = Inr base"
        using Inr by (cases "normalizeMcpNameSegment name kind") auto
      have "validSegment base \<and> int (length base) \<le> m"
        using readable_prefix_ok [OF normalized(1) [OF seg(1)], of "nat m" kind] seg(2)
        by (auto simp: shortenMcpNameSegment_def split: if_splits)
      then have 1: "waiting_ok saved m ns (ps @ [?p])" using Cons.prems(2) new None by (auto simp: waiting_ok_def)
      have 2: "map_of ns k = None \<and> k \<notin> pendingKey ` set (ps @ [?p])" if "k \<in> fst ` set cs" for k
        using rest(2) [OF that] by auto
      have run: "classify_candidates saved kind m cs (ns, es, ps @ [?p]) = (ns', es', ps')"
        using Cons.prems(5) None Inr by (simp add: c)
      note IH = Cons.IH [OF Cons.prems(1) 1 rest(1) 2 run]
      then have "?p \<in> set ps'" by auto
      then have "key \<in> pendingKey ` set ps'" by force
      then show ?thesis using IH None by (auto simp: c)
    qed
  qed
qed

text \<open>The candidates by their keys.\<close>

definition by_keys :: "(string \<times> string) list \<Rightarrow> (string \<times> string) list" where
  "by_keys cands = sort_key fst (foldl (\<lambda>cs (key, name). AList.update key name cs) [] cands)"

lemma foldl_update_keys:
  "distinct (map fst acc) \<Longrightarrow>
    distinct (map fst (foldl (\<lambda>cs (key, name). AList.update key name cs) acc cands))
    \<and> fst ` set (foldl (\<lambda>cs (key, name). AList.update key name cs) acc cands) = fst ` set acc \<union> fst ` set cands"
proof (induction cands arbitrary: acc)
  case (Cons c cands)
  have "distinct (map fst (AList.update (fst c) (snd c) acc))" using Cons.prems by (rule distinct_update)
  from Cons.IH [OF this] show ?case by (cases c) (simp add: dom_update flip: insert_is_Un)
qed simp

lemma by_keys: "distinct (map fst (by_keys cands))" "fst ` set (by_keys cands) = fst ` set cands"
  using foldl_update_keys [of "[]" cands] by (auto simp: by_keys_def distinct_map)

text \<open>What an allocation gives: saved names stay, new ones are fresh, and every candidate is answered.\<close>

definition allocation_ok ::
    "string set \<Rightarrow> (string \<times> string) list \<Rightarrow> int \<Rightarrow> name_assignments \<Rightarrow> bool" where
  "allocation_ok keys saved m r \<longleftrightarrow>
     (\<forall>k \<in> keys. map_of saved k \<noteq> None \<longrightarrow> map_of (assignedNames r) k = map_of saved k)
     \<and> (\<forall>k v. map_of (assignedNames r) k = Some v \<longrightarrow>
          k \<in> keys \<and> (map_of saved k = Some v \<or> map_of saved k = None \<and> fresh_name saved m v))
     \<and> (\<forall>k k' v. map_of (assignedNames r) k = Some v \<longrightarrow> map_of (assignedNames r) k' = Some v \<longrightarrow> k = k')
     \<and> (\<forall>k \<in> keys. map_of (assignedNames r) k \<noteq> None \<or> map_of (assignErrors r) k \<noteq> None)"

lemma waiting_sort: "waiting_ok saved m ns ps \<Longrightarrow> waiting_ok saved m ns (sort_key f ps @ [])"
  by (auto simp: waiting_ok_def distinct_map)

lemma allocate_ok:
  assumes "saved_ok saved"
  shows "allocation_ok (fst ` set cands) saved m (allocate cands saved kind m)"
proof -
  obtain ns es ps where c: "classify_candidates saved kind m (by_keys cands) ([], [], []) = (ns, es, ps)"
    by (rule prod_cases3)
  let ?ps = "sort_key (\<lambda>p. (if pendingNatural p then 0 else 1 :: nat, sourcePriority (pendingKey p), pendingKey p)) ps"
  obtain used ns' cs where t: "take_bases ?ps (map snd saved, ns, []) = (used, ns', cs)" by (rule prod_cases3)
  obtain used' ns'' es' where r: "resolve_conflicts kind m cs (used, ns', es) = (used', ns'', es')" by (rule prod_cases3)
  have all: "allocate cands saved kind m = \<lparr>assignedNames = ns'', assignErrors = es'\<rparr>"
    using c t r by (simp add: allocate_def by_keys_def Let_def)
  have start: "given_ok saved m (map snd saved) []" "waiting_ok saved m [] []"
    by (auto simp: given_ok_def waiting_ok_def)
  have none: "map_of [] k = None \<and> k \<notin> pendingKey ` set []" for k by simp
  note c_ok = classify_ok [OF assms start by_keys(1) none c, unfolded by_keys(2)]
  have C: "given_ok saved m (map snd saved) ns" "waiting_ok saved m ns ps" using c_ok by blast+
  have C1: "\<forall>k \<in> fst ` set cands. map_of ns k \<noteq> None \<or> map_of es k \<noteq> None \<or> k \<in> pendingKey ` set ps"
    and C2: "\<forall>k \<in> fst ` set cands. map_of saved k \<noteq> None \<longrightarrow> map_of ns k = map_of saved k"
    and C3: "map_of ns k \<noteq> None \<or> k \<in> pendingKey ` set ps \<longrightarrow> k \<in> fst ` set cands" for k
    using c_ok by (blast, blast, auto)
  note t_ok = take_bases_ok [OF C(1) waiting_sort [OF C(2)] t, simplified]
  have T: "given_ok saved m used ns'" "waiting_ok saved m ns' cs" "set cs \<subseteq> set ps" using t_ok by blast+
  have T1: "\<forall>p \<in> set ps. map_of ns' (pendingKey p) \<noteq> None \<or> p \<in> set cs"
    and T2: "map_of ns k \<noteq> None \<Longrightarrow> map_of ns' k = map_of ns k"
    and T3: "map_of ns' k \<noteq> None \<Longrightarrow> map_of ns k \<noteq> None \<or> k \<in> pendingKey ` set ps" for k
    using t_ok by auto
  note r_ok = resolve_conflicts_ok [OF T(1,2) r]
  have R: "given_ok saved m used' ns''" using r_ok by blast
  have R1: "\<forall>p \<in> set cs. map_of ns'' (pendingKey p) \<noteq> None \<or> map_of es' (pendingKey p) \<noteq> None"
    and R2: "map_of ns' k \<noteq> None \<Longrightarrow> map_of ns'' k = map_of ns' k"
    and R3: "map_of es k \<noteq> None \<Longrightarrow> map_of es' k \<noteq> None"
    and R4: "map_of ns'' k \<noteq> None \<Longrightarrow> map_of ns' k \<noteq> None \<or> k \<in> pendingKey ` set cs" for k
    using r_ok by blast+
  have kept: "map_of ns'' k = map_of saved k" if "k \<in> fst ` set cands" "map_of saved k \<noteq> None" for k
    using C2 [rule_format, OF that] that(2) T2 [of k] R2 [of k] by simp
  have within: "k \<in> fst ` set cands" if "map_of ns'' k \<noteq> None" for k
    using R4 [OF that] T3 [of k] C3 [of k] T(3) by blast
  have answered: "map_of ns'' k \<noteq> None \<or> map_of es' k \<noteq> None" if key: "k \<in> fst ` set cands" for k
  proof -
    consider "map_of ns k \<noteq> None" | "map_of es k \<noteq> None" | p where "p \<in> set ps" "pendingKey p = k"
      using C1 [rule_format, OF key] by auto
    then show ?thesis
    proof cases
      case 1
      then show ?thesis using T2 [of k] R2 [of k] by presburger
    next
      case 2
      then show ?thesis using R3 by blast
    next
      case 3
      then show ?thesis using T1 [rule_format, OF 3(1)] R1 [rule_format, of p] R2 [of k] by auto
    qed
  qed
  have fresh: "\<forall>k v. map_of ns'' k = Some v \<longrightarrow> map_of saved k = Some v \<or> map_of saved k = None \<and> fresh_name saved m v"
    and inj: "\<forall>k k' v. map_of ns'' k = Some v \<longrightarrow> map_of ns'' k' = Some v \<longrightarrow> k = k'"
    using R unfolding given_ok_def by blast+
  have "\<forall>k v. map_of ns'' k = Some v \<longrightarrow> k \<in> fst ` set cands
      \<and> (map_of saved k = Some v \<or> map_of saved k = None \<and> fresh_name saved m v)"
    using within fresh by auto
  moreover have "\<forall>k \<in> fst ` set cands. map_of saved k \<noteq> None \<longrightarrow> map_of ns'' k = map_of saved k"
    using kept by blast
  moreover have "\<forall>k \<in> fst ` set cands. map_of ns'' k \<noteq> None \<or> map_of es' k \<noteq> None" using answered by blast
  ultimately show ?thesis unfolding allocation_ok_def all name_assignments.simps using inj by (intro conjI)
qed

end
