(* ===== verification/McpRegistry.thy ===== *)
theory McpRegistry
  imports McpProofs
begin

text \<open>
  The registry of MCP names over any sequence of its calls: its invariant, that assignments are
  permanent, that public names identify the tools, the rules of the permissions that name a server,
  and the registry behind a file.
\<close>

section \<open>Adding what an allocation gave\<close>

lemma saved_servers_append [simp]: "saved_servers (a @ b) = saved_servers a @ saved_servers b"
  by (simp add: saved_servers_def)

lemma saved_tools_append [simp]: "saved_tools (a @ b) = saved_tools a @ saved_tools b"
  by (simp add: saved_tools_def)

lemma saved_fst [simp]: "map fst (saved_servers reg) = map serverKey reg" "map fst (saved_tools ts) = map toolRaw ts"
  by (simp_all add: saved_servers_def saved_tools_def comp_def)

text \<open>The additions to a table of saved names: new keys, each with its name.\<close>

definition adds :: "(string \<times> string) list \<Rightarrow> string set \<Rightarrow> (string \<times> string) list \<Rightarrow> (string \<times> string) list \<Rightarrow> bool" where
  "adds ns keys saved new \<longleftrightarrow> distinct (map fst (saved @ new))
     \<and> (\<forall>(k, v) \<in> set new. map_of ns k = Some v)
     \<and> (\<forall>k \<in> keys. \<forall>v. map_of ns k = Some v \<longrightarrow> v \<noteq> [] \<longrightarrow> k \<in> fst ` set (saved @ new))"

lemma adds_none: "distinct (map fst saved) \<Longrightarrow> adds ns {} saved []"
  by (simp add: adds_def)

lemma adds_skip:
  "adds ns keys saved new \<Longrightarrow> \<not> (truthy_opt (map_of ns k) \<and> k \<notin> fst ` set saved) \<Longrightarrow> adds ns (insert k keys) saved new"
  by (auto simp: adds_def truthy_opt_def split: option.splits)

lemma adds_one:
  "adds ns keys (saved @ [(k, the (map_of ns k))]) new \<Longrightarrow> truthy_opt (map_of ns k) \<Longrightarrow>
    adds ns (insert k keys) saved ((k, the (map_of ns k)) # new)"
  by (auto simp: adds_def truthy_opt_def split: option.splits)

lemma add_servers_adds:
  "distinct (map serverKey reg) \<Longrightarrow> \<exists>new. add_servers ns cs reg = reg @ new
     \<and> adds ns (fst ` set cs) (saved_servers reg) (saved_servers new) \<and> (\<forall>e \<in> set new. serverTools e = [])"
proof (induction cs arbitrary: reg)
  case Nil
  then show ?case by (intro exI [of _ "[]"]) (simp add: saved_servers_def adds_def comp_def)
next
  case (Cons c cs)
  obtain k name where c: "c = (k, name)" by (cases c)
  show ?case
  proof (cases "truthy_opt (map_of ns k) \<and> k \<notin> set (map serverKey reg)")
    case True
    let ?e = "\<lparr>serverKey = k, serverRaw = name, serverSegment = the (map_of ns k), serverTools = []\<rparr>"
    have "distinct (map serverKey (reg @ [?e]))" using Cons.prems True by simp
    from Cons.IH [OF this] obtain new where new: "add_servers ns cs (reg @ [?e]) = (reg @ [?e]) @ new"
      "adds ns (fst ` set cs) (saved_servers reg @ [(k, the (map_of ns k))]) (saved_servers new)"
      "\<forall>e \<in> set new. serverTools e = []"
      by (auto simp: saved_servers_def)
    have "adds ns (fst ` set (c # cs)) (saved_servers reg) (saved_servers (?e # new))"
      using adds_one [OF new(2)] True by (simp add: c saved_servers_def)
    then show ?thesis using new(1,3) True by (intro exI [of _ "?e # new"]) (simp add: c)
  next
    case False
    from Cons.IH [OF Cons.prems] obtain new where new: "add_servers ns cs reg = reg @ new"
      "adds ns (fst ` set cs) (saved_servers reg) (saved_servers new)" "\<forall>e \<in> set new. serverTools e = []" by blast
    have "k \<notin> fst ` set (saved_servers reg) \<longleftrightarrow> k \<notin> set (map serverKey reg)" by (auto simp: saved_servers_def image_iff)
    then have "adds ns (fst ` set (c # cs)) (saved_servers reg) (saved_servers new)"
      using adds_skip [OF new(2), of k] False by (simp add: c)
    moreover have "add_servers ns (c # cs) reg = reg @ new" unfolding c add_servers.simps if_not_P [OF False] by (rule new(1))
    ultimately show ?thesis using new(3) by blast
  qed
qed

lemma add_tools_adds:
  "distinct (map toolRaw ts) \<Longrightarrow> \<exists>new. add_tools ns raws ts = ts @ new
     \<and> adds ns (set raws) (saved_tools ts) (saved_tools new)"
proof (induction raws arbitrary: ts)
  case Nil
  then show ?case by (intro exI [of _ "[]"]) (simp add: saved_tools_def adds_def comp_def)
next
  case (Cons k raws)
  show ?case
  proof (cases "truthy_opt (map_of ns k) \<and> k \<notin> set (map toolRaw ts)")
    case True
    let ?e = "\<lparr>toolRaw = k, toolSegment = the (map_of ns k)\<rparr>"
    have "distinct (map toolRaw (ts @ [?e]))" using Cons.prems True by simp
    from Cons.IH [OF this] obtain new where new: "add_tools ns raws (ts @ [?e]) = (ts @ [?e]) @ new"
      "adds ns (set raws) (saved_tools ts @ [(k, the (map_of ns k))]) (saved_tools new)"
      by (auto simp: saved_tools_def)
    have "adds ns (set (k # raws)) (saved_tools ts) (saved_tools (?e # new))"
      using adds_one [OF new(2)] True by (simp add: saved_tools_def)
    then show ?thesis using new(1) True by (intro exI [of _ "?e # new"]) simp
  next
    case False
    from Cons.IH [OF Cons.prems] obtain new where new: "add_tools ns raws ts = ts @ new"
      "adds ns (set raws) (saved_tools ts) (saved_tools new)" by blast
    have "k \<notin> fst ` set (saved_tools ts) \<longleftrightarrow> k \<notin> set (map toolRaw ts)" by (auto simp: saved_tools_def image_iff)
    then have "adds ns (set (k # raws)) (saved_tools ts) (saved_tools new)"
      using adds_skip [OF new(2), of k] False by simp
    moreover have "add_tools ns (k # raws) ts = ts @ new" unfolding add_tools.simps if_not_P [OF False] by (rule new(1))
    ultimately show ?thesis by blast
  qed
qed

lemma allocationD:
  "allocation_ok keys saved m r \<Longrightarrow> map_of (assignedNames r) k = Some v \<Longrightarrow>
    k \<in> keys \<and> (map_of saved k = Some v \<or> map_of saved k = None \<and> fresh_name saved m v)"
  unfolding allocation_ok_def by blast

lemma adds_values:
  assumes "saved_ok saved" "allocation_ok keys saved m r" "adds (assignedNames r) keys saved new" "(k, v) \<in> set new"
  shows "fresh_name saved m v"
proof -
  have "map_of (assignedNames r) k = Some v" using assms(3,4) by (auto simp: adds_def)
  moreover have "fst ` set saved \<inter> fst ` set new = {}" using assms(3) by (simp add: adds_def)
  then have "map_of saved k = None" using imageI [OF assms(4), of fst] by (auto simp: map_of_eq_None_iff)
  ultimately show ?thesis using allocationD [OF assms(2)] by fastforce
qed

lemma adds_ok:
  assumes "saved_ok saved" "allocation_ok keys saved m r" "adds (assignedNames r) keys saved new"
  shows "saved_ok (saved @ new)"
proof -
  note fresh = adds_values [OF assms]
  have "inj_on snd (set new)"
  proof (rule inj_onI, clarsimp)
    fix k k' v
    assume "(k, v) \<in> set new" "(k', v) \<in> set new"
    then have "map_of (assignedNames r) k = Some v" "map_of (assignedNames r) k' = Some v"
      using assms(3) by (auto simp: adds_def)
    then show "k = k'" using assms(2) unfolding allocation_ok_def by blast
  qed
  moreover have "distinct new" using assms(3) by (auto simp: adds_def distinct_map)
  moreover have "snd ` set saved \<inter> snd ` set new = {}" "\<forall>v \<in> snd ` set new. validSegment v"
    using fresh by (force simp: fresh_name_def)+
  ultimately show ?thesis using assms(1,3) by (auto simp: saved_ok_def adds_def distinct_map)
qed

text \<open>After the addition, the table holds every name that the allocation gave.\<close>

lemma adds_lookup:
  assumes "saved_ok saved" "allocation_ok keys saved m r" "adds (assignedNames r) keys saved new"
    "map_of (assignedNames r) k = Some v"
  shows "map_of (saved @ new) k = Some v"
proof -
  have k: "k \<in> keys" "map_of saved k = Some v \<or> map_of saved k = None \<and> fresh_name saved m v"
    using allocationD [OF assms(2,4)] by blast+
  have "v \<noteq> []" using k(2) assms(1) saved_value [of saved k v] by (auto simp: saved_ok_def fresh_name_def)
  then have "k \<in> fst ` set (saved @ new)" using assms(3,4) k(1) unfolding adds_def by blast
  moreover have "w = v" if "(k, w) \<in> set new" for w using assms(3,4) that by (auto simp: adds_def)
  ultimately have "(k, v) \<in> set (saved @ new)" using k(2) by (auto simp: map_of_eq_None_iff dest: map_of_SomeD)
  then show ?thesis using assms(3) unfolding adds_def by (intro map_of_is_SomeI) blast+
qed

section \<open>The invariant\<close>

definition server_ok :: "server_assignment \<Rightarrow> bool" where
  "server_ok e \<longleftrightarrow> int (length (serverSegment e)) \<le> MCP_RUNTIME_SERVER_SEGMENT_MAX_LENGTH
     \<and> saved_ok (saved_tools (serverTools e))
     \<and> (\<forall>v \<in> snd ` set (saved_tools (serverTools e)).
          int (length v) \<le> MCP_RUNTIME_TOOL_NAME_MAX_LENGTH - 7 - int (length (serverSegment e)))"

definition registry_ok :: "name_registry \<Rightarrow> bool" where
  "registry_ok reg \<longleftrightarrow> saved_ok (saved_servers reg) \<and> (\<forall>e \<in> set reg. server_ok e)"

text \<open>A call of the registry, its answer and its effect.\<close>

datatype name_call =
    AssignServers "(string \<times> string) list"
  | AssignTools string "string list"

fun answer :: "name_call \<Rightarrow> name_registry \<Rightarrow> (string + name_assignments) \<times> name_registry" where
  "answer (AssignServers cands) reg = (Inr (fst (assignServers cands reg)), snd (assignServers cands reg))"
| "answer (AssignTools key raws) reg = assignTools key raws reg"

definition after_call :: "name_call \<Rightarrow> name_registry \<Rightarrow> name_registry" where
  "after_call c reg = snd (answer c reg)"

lemma assign_servers:
  assumes "registry_ok reg" "assignServers cands reg = (r, reg')"
  shows "\<exists>new. reg' = reg @ new \<and> adds (assignedNames r) (fst ` set cands) (saved_servers reg) (saved_servers new)
      \<and> (\<forall>e \<in> set new. serverTools e = [])"
    and "allocation_ok (fst ` set cands) (saved_servers reg) MCP_RUNTIME_SERVER_SEGMENT_MAX_LENGTH r"
  using assms add_servers_adds [of reg "assignedNames r" cands] allocate_ok [of "saved_servers reg"]
  by (auto simp: assignServers_def Let_def registry_ok_def saved_ok_def)

text \<open>An answer to a call for tools, and the tools that the server then has.\<close>

lemma assign_tools:
  assumes "registry_ok reg" "assignTools key raws reg = (Inr r, reg')"
  obtains e q new where "find (\<lambda>e. serverKey e = key) reg = Some e" "e \<in> set reg" "serverKey e = key"
    "allocation_ok (set raws) (saved_tools (serverTools e))
       (MCP_RUNTIME_TOOL_NAME_MAX_LENGTH - 7 - int (length (serverSegment e))) q"
    "adds (assignedNames q) (set raws) (saved_tools (serverTools e)) (saved_tools new)"
    "assignedNames r = map (\<lambda>(raw, segment). (raw, runtime_name (serverSegment e) segment)) (assignedNames q)"
    "assignErrors r = assignErrors q"
    "reg' = map (\<lambda>x. if serverKey x = key then x\<lparr>serverTools := serverTools e @ new\<rparr> else x) reg"
proof -
  obtain e where find: "find (\<lambda>e. serverKey e = key) reg = Some e"
    using assms(2) by (cases "find (\<lambda>e. serverKey e = key) reg") (simp_all add: assignTools_def)
  then have e: "find (\<lambda>e. serverKey e = key) reg = Some e" "e \<in> set reg" "serverKey e = key"
    by (auto simp: find_Some_iff)
  let ?m = "MCP_RUNTIME_TOOL_NAME_MAX_LENGTH - 7 - int (length (serverSegment e))"
  let ?q = "allocate (map (\<lambda>name. (name, name)) raws) (saved_tools (serverTools e)) ToolName ?m"
  have ok: "saved_ok (saved_tools (serverTools e))" using assms(1) e(2) by (auto simp: registry_ok_def server_ok_def)
  then have "distinct (map toolRaw (serverTools e))" by (simp add: saved_ok_def)
  from add_tools_adds [OF this, of "assignedNames ?q" raws] obtain new where
    new: "add_tools (assignedNames ?q) raws (serverTools e) = serverTools e @ new"
    "adds (assignedNames ?q) (set raws) (saved_tools (serverTools e)) (saved_tools new)" by blast
  moreover have "allocation_ok (set raws) (saved_tools (serverTools e)) ?m ?q"
    using allocate_ok [OF ok, of "map (\<lambda>name. (name, name)) raws"] by (simp add: image_comp comp_def)
  ultimately show ?thesis using e assms(2) by (intro that [of e ?q new]) (auto simp: assignTools_def Let_def)
qed

lemma find_distinct:
  "distinct (map serverKey reg) \<Longrightarrow> e \<in> set reg \<Longrightarrow> find (\<lambda>x. serverKey x = serverKey e) reg = Some e"
  by (induction reg) (auto simp: image_iff)

lemma find_key:
  "registry_ok reg \<Longrightarrow> e \<in> set reg \<Longrightarrow> find (\<lambda>x. serverKey x = serverKey e) reg = Some e"
  by (rule find_distinct) (simp_all add: registry_ok_def saved_ok_def)

lemma registry_step: "registry_ok reg \<Longrightarrow> registry_ok (after_call c reg)"
proof (cases c)
  case (AssignServers cands)
  assume ok: "registry_ok reg"
  obtain r reg' where a: "assignServers cands reg = (r, reg')" by fastforce
  note alloc = assign_servers(2) [OF ok a]
  obtain new where new: "reg' = reg @ new" "\<forall>e \<in> set new. serverTools e = []"
    "adds (assignedNames r) (fst ` set cands) (saved_servers reg) (saved_servers new)"
    using assign_servers(1) [OF ok a] by blast
  have saved: "saved_ok (saved_servers reg)" using ok by (simp add: registry_ok_def)
  have "saved_ok (saved_servers reg')" using adds_ok [OF saved alloc new(3)] new(1) by simp
  moreover have "server_ok e" if e: "e \<in> set new" for e
  proof -
    have "(serverKey e, serverSegment e) \<in> set (saved_servers new)" using e by (auto simp: saved_servers_def)
    from adds_values [OF saved alloc new(3) this] show ?thesis
      using new(2) e by (simp add: server_ok_def fresh_name_def saved_tools_def saved_ok_def)
  qed
  ultimately show ?thesis using ok new(1) AssignServers a by (auto simp: registry_ok_def after_call_def)
next
  case (AssignTools key raws)
  assume ok: "registry_ok reg"
  show ?thesis
  proof (cases "fst (assignTools key raws reg)")
    case (Inl msg)
    then have "snd (assignTools key raws reg) = reg" by (auto simp: assignTools_def Let_def split: option.splits)
    then show ?thesis using ok AssignTools by (simp add: after_call_def)
  next
    case (Inr r)
    then obtain reg' where "assignTools key raws reg = (Inr r, reg')" by (metis prod.collapse)
    from assign_tools [OF ok this] obtain e q new where e: "e \<in> set reg" "serverKey e = key"
      and alloc: "allocation_ok (set raws) (saved_tools (serverTools e))
         (MCP_RUNTIME_TOOL_NAME_MAX_LENGTH - 7 - int (length (serverSegment e))) q"
      and new: "adds (assignedNames q) (set raws) (saved_tools (serverTools e)) (saved_tools new)"
      and reg': "reg' = map (\<lambda>x. if serverKey x = key then x\<lparr>serverTools := serverTools e @ new\<rparr> else x) reg"
      by blast
    have e_ok: "server_ok e" using ok e(1) by (simp add: registry_ok_def)
    then have saved: "saved_ok (saved_tools (serverTools e))" by (simp add: server_ok_def)
    have "int (length v) \<le> MCP_RUNTIME_TOOL_NAME_MAX_LENGTH - 7 - int (length (serverSegment e))"
      if "(k, v) \<in> set (saved_tools new)" for k v
      using adds_values [OF saved alloc new that] by (simp add: fresh_name_def)
    then have "server_ok (e\<lparr>serverTools := serverTools e @ new\<rparr>)"
      using e_ok adds_ok [OF saved alloc new] by (auto simp: server_ok_def)
    moreover have "x = e" if "x \<in> set reg" "serverKey x = key" for x
      using find_key [OF ok that(1)] find_key [OF ok e(1)] that(2) e(2) by simp
    moreover have "saved_servers reg' = saved_servers reg" by (simp add: saved_servers_def reg' comp_def if_distrib cong: if_cong)
    ultimately have "registry_ok reg'" using ok by (auto simp: registry_ok_def reg')
    then show ?thesis using AssignTools \<open>assignTools key raws reg = (Inr r, reg')\<close> by (simp add: after_call_def)
  qed
qed

interpretation names: event_system "[]" "\<lambda>_ _. True" after_call registry_ok
  by unfold_locales (simp add: registry_ok_def saved_ok_def saved_servers_def, rule registry_step)

section \<open>Public names\<close>

definition tool_of :: "name_registry \<Rightarrow> string \<Rightarrow> string \<Rightarrow> string option" where
  "tool_of reg key raw =
     (case find (\<lambda>e. serverKey e = key) reg of
        None \<Rightarrow> None
      | Some e \<Rightarrow> map_option (runtime_name (serverSegment e)) (map_of (saved_tools (serverTools e)) raw))"

lemma tool_ofE:
  assumes "registry_ok reg" "tool_of reg key raw = Some n"
  obtains e t where "e \<in> set reg" "serverKey e = key" "map_of (saved_tools (serverTools e)) raw = Some t"
    "n = runtime_name (serverSegment e) t" "validSegment (serverSegment e)" "validSegment t" "server_ok e"
proof -
  from assms(2) obtain e t where e: "find (\<lambda>e. serverKey e = key) reg = Some e"
    "map_of (saved_tools (serverTools e)) raw = Some t" "n = runtime_name (serverSegment e) t"
    by (auto simp: tool_of_def split: option.splits)
  then have e': "e \<in> set reg" "serverKey e = key" by (auto simp: find_Some_iff)
  moreover have "serverSegment e \<in> snd ` set (saved_servers reg)" using e'(1) by (force simp: saved_servers_def)
  then have "validSegment (serverSegment e)" using assms(1) unfolding registry_ok_def saved_ok_def by blast
  moreover have "server_ok e" using assms(1) e'(1) by (simp add: registry_ok_def)
  moreover have "validSegment t" using \<open>server_ok e\<close> saved_value [OF e(2)] unfolding server_ok_def saved_ok_def by blast
  ultimately show ?thesis using that e by blast
qed

lemma double_not_spaced: "\<not> spaced b (s @ US # US # t)"
  by (induction s arbitrary: b) auto

lemma cut_first:
  assumes "validSegment (s @ u)" "u @ US # US # t' = US # US # t"
  shows "u = []"
proof (cases u)
  case (Cons c v)
  show ?thesis
  proof (cases v)
    case Nil
    then show ?thesis using assms Cons by (auto simp: validSegment_def shape_spaced)
  next
    case (Cons d w)
    then show ?thesis using assms(2) \<open>u = c # v\<close> valid_spaced [OF assms(1)] double_not_spaced [of True s w] by auto
  qed
qed

lemma runtime_name_inj:
  assumes "validSegment s" "validSegment s'" "runtime_name s t = runtime_name s' t'"
  shows "s = s' \<and> t = t'"
proof -
  have "s @ US # US # t = s' @ US # US # t'" using assms(3) by (simp add: runtime_name_def)
  then obtain u where "s = s' @ u \<and> u @ US # US # t = US # US # t' \<or> s @ u = s' \<and> US # US # t = u @ US # US # t'"
    unfolding append_eq_append_conv2 by blast
  then show ?thesis
  proof
    assume s: "s = s' @ u \<and> u @ US # US # t = US # US # t'"
    then have "u = []" using assms(1) cut_first by blast
    then show ?thesis using s by simp
  next
    assume s: "s @ u = s' \<and> US # US # t = u @ US # US # t'"
    then have "u = []" using assms(2) cut_first [of s u t' t] by metis
    then show ?thesis using s by simp
  qed
qed

lemma tool_inj:
  assumes "registry_ok reg" "tool_of reg k raw = Some n" "tool_of reg k' raw' = Some n"
  shows "k = k' \<and> raw = raw'"
proof -
  from assms(1,2) obtain e t where e: "e \<in> set reg" "serverKey e = k" "map_of (saved_tools (serverTools e)) raw = Some t"
    "n = runtime_name (serverSegment e) t" "validSegment (serverSegment e)" "server_ok e" by (rule tool_ofE)
  from assms(1,3) obtain e' t' where e': "e' \<in> set reg" "serverKey e' = k'"
    "map_of (saved_tools (serverTools e')) raw' = Some t'" "n = runtime_name (serverSegment e') t'"
    "validSegment (serverSegment e')" by (rule tool_ofE)
  have same: "serverSegment e = serverSegment e'" "t = t'" using runtime_name_inj [OF e(5) e'(5), of t t'] e(4) e'(4) by auto
  have "distinct (map snd (saved_servers reg))" using assms(1) by (simp add: registry_ok_def saved_ok_def)
  then have "e = e'" using same(1) e(1) e'(1) by (auto simp: saved_servers_def distinct_map comp_def inj_on_def)
  then show ?thesis using e(2,3,6) e'(2,3) same(2) saved_inj [of "saved_tools (serverTools e)"]
    by (auto simp: server_ok_def)
qed

lemma tool_length: "registry_ok reg \<Longrightarrow> tool_of reg k raw = Some n \<Longrightarrow> int (length n) \<le> MCP_RUNTIME_TOOL_NAME_MAX_LENGTH"
  by (erule (1) tool_ofE) (force simp: server_ok_def runtime_name_def dest: saved_value)

lemma answered_tool:
  assumes "registry_ok reg" "assignTools key raws reg = (Inr r, reg')" "map_of (assignedNames r) raw = Some n"
  shows "tool_of reg' key raw = Some n"
proof -
  from assign_tools [OF assms(1,2)] obtain e q new where find: "find (\<lambda>e. serverKey e = key) reg = Some e" and e: "e \<in> set reg" "serverKey e = key"
      and alloc: "allocation_ok (set raws) (saved_tools (serverTools e))
         (MCP_RUNTIME_TOOL_NAME_MAX_LENGTH - 7 - int (length (serverSegment e))) q"
      and new: "adds (assignedNames q) (set raws) (saved_tools (serverTools e)) (saved_tools new)"
      and r: "assignedNames r = map (\<lambda>(raw, segment). (raw, runtime_name (serverSegment e) segment)) (assignedNames q)"
      and reg': "reg' = map (\<lambda>x. if serverKey x = key then x\<lparr>serverTools := serverTools e @ new\<rparr> else x) reg"
    by blast
  obtain v where v: "map_of (assignedNames q) raw = Some v" "n = runtime_name (serverSegment e) v"
    using assms(3) by (auto simp: r map_of_map)
  have "saved_ok (saved_tools (serverTools e))" using assms(1) e(1) by (simp add: registry_ok_def server_ok_def)
  from adds_lookup [OF this alloc new v(1)] have "map_of (saved_tools (serverTools e @ new)) raw = Some v" by simp
  moreover have "find (\<lambda>e. serverKey e = key) reg' = Some (e\<lparr>serverTools := serverTools e @ new\<rparr>)"
    using find unfolding reg' by (induction reg) (auto split: if_splits)
  ultimately show ?thesis using v(2) by (simp add: tool_of_def)
qed

text \<open>What is assigned stays, whatever the later calls.\<close>

lemma saved_kept:
  assumes "registry_ok reg" "map_of (saved_servers reg) k = Some v"
  shows "map_of (saved_servers (after_call c reg)) k = Some v"
proof (cases c)
  case (AssignServers cands)
  obtain r reg' where a: "assignServers cands reg = (r, reg')" by fastforce
  obtain new where new: "reg' = reg @ new" using assign_servers(1) [OF assms(1) a] by blast
  have "registry_ok reg'" using registry_step [OF assms(1), of c] AssignServers a by (simp add: after_call_def)
  then have "distinct (map fst (saved_servers reg'))" unfolding registry_ok_def saved_ok_def by blast
  then have "map_of (saved_servers reg') k = Some v"
    using map_of_SomeD [OF assms(2)] by (intro map_of_is_SomeI) (simp_all add: new)
  then show ?thesis using AssignServers a by (simp add: after_call_def)
next
  case (AssignTools key raws)
  have "saved_servers (snd (assignTools key raws reg)) = saved_servers reg"
    by (simp add: assignTools_def Let_def saved_servers_def comp_def if_distrib cong: if_cong split: option.split)
  then show ?thesis using assms(2) AssignTools by (simp add: after_call_def)
qed

lemma tool_kept:
  assumes "registry_ok reg" "tool_of reg k raw = Some n"
  shows "tool_of (after_call c reg) k raw = Some n"
proof -
  from assms obtain e t where e: "e \<in> set reg" "serverKey e = k" "map_of (saved_tools (serverTools e)) raw = Some t"
    "n = runtime_name (serverSegment e) t" by (rule tool_ofE)
  have "\<exists>e'. e' \<in> set (after_call c reg) \<and> serverKey e' = k \<and> serverSegment e' = serverSegment e
    \<and> map_of (saved_tools (serverTools e')) raw = Some t"
  proof (cases c)
    case (AssignServers cands)
    obtain r reg' where a: "assignServers cands reg = (r, reg')" by fastforce
    obtain new where "reg' = reg @ new" using assign_servers(1) [OF assms(1) a] by blast
    then show ?thesis using e AssignServers a by (intro exI [of _ e]) (simp add: after_call_def)
  next
    case (AssignTools key raws)
    show ?thesis
    proof (cases "fst (assignTools key raws reg)")
      case (Inl msg)
      then have "snd (assignTools key raws reg) = reg" by (auto simp: assignTools_def Let_def split: option.splits)
      then show ?thesis using e AssignTools by (intro exI [of _ e]) (simp add: after_call_def)
    next
      case (Inr r)
      then obtain reg' where a: "assignTools key raws reg = (Inr r, reg')" by (metis prod.collapse)
      from assign_tools [OF assms(1) a] obtain s new where s: "s \<in> set reg" "serverKey s = key"
        and reg': "reg' = map (\<lambda>x. if serverKey x = key then x\<lparr>serverTools := serverTools s @ new\<rparr> else x) reg"
        by blast
      have "registry_ok reg'" using registry_step [OF assms(1), of c] AssignTools a by (simp add: after_call_def)
      then have ok: "\<And>x. x \<in> set reg' \<Longrightarrow> distinct (map fst (saved_tools (serverTools x)))"
        unfolding registry_ok_def server_ok_def saved_ok_def by blast
      show ?thesis
      proof (cases "k = key")
        case False
        then have "e \<in> set reg'" using e(1,2) by (force simp: reg')
        then show ?thesis using e AssignTools a by (intro exI [of _ e]) (simp add: after_call_def)
      next
        case True
        then have "s = e" using find_key [OF assms(1) s(1)] find_key [OF assms(1) e(1)] s(2) e(2) by simp
        let ?e = "e\<lparr>serverTools := serverTools e @ new\<rparr>"
        have in': "?e \<in> set reg'" using e(1,2) True \<open>s = e\<close> by (force simp: reg')
        have "map_of (saved_tools (serverTools ?e)) raw = Some t"
          using ok [OF in'] map_of_SomeD [OF e(3)] by (intro map_of_is_SomeI) simp_all
        then show ?thesis using in' e(2) AssignTools a by (intro exI [of _ ?e]) (simp add: after_call_def)
      qed
    qed
  qed
  then obtain e' where e': "e' \<in> set (after_call c reg)" "serverKey e' = k" "serverSegment e' = serverSegment e"
    "map_of (saved_tools (serverTools e')) raw = Some t" by blast
  then show ?thesis using find_key [OF registry_step [OF assms(1)] e'(1)] e(4) by (simp add: tool_of_def)
qed

lemma all_calls_possible [simp]: "all_possible (\<lambda>_ _. True) f es s"
  by (induction es arbitrary: s) simp_all

lemma run_registry_ok: "registry_ok reg \<Longrightarrow> registry_ok (run_events after_call cs reg)"
  by (rule names.run_ok) simp_all

lemma registry_reached: "registry_ok (run_events after_call cs [])"
  by (rule run_registry_ok) (rule names.ok_init)

lemma tool_kept_run: "registry_ok reg \<Longrightarrow> tool_of reg k raw = Some n \<Longrightarrow> tool_of (run_events after_call cs reg) k raw = Some n"
  by (rule names.run_keeps [where E = "\<lambda>_. True"]) (simp_all add: tool_kept list_all_iff)

section \<open>Properties\<close>

lemma call_tools_answer:
  assumes "registry_ok reg" "answer (AssignTools k raws) reg = (Inr r, reg')" "map_of (assignedNames r) raw = Some n"
  shows "registry_ok reg'" "tool_of reg' k raw = Some n"
proof -
  have a: "assignTools k raws reg = (Inr r, reg')" using assms(2) by simp
  then show "registry_ok reg'" using registry_step [OF assms(1), of "AssignTools k raws"] by (simp add: after_call_def)
  show "tool_of reg' k raw = Some n" using assms(1) a assms(3) by (rule answered_tool)
qed

text \<open>
  C11: the public name of a tool identifies it.  However many calls lie before and between two
  answers, the two names are equal exactly when they are for the same tool of the same server: a name
  is never given to another identity and a tool never gets a second name; and a name has at most
  eighty characters.
\<close>

theorem tool_names_identify:
  assumes "answer (AssignTools k raws) (run_events after_call cs []) = (Inr r, reg)"
    "map_of (assignedNames r) raw = Some n"
    "answer (AssignTools k' raws') (run_events after_call cs' reg) = (Inr r', reg')"
    "map_of (assignedNames r') raw' = Some n'"
  shows "(n = n' \<longleftrightarrow> k = k' \<and> raw = raw') \<and> int (length n) \<le> MCP_RUNTIME_TOOL_NAME_MAX_LENGTH"
proof -
  note first = call_tools_answer [OF registry_reached assms(1,2)]
  have ok: "registry_ok (run_events after_call cs' reg)" using first(1) by (rule run_registry_ok)
  note second = call_tools_answer [OF ok assms(3,4)]
  have "tool_of (run_events after_call cs' reg) k raw = Some n" using first by (rule tool_kept_run)
  then have "tool_of (after_call (AssignTools k' raws') (run_events after_call cs' reg)) k raw = Some n"
    using ok by (intro tool_kept)
  then have n: "tool_of reg' k raw = Some n" using assms(3) by (simp add: after_call_def)
  then show ?thesis using tool_inj [OF second(1) n, of k' raw'] second tool_length [OF first] by auto
qed

definition two_servers :: name_registry where
  "two_servers = run_events after_call [AssignServers [(''a'', ''one''), (''b'', ''one'')]] []"

lemma two_servers_tools:
  "answer (AssignTools ''a'' [''x y'', ''x.y'']) two_servers
     = (Inr \<lparr>assignedNames = [(''x y'', ''mcp__one__x_y''), (''x.y'', ''mcp__one__x_y_2'')], assignErrors = []\<rparr>,
        after_call (AssignTools ''a'' [''x y'', ''x.y'']) two_servers)"
  "answer (AssignTools ''b'' [''x_y'']) (after_call (AssignTools ''a'' [''x y'', ''x.y'']) two_servers)
     = (Inr \<lparr>assignedNames = [(''x_y'', ''mcp__one_2__x_y'')], assignErrors = []\<rparr>,
        after_call (AssignTools ''b'' [''x_y'']) (after_call (AssignTools ''a'' [''x y'', ''x.y'']) two_servers))"
  by code_simp+

lemma tool_names_identify_witness:
  "(''mcp__one__x_y'' = ''mcp__one_2__x_y'' \<longleftrightarrow> ''a'' = ''b'' \<and> ''x y'' = ''x_y'')
     \<and> int (length ''mcp__one__x_y'') \<le> MCP_RUNTIME_TOOL_NAME_MAX_LENGTH"
proof (rule tool_names_identify)
  show "answer (AssignTools ''a'' [''x y'', ''x.y'']) (run_events after_call [AssignServers [(''a'', ''one''), (''b'', ''one'')]] [])
     = (Inr \<lparr>assignedNames = [(''x y'', ''mcp__one__x_y''), (''x.y'', ''mcp__one__x_y_2'')], assignErrors = []\<rparr>,
        after_call (AssignTools ''a'' [''x y'', ''x.y'']) two_servers)"
    using two_servers_tools(1) unfolding two_servers_def .
  show "answer (AssignTools ''b'' [''x_y'']) (run_events after_call [] (after_call (AssignTools ''a'' [''x y'', ''x.y'']) two_servers))
     = (Inr \<lparr>assignedNames = [(''x_y'', ''mcp__one_2__x_y'')], assignErrors = []\<rparr>,
        after_call (AssignTools ''b'' [''x_y'']) (after_call (AssignTools ''a'' [''x y'', ''x.y'']) two_servers))"
    using two_servers_tools(2) by (simp del: answer.simps)
qed simp_all

text \<open>
  C8: a permission rule for an MCP server, in any registry that was reached, covers exactly the tools
  of the server it names, although servers and tools choose their names freely.
\<close>

theorem server_rule_covers:
  assumes "reg = run_events after_call cs []" "map_of (saved_servers reg) k' = Some s"
    "answer (AssignTools k raws) reg = (Inr r, reg')" "map_of (assignedNames r) raw = Some n"
  shows "matchesMcpServerRuntimeName n (''mcp__'' @ s) \<longleftrightarrow> k = k'"
proof -
  have ok: "registry_ok reg" using registry_reached assms(1) by simp
  note second = call_tools_answer [OF ok assms(3,4)]
  have s: "map_of (saved_servers reg') k' = Some s"
    using saved_kept [OF ok assms(2), of "AssignTools k raws"] assms(3) by (simp add: after_call_def)
  have servers: "saved_ok (saved_servers reg')" using second(1) by (simp add: registry_ok_def)
  from second obtain e t where e: "e \<in> set reg'" "serverKey e = k" "n = runtime_name (serverSegment e) t"
    "validSegment (serverSegment e)" "validSegment t" by (rule tool_ofE)
  have "matchesMcpServerRuntimeName n (''mcp__'' @ s) \<longleftrightarrow> serverSegment e = s"
  proof
    assume "matchesMcpServerRuntimeName n (''mcp__'' @ s)"
    then obtain srv tool where m: "n = ''mcp__'' @ srv @ ''__'' @ tool" "s = srv" "srv \<noteq> []" unfolding mcp_server_match by auto
    have "validSegment s" using servers saved_value [OF s] unfolding saved_ok_def by blast
    then show "serverSegment e = s"
      using runtime_name_inj [OF e(4), of s t tool] m(1,2) e(3) by (simp add: runtime_name_def)
  next
    assume "serverSegment e = s"
    then show "matchesMcpServerRuntimeName n (''mcp__'' @ s)"
      unfolding mcp_server_match
      using e(3-5) shape_no_double [of False s] spaced_no_double [OF valid_spaced [OF e(5)]] valid_not_Nil
      by (intro exI [of _ s] exI [of _ t]) (auto simp: runtime_name_def validSegment_def)
  qed
  moreover have "serverSegment e = s \<longleftrightarrow> k = k'"
  proof
    have "(k, serverSegment e) \<in> set (saved_servers reg')" using e(1,2) by (force simp: saved_servers_def)
    then have m: "map_of (saved_servers reg') k = Some (serverSegment e)"
      using servers unfolding saved_ok_def by (intro map_of_is_SomeI) blast+
    then show "serverSegment e = s \<Longrightarrow> k = k'" using saved_inj [OF servers _ s] by blast
    show "k = k' \<Longrightarrow> serverSegment e = s" using m s by simp
  qed
  ultimately show ?thesis by simp
qed

lemma server_rule_covers_witness:
  "matchesMcpServerRuntimeName ''mcp__one__x_y'' (''mcp__'' @ ''one_2'') \<longleftrightarrow> ''a'' = ''b''"
proof (rule server_rule_covers)
  show "two_servers = run_events after_call [AssignServers [(''a'', ''one''), (''b'', ''one'')]] []" by (rule two_servers_def)
  show "map_of (saved_servers two_servers) ''b'' = Some ''one_2''" by code_simp
qed (rule two_servers_tools(1), simp)

section \<open>The registry behind a file\<close>

text \<open>The answers to a list of calls, of a registry in memory and of one behind a file.\<close>

fun memory_answers :: "name_call list \<Rightarrow> name_registry \<Rightarrow> (string + name_assignments) list" where
  "memory_answers [] reg = []"
| "memory_answers (c # cs) reg = fst (answer c reg) # memory_answers cs (snd (answer c reg))"

fun file_answers :: "name_call list \<Rightarrow> jsval option \<Rightarrow> (string + name_assignments) list" where
  "file_answers [] file = []"
| "file_answers (c # cs) file =
     fst (transaction_on (answer c) file) # file_answers cs (snd (transaction_on (answer c) file))"

lemma parse_tools_json:
  "distinct (map toolRaw ts) \<Longrightarrow> distinct (map toolSegment ts) \<Longrightarrow> toolRaw ` set ts \<inter> set raws = {} \<Longrightarrow>
    toolSegment ` set ts \<inter> set segs = {} \<Longrightarrow>
    (\<And>t. t \<in> set ts \<Longrightarrow> validSegment (toolSegment t) \<and> int (length (toolSegment t) + n + 7) \<le> MCP_RUNTIME_TOOL_NAME_MAX_LENGTH) \<Longrightarrow>
    parse_tools n raws segs (map tool_json ts) = Some ts"
proof (induction ts arbitrary: raws segs)
  case (Cons t ts)
  have "parse_tools n (toolRaw t # raws) (toolSegment t # segs) (map tool_json ts) = Some ts"
    using Cons.prems by (intro Cons.IH) auto
  then show ?case using Cons.prems by (auto simp: tool_json_def [of t] string_prop_def prop_of_def)
qed simp

lemma server_ok_tools:
  "server_ok e \<Longrightarrow> parse_tools (length (serverSegment e)) [] [] (map tool_json (serverTools e)) = Some (serverTools e)"
  by (rule parse_tools_json) (auto simp: server_ok_def saved_ok_def saved_tools_def comp_def)

lemma parse_servers_json:
  "distinct (map serverKey reg) \<Longrightarrow> distinct (map serverSegment reg) \<Longrightarrow> serverKey ` set reg \<inter> set keys = {} \<Longrightarrow>
    serverSegment ` set reg \<inter> set segs = {} \<Longrightarrow>
    (\<And>e. e \<in> set reg \<Longrightarrow> validSegment (serverSegment e) \<and> server_ok e) \<Longrightarrow>
    parse_servers keys segs (map server_json reg) = Inr reg"
proof (induction reg arbitrary: keys segs)
  case (Cons e reg)
  have "parse_servers (serverKey e # keys) (serverSegment e # segs) (map server_json reg) = Inr reg"
    using Cons.prems by (intro Cons.IH) auto
  then show ?case using Cons.prems server_ok_tools [of e]
    by (auto simp: server_json_def [of e] string_prop_def prop_of_def server_ok_def)
qed simp

lemma parse_written: "registry_ok reg \<Longrightarrow> parseState (registry_json reg) = Inr reg"
proof -
  assume "registry_ok reg"
  then have "parse_servers [] [] (map server_json reg) = Inr reg"
    by (intro parse_servers_json) (auto simp: registry_ok_def saved_ok_def saved_servers_def comp_def)
  then show ?thesis by (simp add: parseState_def registry_json_def prop_of_def)
qed

definition holds :: "jsval option \<Rightarrow> name_registry \<Rightarrow> bool" where
  "holds file reg \<longleftrightarrow> registry_ok reg \<and> file = (if file = None \<and> reg = [] then None else Some (registry_json reg))"

lemma transaction_holds:
  assumes "holds file reg"
  shows "fst (transaction_on (answer c) file) = fst (answer c reg)"
    "holds (snd (transaction_on (answer c) file)) (snd (answer c reg))"
proof -
  have ok: "registry_ok reg" "registry_ok (snd (answer c reg))"
    using assms registry_step [of reg c] by (auto simp: holds_def after_call_def)
  have read: "(case file of None \<Rightarrow> Inr [] | Some v \<Rightarrow> parseState v) = Inr reg"
    using assms parse_written [OF ok(1)] by (cases "file") (auto simp: holds_def split: if_splits)
  have failed: "snd (answer c reg) = reg" if "fst (answer c reg) = Inl e" for e
    using that by (cases c) (auto simp: assignTools_def Let_def split: option.splits)
  have same: "snd (answer c reg) = reg" if "registry_json (snd (answer c reg)) = registry_json reg"
    using parse_written [OF ok(1)] parse_written [OF ok(2)] that by simp
  show "fst (transaction_on (answer c) file) = fst (answer c reg)"
    by (simp add: transaction_on_def read split: prod.split sum.split)
  show "holds (snd (transaction_on (answer c) file)) (snd (answer c reg))"
    using failed same assms ok by (auto simp: transaction_on_def read holds_def split: prod.splits sum.splits)
qed

text \<open>
  C22: a registry behind a file answers every sequence of calls exactly as one that stays in memory:
  whatever it wrote it reads back, a file it wrote is never refused, and a call that fails leaves
  the file as it was.
\<close>

theorem file_registry_refines: "file_answers cs None = memory_answers cs []"
proof -
  have "file_answers cs f = memory_answers cs reg" if "holds f reg" for f reg
    using that by (induction cs arbitrary: f reg) (auto simp: transaction_holds)
  then show ?thesis using names.ok_init by (simp add: holds_def)
qed

end
