(* ===== verification/Spec2Isabelle.thy ===== *)
theory Spec2Isabelle
  imports PermissionEngine ShellHeredoc ShellWrappers SafeCommand RuleMatch SessionGate BoundedRing BusyQueue
    TurnFence RunawayGuard BackgroundTasks GoalReads McpRegistry
begin

text \<open>
  A verification development for kinetick-code, a coding agent: the permission layer that decides
  whether a tool call runs, is refused, or waits for the user, and the state machines that keep the
  agent's work in order.

  \<^bold>\<open>The permission layer\<close> (\<open>src/packages/agent-modules/permission\<close>).  Every tool call of the agent passes
  \<open>checkPermission\<close> (\<open>engine.ts\<close>) with the session's \<open>ToolPermissionContext\<close> (\<open>context.ts\<close>): the mode,
  and the allow, deny and ask rules of each source.  A checker registered for the tool may give a
  verdict first; the policy then reduces verdict, rules and mode to one \<open>PermissionDecision\<close>.  There
  are two reducers, the older one inside \<open>engine.ts\<close> and \<open>reducePermissionDecision\<close> of
  \<open>permission-core.ts\<close>, chosen by the policy owner.  The checker of the shell tool takes the command
  line apart with the parsers of \<open>tools/\<close>: it is cut into commands (\<open>bash-split.ts\<close>), a command into
  words (\<open>shell-tokenize.ts\<close>), wrappers around a command are peeled off (\<open>bash-wrapper-unwrap.ts\<close>),
  commands are matched with the user's rules (\<open>bash-rule-match.ts\<close>), and scripts of plain commands are
  compared with a list of known safe ones (\<open>bash-ast.ts\<close>, \<open>safe-command.ts\<close>).

  \<^bold>\<open>The runtime\<close> (\<open>src/packages/local-runtime-v2\<close>, \<open>src/packages/agent-modules\<close>).  A session runs turns,
  unless it is mutated or deleted, which needs it alone (\<open>session-operation-gate.ts\<close>); queued work has
  priority over new turns (\<open>turn-priority-fence.ts\<close>); scheduled work that finds its session busy waits
  in a queue (\<open>cron/busy-queue.ts\<close>); clients that reconnect to an event stream are served from a ring
  of the latest events (\<open>bounded-ring.ts\<close>); a turn that repeats itself is noticed and reminded once
  (\<open>runaway-guard\<close>); and work that outlives a turn is a background task with a status, an output and
  lifecycle events (\<open>background-task\<close>).  A goal of a thread is pursued over many turns: the store of goals
  (\<open>local-runtime/src/thread-goal\<close>, types in \<open>agent-modules/goal\<close>) accounts for the work done and takes the
  decisions of user, turns, verifier and breaker, each guarded by the epoch of the goal.  The tools of
  external servers are offered under names that a registry assigns (\<open>agent-modules/mcp\<close>).

  \<^bold>\<open>Theories of the permission layer.\<close>
    \<^item> \<open>Prelude\<close>: JavaScript values, strings and maps with insertion order (interface \<open>keyed_store\<close>),
      \<open>scan\<close>, the common form of the index loops over a string, with its invariant rule, and systems
      driven by events (\<open>event_system\<close>).  \<open>Numbers\<close>, \<open>JsonText\<close> and \<open>JsonArrays\<close>: finite and decimal
      numbers, strings and arrays of strings in JSON with their round trip, and the elements of any
      JSON array.
    \<^item> \<open>PermissionTypes\<close>: the types of \<open>types.ts\<close> and \<open>ask-policy.ts\<close>.
    \<^item> \<open>PermissionContext\<close>: \<open>context.ts\<close>.  The immutable context is a record; \<open>addRules\<close>,
      \<open>replaceRules\<close>, \<open>removeRules\<close> and \<open>applyPermissionUpdate\<close> return the new one.
    \<^item> \<open>PermissionCore\<close>: \<open>permission-core.ts\<close> and \<open>mcp-runtime-name.ts\<close>.  The locale
      \<open>permission_policy\<close> is what a reducer promises: deny iff there is a denial, else ask iff the call
      must be asked, else allow iff granted; \<open>core_policy\<close> interprets it on the core reducer.
    \<^item> \<open>PermissionEngine\<close>: \<open>engine.ts\<close>, the checker registry and both paths, with the same locale
      interpreted on the engine's own reducer (\<open>engine_policy\<close>).
    \<^item> \<open>ShellTokens\<close>: \<open>tools/shell-tokenize.ts\<close> and \<open>shellQuote\<close> of \<open>tools/bash-permission.ts\<close>.
    \<^item> \<open>ShellSplit\<close>, \<open>ShellHeredoc\<close>: \<open>tools/bash-split.ts\<close>, the splitter without and with heredocs.
    \<^item> \<open>ShellWrappers\<close>: \<open>tools/bash-wrapper-unwrap.ts\<close>.
    \<^item> \<open>ShellAst\<close>: \<open>tools/bash-ast.ts\<close>, the word-only script parser.
    \<^item> \<open>SafeCommand\<close>: \<open>tools/safe-command.ts\<close>, the known-safe list.
    \<^item> \<open>RuleMatch\<close>: \<open>tools/bash-rule-match.ts\<close>, the rules a user stores, on the parser of \<open>ShellAst\<close>.

  \<^bold>\<open>Theories of the runtime.\<close>  Each is a record of state, one function per operation, and an
  \<open>event_system\<close> whose events are the calls and whose invariant is proved once and interpreted on the
  model; the fence has the interface \<open>pause_ledger\<close> instead.
    \<^item> \<open>SessionGate\<close>: permits, leases and blocks over a heap of state objects and promises, because a
      closure may hold an object the map no longer has.
    \<^item> \<open>TurnFence\<close>: the two tables of the queue as the state, admission as a query over them.
    \<^item> \<open>BusyQueue\<close>: the entries by key and a log of resolved promises; the sends of a drain are separate
      events.
    \<^item> \<open>BoundedRing\<close>: the entries with their cursors, byte count and identity index.
    \<^item> \<open>RunawayFingerprint\<close>, \<open>RunawayStepView\<close>, \<open>RunawayDetectors\<close>: the serializer of values, the
      projection of a step to keys, and the detectors over them.  \<open>RunawayProgress\<close>: what the progress
      detector counts, read off the history of events.  \<open>RunawayGuard\<close>: a step, the reminder, the guard
      and the replay.
    \<^item> \<open>TaskStore\<close>, \<open>TaskOutput\<close>: the two in-memory stores of background tasks; \<open>Utf8\<close> and \<open>UriText\<close> are
      the text conversions of the runtime library.  \<open>TaskManager\<close>: the asynchronous methods, each cut
      at its awaits into segments, so that calls interleave.  \<open>TaskProofs\<close>: its invariant.
      \<open>BackgroundTasks\<close>: the properties.
    \<^item> \<open>GoalTypes\<close>: \<open>types.ts\<close> of the goal package and \<open>store-row.ts\<close>, a row of the table and its reading.
      \<open>GoalStore\<close>: the operations of the store on the list of rows, a statement being its effect on the
      list.  \<open>GoalProofs\<close>: the operations as events, the invariant of the table, and \<open>moves\<close>, what an event may
      do to a row.  \<open>ThreadGoals\<close>: the interface \<open>epoch_guarded\<close> of decisions taken for an epoch,
      interpreted on the store, and the properties over runs.  \<open>GoalReads\<close>: what is answered and what
      is read, and the breaker over equal replies.
    \<^item> \<open>McpNames\<close>: \<open>tool-name.ts\<close> and \<open>name-registry.ts\<close> of the package \<open>mcp\<close>.  \<open>McpProofs\<close>: the shape of
      segments and what an allocation gives.  \<open>McpRegistry\<close>: the registry over its calls, its names,
      the permission rules that use them, and the registry behind a file.

  \<^bold>\<open>What is shown.\<close>  For the policy: both reducers implement one specification and agree with each
  other on decision and trace; an update of allow or ask rules can neither lift nor create a denial;
  an added whole-tool denial holds in every mode; bypass mode allows exactly the calls without a
  denial and without a bypass-immune question.  For the parsers: token spans and heredoc ranges are
  ordered and in bounds; quoting is undone by tokenizing; a command line built from quoted arguments
  splits into, and parses to, exactly what it was built from, so no argument can add or hide a
  command; the payload of an inline script is exposed; an accepted git call or script has only
  accepted parts; a stored rule matches what it is documented to match.  For the runtime: an open
  lease has the session to itself and is told when, work is drained exactly once, a ring is bounded
  and its replay complete, at most one queued claim is admitted, a revoked turn leaves the tables as
  they were, equal fingerprints mean equal calls, and the guard counts what it says, in production as
  in replay, and reminds once, exactly when a count reaches the threshold.  However calls of the task manager interleave, statuses only move
  forward, every call settles, and then every task runs or its end has been reported; pages and steps
  of a listing or an output add up to the whole.  Of the decisions taken for one epoch of a goal one
  takes effect; only the user makes a goal active again; usage is charged exactly; what the store
  answers is what it reads; the breaker pauses at its limit.  The public name of an MCP tool stands for
  one tool of one server for good, whatever the servers call themselves, so a permission rule for a
  server covers its tools and no others; the registry in a file behaves as the one in memory.

  \<^bold>\<open>Bounds and termination.\<close>  The index loops are structural recursions over the rest of the input
  (\<open>scan\<close>) or \<open>function\<close>s with a measure on the rest of the input, so every definition is total and
  there is no fuel; only the clients that read pages or steps are given a number of reads, and it is
  shown which number is enough.  The bounds are the code's own: four wrapper steps, \<open>MAX_UNWRAP_DEPTH\<close> = 4 levels
  of inline scripts, whose worklist terminates by the multiset of the remaining depths, and
  \<open>MAX_SERIALIZE_DEPTH\<close> = 32 levels of a serialized value.

  \<^bold>\<open>Conventions.\<close>  A string is a list of 8-bit characters; the code's strings are UTF-16, of which the
  parsers inspect only ASCII characters and white space.  \<open>undefined\<close> is \<open>None\<close>; thrown errors are
  values.  A promise is a number with a log of resolutions.  Arguments stand for what the code does
  not fix: the checkers and the path fallback of the engine, \<open>process.platform\<close>, the two decodings of
  a base64 payload, clocks, random bytes, the keyed hash, the policies of hosts, and the \<open>RegExp\<close>
  constructor on sources outside the fragment the rules compile to.

  \<^bold>\<open>Not modelled.\<close>  Logging, freezing and telemetry; the regular-expression tables of
  \<open>dangerous-patterns.ts\<close> and the scans built on them; path resolution, which depends on the
  file system; the agent loop around the third-party engine, the user interface, the language-model
  clients, channels, browsers, and the database behind the tables of the fence and of the goals; the
  orchestration of goals around the turns (prompts, tools, verifier dispatch).
\<close>

end
